(* ===== verification/Py_Prelude.thy ===== *)
theory Py_Prelude
  imports Main "HOL-Library.AList"
begin

text \<open>
  Shared vocabulary of the development.  Python exceptions are values of \<open>py_error\<close>; a
  statement that may raise returns \<open>'a res\<close> (\<open>Inl\<close> the exception, \<open>Inr\<close> the value) and
  sequencing is \<open>rbind\<close>.  A \<^verbatim>\<open>for\<close> loop whose body may raise is \<open>rfold\<close>, a comprehension
  is \<open>rmap\<close>.  Python integers are \<open>int\<close>, list indices and slices follow Python's rules for
  negative and out-of-range positions, and a \<^verbatim>\<open>dict\<close> is an association list in insertion
  order (\<open>map_of\<close>, \<open>AList.update\<close>, \<open>AList.delete\<close>).  Divisors are block, chunk and alignment
  sizes, which are positive; only the conversion of hash lists has a branch for zero.  The collection \<open>res_simps\<close> takes
  monadic equations apart, \<open>idx_simps\<close> evaluates slices and ceiling divisions.
\<close>

named_theorems res_simps \<open>elimination of successful monadic computations\<close>
named_theorems idx_simps \<open>Python slices, indices and ceiling division\<close>

section \<open>Exceptions and sequencing\<close>

datatype py_error =
    AssertionError
  | ValueError
  | RuntimeError
  | IndexError
  | KeyError
  | OverflowError
  | ZeroDivisionError
  | TypeError
  | NotImplementedError
  | StopIteration | AttributeError
  | Diverges

text \<open>\<open>Diverges\<close> is no Python exception: it marks a call that does not return.\<close>

type_synonym 'a res = "py_error + 'a"

definition rbind :: "'a res \<Rightarrow> ('a \<Rightarrow> 'b res) \<Rightarrow> 'b res" where
  "rbind m f = (case m of Inl e \<Rightarrow> Inl e | Inr x \<Rightarrow> f x)"

definition py_assert :: "bool \<Rightarrow> unit res" where
  "py_assert b = (if b then Inr () else Inl AssertionError)"

lemma rbind_Inr [simp]: "rbind (Inr x) f = f x"
  by (simp add: rbind_def)

lemma rbind_Inl [simp]: "rbind (Inl e) f = Inl e"
  by (simp add: rbind_def)

lemma rbind_eq_Inr [res_simps]: "rbind m f = Inr y \<longleftrightarrow> (\<exists>x. m = Inr x \<and> f x = Inr y)"
  by (cases m) (auto simp: rbind_def)

lemma rbind_eq_Inl: "rbind m f = Inl e \<longleftrightarrow> m = Inl e \<or> (\<exists>x. m = Inr x \<and> f x = Inl e)"
  by (cases m) (auto simp: rbind_def)

lemma py_assert_eq_Inr [simp, res_simps]: "py_assert b = Inr u \<longleftrightarrow> b"
  by (auto simp: py_assert_def)

lemma py_assert_True [simp]: "py_assert True = Inr ()"
  by (simp add: py_assert_def)

lemma py_assert_False [simp]: "py_assert False = Inl AssertionError"
  by (simp add: py_assert_def)

lemma rbind_cong [fundef_cong]:
  "m = m' \<Longrightarrow> (\<And>x. m' = Inr x \<Longrightarrow> f x = f' x) \<Longrightarrow> rbind m f = rbind m' f'"
  by (cases m') (auto simp: rbind_def)

text \<open>A loop whose body may raise, and a comprehension whose element may raise.\<close>

fun rfold :: "('a \<Rightarrow> 's \<Rightarrow> 's res) \<Rightarrow> 'a list \<Rightarrow> 's \<Rightarrow> 's res" where
  "rfold f [] s = Inr s"
| "rfold f (x # xs) s = rbind (f x s) (rfold f xs)"

fun rmap :: "('a \<Rightarrow> 'b res) \<Rightarrow> 'a list \<Rightarrow> 'b list res" where
  "rmap f [] = Inr []"
| "rmap f (x # xs) = rbind (f x) (\<lambda>y. rbind (rmap f xs) (\<lambda>ys. Inr (y # ys)))"

lemma rmap_cong [fundef_cong]:
  "xs = ys \<Longrightarrow> (\<And>x. x \<in> set ys \<Longrightarrow> f x = g x) \<Longrightarrow> rmap f xs = rmap g ys"
  by (induction xs arbitrary: ys) auto

lemma rfold_append: "rfold f (xs @ ys) s = rbind (rfold f xs s) (rfold f ys)"
  by (induction xs arbitrary: s) (auto simp: rbind_def split: sum.splits)

lemma rfold_invariant:
  assumes "rfold f xs s = Inr t" and "P s"
    and "\<And>x s t. x \<in> set xs \<Longrightarrow> P s \<Longrightarrow> f x s = Inr t \<Longrightarrow> P t"
  shows "P t"
  using assms
proof (induction xs arbitrary: s)
  case Nil
  then show ?case by simp
next
  case (Cons x xs)
  from Cons.prems(1) obtain u where u: "f x s = Inr u" "rfold f xs u = Inr t"
    by (auto simp: rbind_eq_Inr)
  have "P u" by (rule Cons.prems(3) [OF _ Cons.prems(2) u(1)]) simp
  with u(2) Cons.prems(3) show ?case by (intro Cons.IH) auto
qed

text \<open>A loop whose body always succeeds under an invariant that may mention what is left.\<close>

lemma rfold_succeeds:
  assumes "P xs s"
    and "\<And>x ys s. P (x # ys) s \<Longrightarrow> \<exists>t. f x s = Inr t \<and> P ys t"
  shows "\<exists>t. rfold f xs s = Inr t \<and> P [] t"
  using assms(1)
proof (induction xs arbitrary: s)
  case Nil
  then show ?case by simp
next
  case (Cons x xs)
  from assms(2) [OF Cons.prems] obtain t where "f x s = Inr t" "P xs t" by blast
  with Cons.IH show ?case by simp
qed

lemma rmap_eq_Inr_length [dest]: "rmap f xs = Inr ys \<Longrightarrow> length ys = length xs"
  by (induction xs arbitrary: ys) (auto simp: rbind_eq_Inr)

lemma rmap_all_Inr: "(\<And>x. x \<in> set xs \<Longrightarrow> f x = Inr (g x)) \<Longrightarrow> rmap f xs = Inr (map g xs)"
  by (induction xs) auto

section \<open>Integers, indices and slices\<close>

text \<open>\<open>cdiv\<close> is \<^verbatim>\<open>vllm.utils.math_utils.cdiv\<close>: \<^verbatim>\<open>-(a // -b)\<close>.\<close>

definition cdiv :: "int \<Rightarrow> int \<Rightarrow> int" where
  "cdiv a b = - (a div - b)"

lemma le_div_iff_mult_le: "0 < b \<Longrightarrow> x \<le> y div b \<longleftrightarrow> x * b \<le> (y::int)"
proof
  assume b: "0 < b" and "x \<le> y div b"
  then have "x * b \<le> (y div b) * b" by simp
  also have "\<dots> \<le> y" using b by (simp add: minus_mod_eq_div_mult [symmetric])
  finally show "x * b \<le> y" .
next
  assume b: "0 < b" and "x * b \<le> y"
  then have "(x * b) div b \<le> y div b" by (intro zdiv_mono1)
  with b show "x \<le> y div b" by simp
qed

lemma cdiv_le_iff [idx_simps]: "0 < b \<Longrightarrow> cdiv a b \<le> c \<longleftrightarrow> a \<le> c * b"
  using le_div_iff_mult_le [of b "- c" "- a"] by (auto simp: cdiv_def div_minus_right)

lemma cdiv_nonneg: "0 < b \<Longrightarrow> 0 \<le> a \<Longrightarrow> 0 \<le> cdiv a b"
  using cdiv_le_iff [of b a "-1"] by linarith

lemma cdiv_mono: "0 < b \<Longrightarrow> a \<le> a' \<Longrightarrow> cdiv a b \<le> cdiv a' b"
  using cdiv_le_iff [of b a' "cdiv a' b"] cdiv_le_iff [of b a "cdiv a' b"] by simp

lemma cdiv_mult_ge: "0 < b \<Longrightarrow> a \<le> cdiv a b * b"
  using cdiv_le_iff [of b a "cdiv a b"] by simp

lemma cdiv_exact [simp]: "0 < b \<Longrightarrow> cdiv (a * b) b = a"
  using cdiv_le_iff [of b "a * b" a] cdiv_mult_ge [of b "a * b"] by (auto intro: antisym)

text \<open>
  A slice position counts from the end when negative and is clamped to the list; an index
  out of range raises \<open>IndexError\<close>.
\<close>

definition py_len :: "'a list \<Rightarrow> int" where
  "py_len xs = int (length xs)"

definition py_clamp :: "int \<Rightarrow> int \<Rightarrow> nat" where
  "py_clamp n i = nat (if i < 0 then n + i else min i n)"

definition py_slice :: "'a list \<Rightarrow> int \<Rightarrow> int \<Rightarrow> 'a list" where
  "py_slice xs a b =
     (let i = py_clamp (py_len xs) a; j = py_clamp (py_len xs) b in take (j - i) (drop i xs))"

definition py_from :: "'a list \<Rightarrow> int \<Rightarrow> 'a list" where
  "py_from xs a = drop (py_clamp (py_len xs) a) xs"

definition py_upto :: "'a list \<Rightarrow> int \<Rightarrow> 'a list" where
  "py_upto xs b = take (py_clamp (py_len xs) b) xs"

definition py_get :: "'a list \<Rightarrow> int \<Rightarrow> 'a res" where
  "py_get xs i =
     (let j = (if i < 0 then py_len xs + i else i)
      in if 0 \<le> j \<and> j < py_len xs then Inr (xs ! nat j) else Inl IndexError)"

definition py_set :: "'a list \<Rightarrow> int \<Rightarrow> 'a \<Rightarrow> 'a list res" where
  "py_set xs i v =
     (let j = (if i < 0 then py_len xs + i else i)
      in if 0 \<le> j \<and> j < py_len xs then Inr (xs[nat j := v]) else Inl IndexError)"

definition py_repeat :: "'a \<Rightarrow> int \<Rightarrow> 'a list" where
  "py_repeat x k = replicate (nat k) x"

lemma py_len_simps [simp]:
  "py_len [] = 0"
  "py_len (x # xs) = py_len xs + 1"
  "py_len (xs @ ys) = py_len xs + py_len ys"
  "py_len (map f xs) = py_len xs"
  "py_len (rev xs) = py_len xs"
  "0 \<le> py_len xs"
  by (auto simp: py_len_def)

lemma py_len_0_iff [simp]: "py_len xs = 0 \<longleftrightarrow> xs = []"
  by (simp add: py_len_def)

lemma nat_py_len [simp]: "nat (py_len xs) = length xs"
  by (simp add: py_len_def)

lemma py_slice_nonneg [idx_simps]:
  "0 \<le> a \<Longrightarrow> 0 \<le> b \<Longrightarrow> py_slice xs a b = take (nat b - nat a) (drop (nat a) xs)"
  by (auto simp: py_slice_def py_clamp_def py_len_def Let_def min_def nat_le_iff)

lemma py_from_nonneg [idx_simps]: "0 \<le> a \<Longrightarrow> py_from xs a = drop (nat a) xs"
  by (auto simp: py_from_def py_clamp_def py_len_def min_def nat_le_iff)

lemma py_upto_nonneg [idx_simps]: "0 \<le> b \<Longrightarrow> py_upto xs b = take (nat b) xs"
  by (auto simp: py_upto_def py_clamp_def py_len_def min_def nat_le_iff)

lemma py_get_nonneg [idx_simps]:
  "0 \<le> i \<Longrightarrow> i < py_len xs \<Longrightarrow> py_get xs i = Inr (xs ! nat i)"
  by (simp add: py_get_def Let_def)

lemma py_get_Inr_mem: "py_get xs i = Inr x \<Longrightarrow> x \<in> set xs"
  by (auto simp: py_get_def py_len_def Let_def split: if_splits)

lemma py_repeat_nonpos [simp]: "k \<le> 0 \<Longrightarrow> py_repeat x k = []"
  by (simp add: py_repeat_def)

lemma set_py_repeat [simp]: "set (py_repeat x k) = (if 0 < k then {x} else {})"
  by (simp add: py_repeat_def)

lemma py_len_py_repeat [simp]: "py_len (py_repeat x k) = max 0 k"
  by (simp add: py_len_def py_repeat_def)

section \<open>Lists\<close>

lemma filter_distinct_count: "count_list xs x = length (filter ((=) x) xs)"
  by (induction xs) auto

lemma distinct_count_list_le: "distinct xs \<Longrightarrow> count_list xs x \<le> 1"
  by (induction xs) (auto simp: count_notin)

lemma count_list_mem_distinct: "distinct xs \<Longrightarrow> count_list xs x = (if x \<in> set xs then 1 else 0)"
  by (induction xs) (auto simp: count_notin)

lemma remove1_append_mid:
  "x \<notin> set xs \<Longrightarrow> remove1 x (xs @ x # ys) = xs @ ys"
  by (simp add: remove1_append)

end
