(* ===== verification/Block_Hash.thy ===== *)
theory Block_Hash
  imports Py_Prelude "HOL-Library.Word"
begin

text \<open>
  Block hashes and the byte keys built from them
  (\<^verbatim>\<open>vllm/v1/core/kv_cache_utils.py\<close>, first part, and the offload keys of
  \<^verbatim>\<open>vllm/v1/kv_offload/abstract.py\<close>, which use the same packing).  A hash is a byte string; the
  key under which a block is cached is the hash followed by the KV-cache group id as four
  big-endian bytes.  The theory shows that packing succeeds exactly for the group ids that fit in 32
  bits and is reversible and injective on them.
\<close>

type_synonym byte = "8 word"
type_synonym bytes = "byte list"
type_synonym block_key = bytes

section \<open>Four-byte big-endian integers\<close>

text \<open>\<^verbatim>\<open>int.to_bytes(4, "big", signed=False)\<close> and \<^verbatim>\<open>int.from_bytes(_, "big")\<close>.\<close>

definition to_bytes4 :: "int \<Rightarrow> bytes res" where
  "to_bytes4 n =
     (if 0 \<le> n \<and> n < 2 ^ 32
      then Inr [word_of_int (n div 2 ^ 24), word_of_int (n div 2 ^ 16),
                word_of_int (n div 2 ^ 8), word_of_int n]
      else Inl OverflowError)"

definition from_bytes :: "bytes \<Rightarrow> int" where
  "from_bytes bs = foldl (\<lambda>acc b. acc * 256 + uint b) 0 bs"

lemma uint_byte_of_int: "uint (word_of_int n :: byte) = n mod 256"
  by (simp add: uint_word_of_int)

lemma to_bytes4_length [dest]: "to_bytes4 n = Inr bs \<Longrightarrow> length bs = 4"
  by (auto simp: to_bytes4_def split: if_splits)

lemma to_bytes4_eq_Inr_iff: "(\<exists>bs. to_bytes4 n = Inr bs) \<longleftrightarrow> 0 \<le> n \<and> n < 2 ^ 32"
  by (auto simp: to_bytes4_def)

lemma base256_digits:
  assumes "0 \<le> n" "n < (4294967296 :: int)"
  shows "((n div 16777216 mod 256 * 256 + n div 65536 mod 256) * 256 + n div 256 mod 256) * 256
           + n mod 256 = n"
proof -
  have d: "n div 65536 = n div 256 div 256" "n div 16777216 = n div 256 div 256 div 256"
    by (simp_all flip: zdiv_zmult2_eq)
  have "n div 256 div 256 div 256 mod 256 = n div 256 div 256 div 256"
    using assms by (intro mod_pos_pos_trivial) (simp_all flip: zdiv_zmult2_eq)
  then show ?thesis unfolding d by (simp add: div_mult_mod_eq)
qed

lemma from_to_bytes4: "to_bytes4 n = Inr bs \<Longrightarrow> from_bytes bs = n"
proof -
  assume "to_bytes4 n = Inr bs"
  then have n: "0 \<le> n" "n < 4294967296"
    and bs: "bs = [word_of_int (n div 16777216), word_of_int (n div 65536),
                   word_of_int (n div 256), word_of_int n]"
    by (simp_all add: to_bytes4_def split: if_splits)
  show ?thesis
    unfolding bs from_bytes_def foldl.simps uint_byte_of_int
    using base256_digits [OF n] by (simp only: mult_zero_left add_0)
qed

section \<open>Cache keys\<close>

definition make_block_hash_with_group_id :: "bytes \<Rightarrow> int \<Rightarrow> block_key res" where
  "make_block_hash_with_group_id block_hash group_id =
     rbind (to_bytes4 group_id) (\<lambda>g. Inr (block_hash @ g))"

definition get_block_hash :: "block_key \<Rightarrow> bytes" where
  "get_block_hash key = py_upto key (-4)"

definition get_group_id :: "block_key \<Rightarrow> int" where
  "get_group_id key = from_bytes (py_from key (-4))"

lemma py_upto_minus4: "length g = 4 \<Longrightarrow> py_upto (h @ g) (-4) = h"
  by (simp add: py_upto_def py_clamp_def py_len_def)

lemma py_from_minus4: "length g = 4 \<Longrightarrow> py_from (h @ g) (-4) = g"
  by (simp add: py_from_def py_clamp_def py_len_def)

lemma block_key_parts:
  assumes "make_block_hash_with_group_id h g = Inr k"
  shows "get_block_hash k = h" and "get_group_id k = g"
  using assms
  by (auto simp: make_block_hash_with_group_id_def get_block_hash_def get_group_id_def rbind_eq_Inr
        py_upto_minus4 py_from_minus4 [OF to_bytes4_length] from_to_bytes4 dest: to_bytes4_length)

lemma block_key_inj:
  "make_block_hash_with_group_id h g = Inr k \<Longrightarrow> make_block_hash_with_group_id h' g' = Inr k \<Longrightarrow>
   h = h' \<and> g = g'"
  using block_key_parts by metis

lemma block_key_defined:
  "(\<exists>k. make_block_hash_with_group_id h g = Inr k) \<longleftrightarrow> 0 \<le> g \<and> g < 2 ^ 32"
  using to_bytes4_eq_Inr_iff [of g]
  by (auto simp: make_block_hash_with_group_id_def rbind_eq_Inr)

text \<open>
  C28.  Packing a block hash with a KV-cache group id succeeds exactly for group ids of 32 bits
  (any other raises \<^verbatim>\<open>OverflowError\<close>), and unpacking the key gives both components back; hence
  two (hash, group) pairs with the same key are equal, so groups never share cache entries.
\<close>

theorem block_key_roundtrip:
  "(if 0 \<le> g \<and> g < 2 ^ 32
    then \<exists>k. make_block_hash_with_group_id h g = Inr k \<and> get_block_hash k = h \<and> get_group_id k = g
    else make_block_hash_with_group_id h g = Inl OverflowError)"
proof (cases "0 \<le> g \<and> g < 2 ^ 32")
  case True
  then obtain k where "make_block_hash_with_group_id h g = Inr k"
    using block_key_defined by blast
  with True show ?thesis using block_key_parts by auto
next
  case False
  then have "to_bytes4 g = Inl OverflowError"
    unfolding to_bytes4_def by (rule if_not_P)
  then show ?thesis
    unfolding if_not_P [OF False] by (simp add: make_block_hash_with_group_id_def)
qed

section \<open>Hashes in events\<close>

text \<open>
  \<^verbatim>\<open>maybe_convert_block_hash\<close>: the environment switch
  \<^verbatim>\<open>VLLM_KV_EVENTS_USE_INT_BLOCK_HASHES\<close> is the argument \<open>use_int\<close>.
\<close>

datatype external_hash = HashBytes bytes | HashInt int

definition maybe_convert_block_hash :: "bool \<Rightarrow> bytes \<Rightarrow> external_hash" where
  "maybe_convert_block_hash use_int hash_bytes =
     (if \<not> use_int then HashBytes hash_bytes
      else HashInt (and (from_bytes hash_bytes) (push_bit 64 1 - 1)))"

lemma maybe_convert_block_hash_int:
  "maybe_convert_block_hash True h = HashInt (from_bytes h mod 2 ^ 64)"
proof -
  have "and (from_bytes h) (mask 64) = take_bit 64 (from_bytes h)"
    by (simp only: take_bit_eq_mask)
  then show ?thesis
    by (simp add: maybe_convert_block_hash_def take_bit_eq_mod mask_eq_exp_minus_1)
qed

end
