(* ===== verification/Free_Block_Queue.thy ===== *)
theory Free_Block_Queue
  imports Block_Hash
begin

text \<open>
  \<^verbatim>\<open>KVCacheBlock\<close> and \<^verbatim>\<open>FreeKVCacheBlockQueue\<close> of \<^verbatim>\<open>vllm/v1/core/kv_cache_utils.py\<close>.
  The queue is an intrusive doubly linked list: its state is the link fields of the block objects
  and of two fake end nodes.  Objects are references \<open>blk\<close> into a heap, a block's \<^verbatim>\<open>block_id\<close>
  being its index (it is assigned once, in the constructor).  \<open>queue_rel\<close> relates a heap to the
  list of free blocks it represents; every operation, with the order of its pointer assignments,
  is shown to implement the corresponding list operation, and the laws are collected in the
  locale \<open>free_queue_ops\<close>, which the pool uses.
\<close>

section \<open>Blocks\<close>

datatype blk = Blk nat | FakeHead | FakeTail

fun block_id :: "blk \<Rightarrow> int" where
  "block_id (Blk i) = int i"
| "block_id FakeHead = -1"
| "block_id FakeTail = -1"

record kv_block =
  ref_cnt :: int
  hash_of :: "block_key option"
  prev_free_block :: "blk option"
  next_free_block :: "blk option"
  is_null :: bool

type_synonym heap = "blk \<Rightarrow> kv_block"

definition new_block :: kv_block where
  "new_block = \<lparr>ref_cnt = 0, hash_of = None, prev_free_block = None, next_free_block = None,
     is_null = False\<rparr>"

definition set_block_hash :: "heap \<Rightarrow> blk \<Rightarrow> block_key \<Rightarrow> heap res" where
  "set_block_hash h b k =
     (case hash_of (h b) of
        None \<Rightarrow> Inr (h(b := (h b)\<lparr>hash_of := Some k\<rparr>))
      | Some _ \<Rightarrow> Inl AssertionError)"

definition reset_hash :: "heap \<Rightarrow> blk \<Rightarrow> heap" where
  "reset_hash h b = h(b := (h b)\<lparr>hash_of := None\<rparr>)"

definition set_prev :: "blk \<Rightarrow> blk option \<Rightarrow> heap \<Rightarrow> heap" where
  "set_prev b x h = h(b := (h b)\<lparr>prev_free_block := x\<rparr>)"

definition set_next :: "blk \<Rightarrow> blk option \<Rightarrow> heap \<Rightarrow> heap" where
  "set_next b x h = h(b := (h b)\<lparr>next_free_block := x\<rparr>)"

definition clear_links :: "blk \<Rightarrow> heap \<Rightarrow> heap" where
  "clear_links b h = set_next b None (set_prev b None h)"

section \<open>The queue's operations\<close>

record free_queue =
  heap :: heap
  num_free_blocks :: int

abbreviation next_of :: "'a free_queue_scheme \<Rightarrow> blk \<Rightarrow> blk option" where
  "next_of q b \<equiv> next_free_block (heap q b)"

abbreviation prev_of :: "'a free_queue_scheme \<Rightarrow> blk \<Rightarrow> blk option" where
  "prev_of q b \<equiv> prev_free_block (heap q b)"

text \<open>\<^verbatim>\<open>__init__\<close>: link consecutive blocks, then connect the fake ends.\<close>

definition link_step :: "blk list \<Rightarrow> nat \<Rightarrow> heap \<Rightarrow> heap" where
  "link_step bs i h =
     (let h1 = (if 0 < i then set_prev (bs ! i) (Some (bs ! (i - 1))) h else h)
      in if i < length bs - 1 then set_next (bs ! i) (Some (bs ! (i + 1))) h1 else h1)"

definition queue_init :: "blk list \<Rightarrow> 'a free_queue_scheme \<Rightarrow> 'a free_queue_scheme" where
  "queue_init bs q =
     (let h0 = fold (link_step bs) [0..<length bs] (heap q);
          h1 = h0(FakeHead := new_block, FakeTail := new_block);
          h2 = (if 0 < length bs
                then set_next (last bs) (Some FakeTail)
                       (set_prev FakeTail (Some (last bs))
                         (set_prev (hd bs) (Some FakeHead)
                           (set_next FakeHead (Some (hd bs)) h1)))
                else set_prev FakeTail (Some FakeHead) (set_next FakeHead (Some FakeTail) h1))
      in q\<lparr>heap := h2, num_free_blocks := py_len bs\<rparr>)"

definition popleft :: "'a free_queue_scheme \<Rightarrow> (blk \<times> 'a free_queue_scheme) res" where
  "popleft q =
     (case next_of q FakeHead of
        None \<Rightarrow> rbind (py_assert (num_free_blocks q = 0)) (\<lambda>_. Inl ValueError)
      | Some first \<Rightarrow>
          if first = FakeTail
          then rbind (py_assert (num_free_blocks q = 0)) (\<lambda>_. Inl ValueError)
          else
            (case next_of q first of
               None \<Rightarrow> Inl RuntimeError
             | Some nxt \<Rightarrow>
                 Inr (first,
                   q\<lparr>heap := clear_links first
                               (set_prev nxt (Some FakeHead)
                                 (set_next FakeHead (Some nxt) (heap q))),
                     num_free_blocks := num_free_blocks q - 1\<rparr>)))"

text \<open>
  \<^verbatim>\<open>popleft_n\<close>: the loop walks \<open>n\<close> blocks from the head, clearing the links of each;
  \<open>cur\<close> may become \<^verbatim>\<open>None\<close>, which the next iteration asserts against.
\<close>

fun pop_walk :: "nat \<Rightarrow> blk option \<Rightarrow> heap \<Rightarrow> (blk list \<times> blk option \<times> heap) res" where
  "pop_walk 0 cur h = Inr ([], cur, h)"
| "pop_walk (Suc n) cur h =
     (case cur of
        None \<Rightarrow> Inl AssertionError
      | Some b \<Rightarrow>
          rbind (pop_walk n (next_free_block (h b)) (clear_links b h))
            (\<lambda>(ret, cur2, h'). Inr (b # ret, cur2, h')))"

definition popleft_n :: "int \<Rightarrow> 'a free_queue_scheme \<Rightarrow> (blk list \<times> 'a free_queue_scheme) res" where
  "popleft_n n q =
     (if n = 0 then Inr ([], q)
      else rbind (py_assert (n \<le> num_free_blocks q)) (\<lambda>_.
           rbind (pop_walk (nat n) (next_of q FakeHead) (heap q)) (\<lambda>(ret, cur, h).
             let h' = (case cur of
                         None \<Rightarrow> h
                       | Some c \<Rightarrow> set_prev c (Some FakeHead) (set_next FakeHead (Some c) h))
             in Inr (ret, q\<lparr>heap := h', num_free_blocks := num_free_blocks q - n\<rparr>))))"

definition queue_remove :: "blk \<Rightarrow> 'a free_queue_scheme \<Rightarrow> 'a free_queue_scheme res" where
  "queue_remove b q =
     (case (prev_of q b, next_of q b) of
        (Some p, Some n) \<Rightarrow>
          let h1 = set_next p (Some n) (heap q);
              h2 = set_prev n (Some p) h1
          in Inr (q\<lparr>heap := clear_links b h2, num_free_blocks := num_free_blocks q - 1\<rparr>)
      | _ \<Rightarrow> Inl RuntimeError)"

definition queue_append :: "blk \<Rightarrow> 'a free_queue_scheme \<Rightarrow> 'a free_queue_scheme res" where
  "queue_append b q =
     (case prev_of q FakeTail of
        None \<Rightarrow> Inl RuntimeError
      | Some l \<Rightarrow>
          let h1 = set_next l (Some b) (heap q);
              h2 = set_prev b (Some l) h1;
              h3 = set_next b (Some FakeTail) h2;
              h4 = set_prev FakeTail (Some b) h3
          in Inr (q\<lparr>heap := h4, num_free_blocks := num_free_blocks q + 1\<rparr>))"

fun append_walk :: "blk list \<Rightarrow> blk \<Rightarrow> heap \<Rightarrow> blk \<times> heap" where
  "append_walk [] l h = (l, h)"
| "append_walk (b # bs) l h = append_walk bs b (set_next l (Some b) (set_prev b (Some l) h))"

definition append_n :: "blk list \<Rightarrow> 'a free_queue_scheme \<Rightarrow> 'a free_queue_scheme res" where
  "append_n bs q =
     (if bs = [] then Inr q
      else
        (case prev_of q FakeTail of
           None \<Rightarrow> Inl AssertionError
         | Some l0 \<Rightarrow>
             let (l, h) = append_walk bs l0 (heap q);
                 h' = set_prev FakeTail (Some l) (set_next l (Some FakeTail) h)
             in Inr (q\<lparr>heap := h', num_free_blocks := num_free_blocks q + py_len bs\<rparr>)))"

text \<open>\<^verbatim>\<open>get_all_free_blocks\<close>: the \<^verbatim>\<open>while\<close> loop may not end on a cyclic heap (\<open>None\<close>).\<close>

partial_function (option) free_walk :: "heap \<Rightarrow> blk \<Rightarrow> blk list \<Rightarrow> blk list option" where
  "free_walk h c acc =
     (case next_free_block (h c) of
        None \<Rightarrow> Some acc
      | Some n \<Rightarrow> free_walk h n (acc @ [c]))"

definition get_all_free_blocks :: "'a free_queue_scheme \<Rightarrow> blk list res option" where
  "get_all_free_blocks q =
     (case next_of q FakeHead of
        None \<Rightarrow> Some (Inl RuntimeError)
      | Some c \<Rightarrow> map_option Inr (free_walk (heap q) c []))"

section \<open>Linked segments\<close>

fun linked :: "heap \<Rightarrow> blk list \<Rightarrow> bool" where
  "linked h (a # b # r) \<longleftrightarrow>
     next_free_block (h a) = Some b \<and> prev_free_block (h b) = Some a \<and> linked h (b # r)"
| "linked h _ \<longleftrightarrow> True"

lemmas heap_upd_defs = set_prev_def set_next_def clear_links_def

lemma linked_Cons:
  "linked h (a # xs) \<longleftrightarrow>
     (xs \<noteq> [] \<longrightarrow> next_free_block (h a) = Some (hd xs) \<and> prev_free_block (h (hd xs)) = Some a)
     \<and> linked h xs"
  by (cases xs) auto

lemma linked_append:
  "linked h (xs @ y # ys) \<longleftrightarrow> linked h (xs @ [y]) \<and> linked h (y # ys)"
proof (induction xs)
  case Nil
  then show ?case by simp
next
  case (Cons x xs)
  then show ?case by (cases xs) auto
qed

lemma linked_snoc:
  "linked h (xs @ [y]) \<longleftrightarrow>
     (xs \<noteq> [] \<longrightarrow> next_free_block (h (last xs)) = Some y \<and> prev_free_block (h y) = Some (last xs))
     \<and> linked h xs"
proof (induction xs)
  case Nil
  then show ?case by simp
next
  case (Cons x xs)
  then show ?case by (cases xs) auto
qed

lemma in_set_tl: "x \<in> set (tl xs) \<Longrightarrow> x \<in> set xs"
  by (cases xs) auto

lemma linked_cong:
  assumes "\<And>a. a \<in> set (butlast xs) \<Longrightarrow> next_free_block (h' a) = next_free_block (h a)"
    and "\<And>a. a \<in> set (tl xs) \<Longrightarrow> prev_free_block (h' a) = prev_free_block (h a)"
  shows "linked h' xs \<longleftrightarrow> linked h xs"
  using assms
proof (induction xs)
  case Nil
  then show ?case by simp
next
  case (Cons a xs)
  show ?case
  proof (cases xs)
    case Nil
    then show ?thesis by simp
  next
    case (Cons b ys)
    have "linked h' xs \<longleftrightarrow> linked h xs"
      using Cons.prems Cons by (intro Cons.IH) auto
    with Cons.prems Cons show ?thesis by auto
  qed
qed

text \<open>The two orders of linking a pair of neighbours are the same heap.\<close>

lemma linked_join:
  "linked h (xs @ [a]) \<Longrightarrow> linked h (b # ys) \<Longrightarrow> next_free_block (h a) = Some b \<Longrightarrow>
   prev_free_block (h b) = Some a \<Longrightarrow> linked h (xs @ a # b # ys)"
  by (subst linked_append) simp

lemma linked_iff_nth:
  "linked h xs \<longleftrightarrow>
     (\<forall>i. Suc i < length xs \<longrightarrow>
        next_free_block (h (xs ! i)) = Some (xs ! Suc i) \<and>
        prev_free_block (h (xs ! Suc i)) = Some (xs ! i))"
proof (induction xs)
  case Nil
  then show ?case by simp
next
  case (Cons x xs)
  then show ?case
    by (cases xs) (auto simp: nth_Cons less_Suc_eq_0_disj split: nat.splits)
qed

section \<open>The represented list\<close>

definition queue_rel :: "'a free_queue_scheme \<Rightarrow> blk list \<Rightarrow> bool" where
  "queue_rel q xs \<longleftrightarrow>
     linked (heap q) (FakeHead # xs @ [FakeTail]) \<and> distinct xs \<and>
     FakeHead \<notin> set xs \<and> FakeTail \<notin> set xs \<and>
     prev_of q FakeHead = None \<and> next_of q FakeTail = None \<and>
     num_free_blocks q = py_len xs \<and>
     (\<forall>b. b \<notin> set xs \<longrightarrow> b \<noteq> FakeHead \<longrightarrow> b \<noteq> FakeTail \<longrightarrow> prev_of q b = None \<and> next_of q b = None)"

text \<open>Queue operations touch link fields only.\<close>

definition same_meta :: "heap \<Rightarrow> heap \<Rightarrow> bool" where
  "same_meta h h' \<longleftrightarrow>
     (\<forall>b. ref_cnt (h' b) = ref_cnt (h b) \<and> hash_of (h' b) = hash_of (h b) \<and>
          is_null (h' b) = is_null (h b))"

lemma same_meta_refl [simp]: "same_meta h h"
  by (simp add: same_meta_def)

lemma same_meta_trans: "same_meta h h' \<Longrightarrow> same_meta h' h'' \<Longrightarrow> same_meta h h''"
  by (simp add: same_meta_def)

lemma same_meta_links [simp]:
  "same_meta h (set_prev b x h') \<longleftrightarrow> same_meta h h'"
  "same_meta h (set_next b x h') \<longleftrightarrow> same_meta h h'"
  "same_meta h (clear_links b h') \<longleftrightarrow> same_meta h h'"
  by (auto simp: same_meta_def heap_upd_defs)

lemma same_metaD:
  "same_meta h h' \<Longrightarrow> ref_cnt (h' b) = ref_cnt (h b)"
  "same_meta h h' \<Longrightarrow> hash_of (h' b) = hash_of (h b)"
  "same_meta h h' \<Longrightarrow> is_null (h' b) = is_null (h b)"
  by (auto simp: same_meta_def)

lemma queue_rel_head:
  "queue_rel q xs \<Longrightarrow> next_of q FakeHead = Some (hd (xs @ [FakeTail]))"
  by (cases xs) (auto simp: queue_rel_def)

lemma queue_rel_last:
  "queue_rel q xs \<Longrightarrow> prev_of q FakeTail = Some (last (FakeHead # xs))"
  using linked_snoc [of "heap q" "FakeHead # xs" FakeTail] by (auto simp: queue_rel_def)

lemma queue_rel_distinct: "queue_rel q xs \<Longrightarrow> distinct (FakeHead # xs @ [FakeTail])"
  by (auto simp: queue_rel_def)

lemma queue_rel_linked: "queue_rel q xs \<Longrightarrow> linked (heap q) (FakeHead # xs @ [FakeTail])"
  by (simp add: queue_rel_def)

subsection \<open>popleft\<close>

lemma popleft_Nil: "queue_rel q [] \<Longrightarrow> popleft q = Inl ValueError"
  using queue_rel_head [of q "[]"] by (simp add: popleft_def queue_rel_def)

lemma popleft_Cons:
  assumes "queue_rel q (b # xs)"
  shows "\<exists>q'. popleft q = Inr (b, q') \<and> queue_rel q' xs \<and> same_meta (heap q) (heap q')
           \<and> q' = q\<lparr>heap := heap q', num_free_blocks := num_free_blocks q'\<rparr>"
proof -
  obtain n rest where nr: "xs @ [FakeTail] = n # rest" by (cases xs) auto
  from assms have L: "linked (heap q) (FakeHead # b # n # rest)"
    by (simp add: queue_rel_def nr)
  have d: "distinct (FakeHead # b # n # rest)"
    using queue_rel_distinct [OF assms] by (simp flip: nr)
  have bF: "b \<noteq> FakeTail" using assms by (auto simp: queue_rel_def)
  let ?h = "clear_links b (set_prev n (Some FakeHead) (set_next FakeHead (Some n) (heap q)))"
  let ?q = "q\<lparr>heap := ?h, num_free_blocks := num_free_blocks q - 1\<rparr>"
  have p: "popleft q = Inr (b, ?q)"
    using L bF by (simp add: popleft_def)
  have "linked ?h (n # rest) \<longleftrightarrow> linked (heap q) (n # rest)"
    using d by (intro linked_cong) (auto simp: heap_upd_defs dest: in_set_butlastD split: if_splits)
  with L d have "linked ?h (FakeHead # n # rest)"
    by (auto simp: heap_upd_defs)
  then have "queue_rel ?q xs"
    using assms d by (auto simp: queue_rel_def nr heap_upd_defs)
  with p show ?thesis by (intro exI [of _ ?q]) simp
qed

subsection \<open>remove\<close>

lemma queue_remove_not_free:
  assumes "queue_rel q xs" "b \<notin> set xs" "b \<noteq> FakeHead" "b \<noteq> FakeTail"
  shows "queue_remove b q = Inl RuntimeError"
  using assms by (simp add: queue_remove_def queue_rel_def)

lemma queue_remove_free:
  assumes "queue_rel q (us @ b # vs)"
  shows "\<exists>q'. queue_remove b q = Inr q' \<and> queue_rel q' (us @ vs) \<and> same_meta (heap q) (heap q')
           \<and> q' = q\<lparr>heap := heap q', num_free_blocks := num_free_blocks q'\<rparr>"
proof -
  obtain us' l where l: "FakeHead # us = us' @ [l]" by (cases "FakeHead # us" rule: rev_cases) auto
  obtain r vs' where r: "vs @ [FakeTail] = r # vs'" by (cases vs) auto
  have "FakeHead # (us @ b # vs) @ [FakeTail] = (FakeHead # us) @ b # (vs @ [FakeTail])" by simp
  also have "\<dots> = us' @ l # b # r # vs'" unfolding l r by simp
  finally have L: "linked (heap q) (us' @ l # b # r # vs')"
    and d: "distinct (us' @ l # b # r # vs')"
    using queue_rel_linked [OF assms] queue_rel_distinct [OF assms] by simp_all
  from L have L1: "linked (heap q) (us' @ [l])" and L2: "linked (heap q) (l # b # r # vs')"
    by (subst (asm) linked_append, blast)+
  let ?h = "clear_links b (set_prev r (Some l) (set_next l (Some r) (heap q)))"
  let ?q = "q\<lparr>heap := ?h, num_free_blocks := num_free_blocks q - 1\<rparr>"
  have p: "queue_remove b q = Inr ?q"
    using L2 by (simp add: queue_remove_def Let_def)
  have "linked ?h (us' @ [l]) \<longleftrightarrow> linked (heap q) (us' @ [l])"
    using d by (intro linked_cong) (auto simp: heap_upd_defs dest!: in_set_tl)
  moreover have "linked ?h (r # vs') \<longleftrightarrow> linked (heap q) (r # vs')"
    using d by (intro linked_cong) (auto simp: heap_upd_defs dest: in_set_butlastD split: if_splits)
  ultimately have "linked ?h (us' @ l # r # vs')"
    using L1 L2 d by (intro linked_join) (auto simp: heap_upd_defs)
  moreover have "FakeHead # (us @ vs) @ [FakeTail] = us' @ l # r # vs'"
  proof -
    have "FakeHead # (us @ vs) @ [FakeTail] = (FakeHead # us) @ (vs @ [FakeTail])" by simp
    then show ?thesis unfolding l r by simp
  qed
  moreover have "r = FakeTail \<or> r \<in> set vs" "l = FakeHead \<or> l \<in> set us"
    using arg_cong [OF l, of set] arg_cong [OF r, of set] by auto
  moreover have "b \<notin> set us" "b \<notin> set vs" "b \<noteq> FakeHead" "b \<noteq> FakeTail"
    using assms by (auto simp: queue_rel_def)
  ultimately have "queue_rel ?q (us @ vs)"
    using assms by (auto simp: queue_rel_def heap_upd_defs)
  with p show ?thesis by (intro exI [of _ ?q]) simp
qed


subsection \<open>append and append_n\<close>

lemma append_walk_linked:
  assumes "linked h (us @ [l])" and "distinct (us @ l # bs)"
    and "append_walk bs l h = (l', h')"
  shows "linked h' (us @ l # bs) \<and> l' = last (l # bs) \<and> same_meta h h'
    \<and> (\<forall>a. a \<notin> set (l # bs) \<longrightarrow> next_free_block (h' a) = next_free_block (h a))
    \<and> (\<forall>a. a \<notin> set bs \<longrightarrow> prev_free_block (h' a) = prev_free_block (h a))"
  using assms
proof (induction bs arbitrary: us l h)
  case Nil
  then show ?case by simp
next
  case (Cons b bs)
  let ?h = "set_next l (Some b) (set_prev b (Some l) h)"
  have "linked ?h (us @ [l]) \<longleftrightarrow> linked h (us @ [l])"
    using Cons.prems(2) by (intro linked_cong) (auto simp: heap_upd_defs dest!: in_set_tl)
  then have "linked ?h (us @ l # b # [])"
    using Cons.prems(1,2) by (intro linked_join) (auto simp: heap_upd_defs)
  then have L: "linked ?h ((us @ [l]) @ [b])" by simp
  have "linked h' ((us @ [l]) @ b # bs) \<and> l' = last (b # bs) \<and> same_meta ?h h'
    \<and> (\<forall>a. a \<notin> set (b # bs) \<longrightarrow> next_free_block (h' a) = next_free_block (?h a))
    \<and> (\<forall>a. a \<notin> set bs \<longrightarrow> prev_free_block (h' a) = prev_free_block (?h a))"
    using Cons.prems(2,3) by (intro Cons.IH [OF L]) auto
  then show ?case by (auto simp: heap_upd_defs same_meta_def)
qed

lemma append_n_free:
  assumes q: "queue_rel q xs" and d: "distinct bs" "set bs \<inter> set xs = {}"
    and F: "FakeHead \<notin> set bs" "FakeTail \<notin> set bs"
  shows "\<exists>q'. append_n bs q = Inr q' \<and> queue_rel q' (xs @ bs) \<and> same_meta (heap q) (heap q')
           \<and> q' = q\<lparr>heap := heap q', num_free_blocks := num_free_blocks q'\<rparr>"
proof (cases "bs = []")
  case True
  with q show ?thesis by (simp add: append_n_def)
next
  case False
  obtain us l where l: "FakeHead # xs = us @ [l]" by (cases "FakeHead # xs" rule: rev_cases) auto
  have dl: "distinct (us @ l # bs)"
  proof -
    have "distinct ((FakeHead # xs) @ bs)" using queue_rel_distinct [OF q] d F by auto
    then show ?thesis unfolding l by simp
  qed
  have "linked (heap q) ((FakeHead # xs) @ [FakeTail])" using queue_rel_linked [OF q] by simp
  then have L: "linked (heap q) (us @ [l])" unfolding linked_snoc l by simp
  have pt: "prev_of q FakeTail = Some l"
    using queue_rel_last [OF q] by (simp only: l last_snoc)
  obtain l' h where w: "append_walk bs l (heap q) = (l', h)" by force
  note W = append_walk_linked [OF L dl w]
  let ?h = "set_prev FakeTail (Some l') (set_next l' (Some FakeTail) h)"
  let ?q = "q\<lparr>heap := ?h, num_free_blocks := num_free_blocks q + py_len bs\<rparr>"
  have p: "append_n bs q = Inr ?q"
    using False pt w by (simp add: append_n_def)
  have e: "(us @ l # bs) = FakeHead # xs @ bs" using l by (metis append_Cons append.assoc append_Nil)
  have l': "l' = last (FakeHead # xs @ bs)" "l' \<in> set bs" using W False by (auto simp: e)
  have dF: "distinct (FakeHead # xs @ bs)" "FakeTail \<notin> set (FakeHead # xs @ bs)"
    using dl queue_rel_distinct [OF q] F unfolding e by auto
  have "linked ?h (FakeHead # xs @ bs) \<longleftrightarrow> linked h (FakeHead # xs @ bs)"
  proof (rule linked_cong)
    fix a assume "a \<in> set (butlast (FakeHead # xs @ bs))"
    then have "a \<noteq> l'" unfolding l'(1)
      using dF(1) by (metis append_butlast_last_id distinct.simps(2) distinct_append
          list.distinct(1) not_distinct_conv_prefix)
    then show "next_free_block (?h a) = next_free_block (h a)"
      using l'(2) F(2) by (auto simp: heap_upd_defs)
  next
    fix a assume "a \<in> set (tl (FakeHead # xs @ bs))"
    then have "a \<noteq> FakeTail" using dF(2) by auto
    then show "prev_free_block (?h a) = prev_free_block (h a)" by (simp add: heap_upd_defs)
  qed
  then have "linked ?h (FakeHead # xs @ bs)" using W by (simp add: e)
  then have "linked ?h ((FakeHead # xs @ bs) @ [FakeTail])"
    unfolding linked_snoc using l' dF(2) by (auto simp: heap_upd_defs)
  moreover have "l \<in> insert FakeHead (set xs)" using arg_cong [OF l, of set] by auto
  ultimately have "queue_rel ?q (xs @ bs)"
    using q d F W l'(2) dF by (auto simp: queue_rel_def heap_upd_defs)
  moreover have "same_meta (heap q) ?h" using W by simp
  ultimately show ?thesis using p by (intro exI [of _ ?q]) simp
qed

lemma queue_append_eq_append_n:
  "prev_of q FakeTail = Some l \<Longrightarrow> queue_append b q = append_n [b] q"
  by (auto simp: queue_append_def append_n_def heap_upd_defs Let_def fun_eq_iff)

lemma queue_append_free:
  assumes q: "queue_rel q xs" and b: "b \<notin> set xs" "b \<noteq> FakeHead" "b \<noteq> FakeTail"
  shows "\<exists>q'. queue_append b q = Inr q' \<and> queue_rel q' (xs @ [b]) \<and> same_meta (heap q) (heap q')
           \<and> q' = q\<lparr>heap := heap q', num_free_blocks := num_free_blocks q'\<rparr>"
  using append_n_free [OF q, of "[b]"] b queue_append_eq_append_n [OF queue_rel_last [OF q]]
  by auto

subsection \<open>popleft_n\<close>

lemma fold_clear_links:
  "fold clear_links bs h a =
     (if a \<in> set bs then (h a)\<lparr>prev_free_block := None, next_free_block := None\<rparr> else h a)"
  by (induction bs arbitrary: h) (auto simp: heap_upd_defs)

lemma same_meta_fold_clear: "same_meta h (fold clear_links bs h)"
  by (auto simp: same_meta_def fold_clear_links)

lemma pop_walk_linked:
  "linked h (xs @ [e]) \<Longrightarrow> distinct (xs @ [e]) \<Longrightarrow> n \<le> length xs \<Longrightarrow>
   pop_walk n (Some (hd (xs @ [e]))) h =
     Inr (take n xs, Some (hd (drop n xs @ [e])), fold clear_links (take n xs) h)"
proof (induction n arbitrary: xs h)
  case 0
  then show ?case by simp
next
  case (Suc n)
  then obtain b ys where xs: "xs = b # ys" by (cases xs) auto
  have nb: "next_free_block (h b) = Some (hd (ys @ [e]))"
    using Suc.prems(1) by (simp add: xs linked_Cons)
  have "linked (clear_links b h) (ys @ [e]) \<longleftrightarrow> linked h (ys @ [e])"
    using Suc.prems(2) by (intro linked_cong) (auto simp: xs heap_upd_defs dest!: in_set_tl)
  then have "linked (clear_links b h) (ys @ [e])"
    using Suc.prems(1) by (simp add: xs linked_Cons)
  with Suc.prems(2,3) have
    "pop_walk n (Some (hd (ys @ [e]))) (clear_links b h) =
       Inr (take n ys, Some (hd (drop n ys @ [e])), fold clear_links (take n ys) (clear_links b h))"
    by (intro Suc.IH) (auto simp: xs)
  with nb show ?case by (simp add: xs)
qed

lemma popleft_n_free:
  assumes q: "queue_rel q xs" and n: "0 \<le> n" "n \<le> py_len xs"
  shows "\<exists>q'. popleft_n n q = Inr (take (nat n) xs, q') \<and> queue_rel q' (drop (nat n) xs)
           \<and> same_meta (heap q) (heap q')
           \<and> q' = q\<lparr>heap := heap q', num_free_blocks := num_free_blocks q'\<rparr>"
proof (cases "n = 0")
  case True
  with q show ?thesis by (simp add: popleft_n_def)
next
  case False
  let ?t = "take (nat n) xs" and ?d = "drop (nat n) xs"
  have L: "linked (heap q) (xs @ [FakeTail])" and D: "distinct (xs @ [FakeTail])"
    using queue_rel_linked [OF q] queue_rel_distinct [OF q] by (auto simp: linked_Cons)
  have W: "pop_walk (nat n) (next_of q FakeHead) (heap q) =
      Inr (?t, Some (hd (?d @ [FakeTail])), fold clear_links ?t (heap q))"
    unfolding queue_rel_head [OF q] using pop_walk_linked [OF L D, of "nat n"] n
    by (simp add: py_len_def nat_le_iff)
  obtain c rest where c: "?d @ [FakeTail] = c # rest" by (cases ?d) auto
  let ?h = "set_prev c (Some FakeHead) (set_next FakeHead (Some c) (fold clear_links ?t (heap q)))"
  let ?q = "q\<lparr>heap := ?h, num_free_blocks := num_free_blocks q - n\<rparr>"
  have p: "popleft_n n q = Inr (?t, ?q)"
    using False n q W c by (simp add: popleft_n_def queue_rel_def)
  have xs: "xs = ?t @ ?d" by simp
  have dF: "distinct (FakeHead # ?t @ c # rest)"
    using queue_rel_distinct [OF q] c by (metis append.assoc append_take_drop_id)
  have "linked (heap q) (?t @ c # rest)"
    using L c by (metis append.assoc append_take_drop_id)
  then have "linked (heap q) (c # rest)" by (subst (asm) linked_append) simp
  moreover have "linked ?h (c # rest) \<longleftrightarrow> linked (heap q) (c # rest)"
    using dF by (intro linked_cong)
      (auto simp: heap_upd_defs fold_clear_links dest: in_set_butlastD split: if_splits)
  ultimately have "linked ?h (FakeHead # c # rest)"
    using dF by (auto simp: heap_upd_defs)
  then have L': "linked ?h (FakeHead # ?d @ [FakeTail])" by (simp only: c)
  have ft: "FakeTail \<notin> set ?t" and cF: "c \<noteq> FakeHead"
    using queue_rel_distinct [OF q] dF by (auto dest: in_set_takeD)
  have out: "prev_free_block (?h b) = None \<and> next_free_block (?h b) = None"
    if "b \<notin> set ?d" "b \<noteq> FakeHead" "b \<noteq> FakeTail" for b
  proof -
    have "b \<noteq> c" using that c by (metis hd_append2 hd_in_set list.sel(1) list.set_intros(1)
          Un_iff empty_iff empty_set set_append set_ConsD)
    moreover have "b \<in> set ?t \<or> b \<notin> set xs" using that(1) by (metis Un_iff append_take_drop_id set_append)
    ultimately show ?thesis
      using q that by (auto simp: queue_rel_def heap_upd_defs fold_clear_links)
  qed
  have "queue_rel ?q ?d"
    unfolding queue_rel_def
    using q L' out ft n cF
    by (auto simp: queue_rel_def heap_upd_defs fold_clear_links py_len_def distinct_drop
        dest: in_set_dropD)
  moreover have "same_meta (heap q) ?h" using same_meta_fold_clear by simp
  ultimately show ?thesis using p by (intro exI [of _ ?q]) simp
qed

subsection \<open>get_all_free_blocks\<close>

lemma free_walk_linked:
  "linked h (xs @ [e]) \<Longrightarrow> next_free_block (h e) = None \<Longrightarrow>
   free_walk h (hd (xs @ [e])) acc = Some (acc @ xs)"
proof (induction xs arbitrary: acc)
  case Nil
  then show ?case by (subst free_walk.simps) simp
next
  case (Cons x xs)
  then have "next_free_block (h x) = Some (hd (xs @ [e]))" "linked h (xs @ [e])"
    by (simp_all add: linked_Cons)
  with Cons show ?case by (subst free_walk.simps) simp
qed

lemma get_all_free_blocks_rel:
  "queue_rel q xs \<Longrightarrow> get_all_free_blocks q = Some (Inr xs)"
  using free_walk_linked [of "heap q" xs FakeTail "[]"] queue_rel_head [of q xs]
  by (simp add: get_all_free_blocks_def queue_rel_def linked_Cons)

lemma queue_rel_unique: "queue_rel q xs \<Longrightarrow> queue_rel q ys \<Longrightarrow> xs = ys"
  by (metis get_all_free_blocks_rel option.inject sum.inject(2))


subsection \<open>Initialisation\<close>

lemma link_step_other: "a \<noteq> bs ! i \<Longrightarrow> link_step bs i h a = h a"
  by (auto simp: link_step_def heap_upd_defs Let_def)

lemma link_step_self:
  "next_free_block (link_step bs i h (bs ! i)) =
     (if i < length bs - 1 then Some (bs ! (i + 1)) else next_free_block (h (bs ! i)))"
  "prev_free_block (link_step bs i h (bs ! i)) =
     (if 0 < i then Some (bs ! (i - 1)) else prev_free_block (h (bs ! i)))"
  by (auto simp: link_step_def heap_upd_defs Let_def)

lemma same_meta_link_steps: "same_meta h (fold (link_step bs) is h)"
proof (induction "is" arbitrary: h)
  case Nil
  then show ?case by simp
next
  case (Cons i "is")
  have "same_meta h (link_step bs i h)" by (simp add: link_step_def Let_def)
  with Cons show ?case by (auto intro: same_meta_trans)
qed

lemma link_steps:
  assumes "distinct bs" "k \<le> length bs" "j < length bs"
  shows "next_free_block (fold (link_step bs) [0..<k] h (bs ! j)) =
           (if j < k \<and> j < length bs - 1 then Some (bs ! (j + 1)) else next_free_block (h (bs ! j)))
       \<and> prev_free_block (fold (link_step bs) [0..<k] h (bs ! j)) =
           (if j < k \<and> 0 < j then Some (bs ! (j - 1)) else prev_free_block (h (bs ! j)))"
  using assms
proof (induction k)
  case 0
  then show ?case by simp
next
  case (Suc k)
  let ?g = "fold (link_step bs) [0..<k] h"
  show ?case
  proof (cases "j = k")
    case True
    with Suc show ?thesis by (auto simp: link_step_self)
  next
    case False
    then have "bs ! j \<noteq> bs ! k" using Suc.prems by (simp add: nth_eq_iff_index_eq)
    then have "link_step bs k ?g (bs ! j) = ?g (bs ! j)" by (rule link_step_other)
    with Suc False show ?thesis by (simp add: less_Suc_eq)
  qed
qed

lemma link_steps_other: "a \<notin> set bs \<Longrightarrow> set is \<subseteq> {..<length bs} \<Longrightarrow> fold (link_step bs) is h a = h a"
proof (induction "is" arbitrary: h)
  case Nil
  then show ?case by simp
next
  case (Cons i "is")
  then have "a \<noteq> bs ! i" by auto
  with Cons show ?case by (simp add: link_step_other)
qed

lemma queue_init_rel:
  assumes d: "distinct bs" "FakeHead \<notin> set bs" "FakeTail \<notin> set bs"
    and free: "\<And>b. b \<notin> set bs \<Longrightarrow> b \<noteq> FakeHead \<Longrightarrow> b \<noteq> FakeTail \<Longrightarrow> prev_of q b = None \<and> next_of q b = None"
  shows "queue_rel (queue_init bs q) bs"
proof (cases "bs = []")
  case True
  with free show ?thesis
    by (auto simp: queue_rel_def queue_init_def heap_upd_defs new_block_def)
next
  case False
  let ?g = "fold (link_step bs) [0..<length bs] (heap q)"
  let ?h = "heap (queue_init bs q)"
  have n: "0 < length bs" using False by simp
  have nth: "next_free_block (?h (bs ! j)) = (if j = length bs - 1 then Some FakeTail else Some (bs ! (j + 1)))"
    "prev_free_block (?h (bs ! j)) = (if j = 0 then Some FakeHead else Some (bs ! (j - 1)))"
    if j: "j < length bs" for j
  proof -
    have "bs ! j \<noteq> FakeHead" "bs ! j \<noteq> FakeTail" using d j by (metis nth_mem)+
    moreover have "bs ! j = hd bs \<longleftrightarrow> j = 0" "bs ! j = last bs \<longleftrightarrow> j = length bs - 1"
      using d(1) j False by (auto simp: hd_conv_nth last_conv_nth nth_eq_iff_index_eq)
    ultimately show
      "next_free_block (?h (bs ! j)) = (if j = length bs - 1 then Some FakeTail else Some (bs ! (j + 1)))"
      "prev_free_block (?h (bs ! j)) = (if j = 0 then Some FakeHead else Some (bs ! (j - 1)))"
      using link_steps [OF d(1) order_refl j, of "heap q"] n j
      by (auto simp: queue_init_def heap_upd_defs Let_def)
  qed
  have inner: "linked ?h bs"
    unfolding linked_iff_nth using nth by auto
  have hl: "hd bs \<noteq> FakeHead" "hd bs \<noteq> FakeTail" "last bs \<noteq> FakeHead" "last bs \<noteq> FakeTail"
    using d hd_in_set [OF False] last_in_set [OF False] by metis+
  then have ends: "next_free_block (?h FakeHead) = Some (hd bs)" "prev_free_block (?h FakeTail) = Some (last bs)"
    "next_free_block (?h FakeTail) = None" "prev_free_block (?h FakeHead) = None"
    using n False by (auto simp: queue_init_def heap_upd_defs new_block_def Let_def)
  have "prev_free_block (?h (hd bs)) = Some FakeHead" "next_free_block (?h (last bs)) = Some FakeTail"
    using nth [of 0] nth [of "length bs - 1"] n False by (simp_all add: hd_conv_nth last_conv_nth)
  with inner ends False have "linked ?h (FakeHead # bs @ [FakeTail])"
    by (simp add: linked_Cons linked_snoc)
  moreover have "?h b = heap q b" if "b \<notin> set bs" "b \<noteq> FakeHead" "b \<noteq> FakeTail" for b
  proof -
    have "b \<noteq> hd bs" "b \<noteq> last bs" using that False by auto
    with that n show ?thesis
      using link_steps_other [OF that(1), of "[0..<length bs]" "heap q"]
      by (auto simp: queue_init_def heap_upd_defs Let_def lessThan_atLeast0)
  qed
  ultimately show ?thesis
    using d free ends(3,4) by (simp add: queue_rel_def) (simp add: queue_init_def Let_def)
qed

lemma queue_init_meta:
  "b \<noteq> FakeHead \<Longrightarrow> b \<noteq> FakeTail \<Longrightarrow>
   ref_cnt (heap (queue_init bs q) b) = ref_cnt (heap q b) \<and>
   hash_of (heap (queue_init bs q) b) = hash_of (heap q b) \<and>
   is_null (heap (queue_init bs q) b) = is_null (heap q b)"
  using same_meta_link_steps [of "heap q" bs "[0..<length bs]"]
  by (auto simp: queue_init_def heap_upd_defs Let_def same_meta_def)

lemma queue_init_more: "free_queue.more (queue_init bs q) = free_queue.more q"
  by (simp add: queue_init_def Let_def)


subsection \<open>The represented list determines the links\<close>

lemma linked_next_unique:
  "linked h zs \<Longrightarrow> linked h' zs \<Longrightarrow> a \<in> set (butlast zs) \<Longrightarrow> next_free_block (h a) = next_free_block (h' a)"
  by (induction zs rule: induct_list012) (auto split: if_splits)

lemma linked_prev_unique:
  "linked h zs \<Longrightarrow> linked h' zs \<Longrightarrow> a \<in> set (tl zs) \<Longrightarrow> prev_free_block (h a) = prev_free_block (h' a)"
  by (induction zs rule: induct_list012) auto

lemma queue_rel_heap_unique:
  assumes q: "queue_rel q xs" and q': "queue_rel q' xs" and m: "same_meta (heap q) (heap q')"
  shows "heap q = heap q'"
proof
  fix b
  note L = queue_rel_linked [OF q] queue_rel_linked [OF q']
  have "next_of q b = next_of q' b"
  proof (cases "b \<in> set xs \<or> b = FakeHead")
    case True
    then show ?thesis using linked_next_unique [OF L, of b] by (auto simp: butlast_append)
  next
    case False
    then show ?thesis using q q' by (cases b) (auto simp: queue_rel_def)
  qed
  moreover have "prev_of q b = prev_of q' b"
  proof (cases "b \<in> set xs \<or> b = FakeTail")
    case True
    then show ?thesis using linked_prev_unique [OF L, of b] by auto
  next
    case False
    then show ?thesis using q q' by (cases b) (auto simp: queue_rel_def)
  qed
  ultimately show "heap q b = heap q' b"
    using m by (simp add: same_meta_def)
qed


section \<open>The queue's interface\<close>

text \<open>
  \<open>queue_frame\<close> is everything a queue operation must leave alone: the blocks' reference counts,
  hashes and null flags, and the rest of the record the queue is part of.
\<close>

definition queue_frame ::
  "'a free_queue_scheme \<Rightarrow> (blk \<Rightarrow> int \<times> block_key option \<times> bool) \<times> 'a" where
  "queue_frame q =
     ((\<lambda>b. (ref_cnt (heap q b), hash_of (heap q b), is_null (heap q b))), free_queue.more q)"

definition real_blk :: "blk \<Rightarrow> bool" where
  "real_blk b \<longleftrightarrow> b \<noteq> FakeHead \<and> b \<noteq> FakeTail"

lemma real_blk_Blk [simp]: "real_blk (Blk i)"
  by (simp add: real_blk_def)

lemma real_blk_cases: "real_blk b \<longleftrightarrow> (\<exists>i. b = Blk i)"
  by (cases b) (auto simp: real_blk_def)

fun iter_pop :: "('q \<Rightarrow> (blk \<times> 'q) res) \<Rightarrow> nat \<Rightarrow> 'q \<Rightarrow> (blk list \<times> 'q) res" where
  "iter_pop pop 0 q = Inr ([], q)"
| "iter_pop pop (Suc n) q =
     rbind (pop q) (\<lambda>(b, q1). rbind (iter_pop pop n q1) (\<lambda>(bs, q2). Inr (b # bs, q2)))"

locale free_queue_ops =
  fixes rel :: "'q \<Rightarrow> blk list \<Rightarrow> bool"
    and frame :: "'q \<Rightarrow> 'm"
    and size :: "'q \<Rightarrow> int"
    and pop :: "'q \<Rightarrow> (blk \<times> 'q) res"
    and popn :: "int \<Rightarrow> 'q \<Rightarrow> (blk list \<times> 'q) res"
    and rem :: "blk \<Rightarrow> 'q \<Rightarrow> 'q res"
    and app :: "blk \<Rightarrow> 'q \<Rightarrow> 'q res"
    and appn :: "blk list \<Rightarrow> 'q \<Rightarrow> 'q res"
    and all_free :: "'q \<Rightarrow> blk list res option"
  assumes rel_wf: "rel q xs \<Longrightarrow> distinct xs \<and> list_all real_blk xs \<and> size q = py_len xs"
    and rel_frame_inj: "rel q xs \<Longrightarrow> rel q' xs \<Longrightarrow> frame q = frame q' \<Longrightarrow> q = q'"
    and pop_empty: "rel q [] \<Longrightarrow> pop q = Inl ValueError"
    and pop_first: "rel q (b # xs) \<Longrightarrow> \<exists>q'. pop q = Inr (b, q') \<and> rel q' xs \<and> frame q' = frame q"
    and popn_take: "rel q xs \<Longrightarrow> 0 \<le> n \<Longrightarrow> n \<le> py_len xs \<Longrightarrow>
      \<exists>q'. popn n q = Inr (take (nat n) xs, q') \<and> rel q' (drop (nat n) xs) \<and> frame q' = frame q"
    and popn_too_many: "rel q xs \<Longrightarrow> py_len xs < n \<Longrightarrow> popn n q = Inl AssertionError"
    and rem_mid: "rel q (us @ b # vs) \<Longrightarrow>
      \<exists>q'. rem b q = Inr q' \<and> rel q' (us @ vs) \<and> frame q' = frame q"
    and rem_absent: "rel q xs \<Longrightarrow> b \<notin> set xs \<Longrightarrow> real_blk b \<Longrightarrow> rem b q = Inl RuntimeError"
    and app_last: "rel q xs \<Longrightarrow> b \<notin> set xs \<Longrightarrow> real_blk b \<Longrightarrow>
      \<exists>q'. app b q = Inr q' \<and> rel q' (xs @ [b]) \<and> frame q' = frame q"
    and appn_last: "rel q xs \<Longrightarrow> distinct bs \<Longrightarrow> set bs \<inter> set xs = {} \<Longrightarrow> list_all real_blk bs \<Longrightarrow>
      \<exists>q'. appn bs q = Inr q' \<and> rel q' (xs @ bs) \<and> frame q' = frame q"
    and all_free_rel: "rel q xs \<Longrightarrow> all_free q = Some (Inr xs)"
begin

lemma rel_unique: "rel q xs \<Longrightarrow> rel q ys \<Longrightarrow> xs = ys"
  by (metis all_free_rel option.inject sum.inject(2))

lemma iter_pop_take:
  "rel q xs \<Longrightarrow> n \<le> length xs \<Longrightarrow>
   \<exists>q'. iter_pop pop n q = Inr (take n xs, q') \<and> rel q' (drop n xs) \<and> frame q' = frame q"
proof (induction n arbitrary: q xs)
  case 0
  then show ?case by simp
next
  case (Suc n)
  then obtain b ys where xs: "xs = b # ys" by (cases xs) auto
  with Suc.prems obtain q1 where q1: "pop q = Inr (b, q1)" "rel q1 ys" "frame q1 = frame q"
    using pop_first by blast
  with Suc.IH [OF q1(2)] Suc.prems xs show ?case by force
qed

lemma popn_eq_iter_pop:
  assumes "rel q xs" "n \<le> length xs"
  shows "popn (int n) q = iter_pop pop n q"
proof -
  obtain q1 where 1: "popn (int n) q = Inr (take n xs, q1)" "rel q1 (drop n xs)" "frame q1 = frame q"
    using popn_take [OF assms(1), of "int n"] assms(2) by (auto simp: py_len_def)
  obtain q2 where 2: "iter_pop pop n q = Inr (take n xs, q2)" "rel q2 (drop n xs)" "frame q2 = frame q"
    using iter_pop_take [OF assms] by blast
  from 1 2 have "q1 = q2" by (intro rel_frame_inj) auto
  with 1 2 show ?thesis by simp
qed

lemma rfold_app_last:
  "rel q xs \<Longrightarrow> distinct bs \<Longrightarrow> set bs \<inter> set xs = {} \<Longrightarrow> list_all real_blk bs \<Longrightarrow>
   \<exists>q'. rfold app bs q = Inr q' \<and> rel q' (xs @ bs) \<and> frame q' = frame q"
proof (induction bs arbitrary: q xs)
  case Nil
  then show ?case by simp
next
  case (Cons b bs)
  then obtain q1 where q1: "app b q = Inr q1" "rel q1 (xs @ [b])" "frame q1 = frame q"
    using app_last [of q xs b] by auto
  with Cons.IH [OF q1(2)] Cons.prems show ?case by fastforce
qed

lemma appn_eq_rfold_app:
  assumes "rel q xs" "distinct bs" "set bs \<inter> set xs = {}" "list_all real_blk bs"
  shows "appn bs q = rfold app bs q"
  using appn_last [OF assms] rfold_app_last [OF assms] rel_frame_inj by metis

lemma rem_mem:
  assumes "rel q xs" "b \<in> set xs"
  shows "\<exists>q'. rem b q = Inr q' \<and> rel q' (remove1 b xs) \<and> frame q' = frame q"
proof -
  obtain us vs where s: "xs = us @ b # vs" "b \<notin> set us"
    using split_list_first [OF assms(2)] by blast
  with assms rem_mid [of q us b vs] show ?thesis by (simp add: remove1_append_mid)
qed

end

lemma queue_frame_upd:
  assumes "q' = q\<lparr>heap := heap q', num_free_blocks := num_free_blocks q'\<rparr>"
    and "same_meta (heap q) (heap q')"
  shows "queue_frame q' = queue_frame q"
proof -
  have "free_queue.more q' = free_queue.more q"
    using arg_cong [OF assms(1), of free_queue.more] by simp
  with assms(2) show ?thesis by (simp add: queue_frame_def same_meta_def)
qed

lemma popleft_n_too_many:
  assumes "queue_rel q xs" "py_len xs < n"
  shows "popleft_n n q = Inl AssertionError"
proof -
  have "0 \<le> py_len xs" by simp
  with assms have "n \<noteq> 0" "\<not> n \<le> num_free_blocks q"
    by (auto simp: queue_rel_def simp del: py_len_simps(6))
  then show ?thesis by (simp add: popleft_n_def)
qed

lemma queue_rel_frame_inj:
  assumes "queue_rel q xs" "queue_rel q' xs" "queue_frame q = queue_frame q'"
  shows "q = q'"
proof -
  have "same_meta (heap q) (heap q')"
    using assms(3) by (auto simp: queue_frame_def same_meta_def fun_eq_iff)
  then have "heap q = heap q'" using assms(1,2) by (intro queue_rel_heap_unique)
  moreover have "num_free_blocks q = num_free_blocks q'" "free_queue.more q = free_queue.more q'"
    using assms by (auto simp: queue_rel_def queue_frame_def)
  ultimately show ?thesis by (cases q, cases q') simp
qed

interpretation fq: free_queue_ops queue_rel queue_frame num_free_blocks popleft popleft_n
  queue_remove queue_append append_n get_all_free_blocks
proof (unfold_locales, goal_cases)
  case (1 q xs)
  then show ?case by (auto simp: queue_rel_def real_blk_def list_all_iff)
next
  case (2 q xs q')
  then show ?case by (rule queue_rel_frame_inj)
next
  case (3 q)
  then show ?case by (rule popleft_Nil)
next
  case (4 q b xs)
  then show ?case using popleft_Cons queue_frame_upd by blast
next
  case (5 q xs n)
  then show ?case using popleft_n_free queue_frame_upd by blast
next
  case (6 q xs n)
  then show ?case by (rule popleft_n_too_many)
next
  case (7 q us b vs)
  then show ?case using queue_remove_free queue_frame_upd by blast
next
  case (8 q xs b)
  then show ?case by (simp add: queue_remove_not_free real_blk_def)
next
  case (9 q xs b)
  then show ?case using queue_append_free queue_frame_upd unfolding real_blk_def by blast
next
  case (10 q xs bs)
  then have "FakeHead \<notin> set bs" "FakeTail \<notin> set bs" by (auto simp: list_all_iff real_blk_def)
  with 10 show ?case using append_n_free queue_frame_upd by blast
next
  case (11 q xs)
  then show ?case by (rule get_all_free_blocks_rel)
qed


section \<open>Simulation of the list of free blocks\<close>

text \<open>The abstract queue: a list of distinct free blocks, with the errors the code raises.\<close>

datatype queue_op =
    PopLeft
  | PopLeftN int
  | Remove blk
  | Append blk
  | AppendN "blk list"

fun list_step :: "queue_op \<Rightarrow> blk list \<Rightarrow> (blk list \<times> blk list) res" where
  "list_step PopLeft xs = (case xs of [] \<Rightarrow> Inl ValueError | b # ys \<Rightarrow> Inr ([b], ys))"
| "list_step (PopLeftN n) xs =
     (if py_len xs < n then Inl AssertionError else Inr (take (nat n) xs, drop (nat n) xs))"
| "list_step (Remove b) xs = (if b \<in> set xs then Inr ([], remove1 b xs) else Inl RuntimeError)"
| "list_step (Append b) xs = Inr ([], xs @ [b])"
| "list_step (AppendN bs) xs = Inr ([], xs @ bs)"

text \<open>What callers owe the queue: counts are not negative, and only blocks outside it are appended.\<close>

fun queue_legal :: "queue_op \<Rightarrow> blk list \<Rightarrow> bool" where
  "queue_legal PopLeft xs \<longleftrightarrow> True"
| "queue_legal (PopLeftN n) xs \<longleftrightarrow> 0 \<le> n"
| "queue_legal (Remove b) xs \<longleftrightarrow> real_blk b"
| "queue_legal (Append b) xs \<longleftrightarrow> real_blk b \<and> b \<notin> set xs"
| "queue_legal (AppendN bs) xs \<longleftrightarrow> list_all real_blk bs \<and> distinct bs \<and> set bs \<inter> set xs = {}"

fun queue_step :: "queue_op \<Rightarrow> 'a free_queue_scheme \<Rightarrow> (blk list \<times> 'a free_queue_scheme) res" where
  "queue_step PopLeft q = rbind (popleft q) (\<lambda>(b, q'). Inr ([b], q'))"
| "queue_step (PopLeftN n) q = popleft_n n q"
| "queue_step (Remove b) q = rbind (queue_remove b q) (\<lambda>q'. Inr ([], q'))"
| "queue_step (Append b) q = rbind (queue_append b q) (\<lambda>q'. Inr ([], q'))"
| "queue_step (AppendN bs) q = rbind (append_n bs q) (\<lambda>q'. Inr ([], q'))"

fun run_steps :: "('op \<Rightarrow> 's \<Rightarrow> ('o list \<times> 's) res) \<Rightarrow> 'op list \<Rightarrow> 's \<Rightarrow> ('o list \<times> 's) res" where
  "run_steps step [] s = Inr ([], s)"
| "run_steps step (op # ops) s =
     rbind (step op s) (\<lambda>(o1, s1). rbind (run_steps step ops s1) (\<lambda>(o2, s2). Inr (o1 @ o2, s2)))"

fun legal_run :: "queue_op list \<Rightarrow> blk list \<Rightarrow> bool" where
  "legal_run [] xs \<longleftrightarrow> True"
| "legal_run (op # ops) xs \<longleftrightarrow>
     queue_legal op xs \<and> (case list_step op xs of Inl e \<Rightarrow> True | Inr (_, ys) \<Rightarrow> legal_run ops ys)"

text \<open>A concrete queue on which the properties are applied.\<close>

definition fresh_queue :: free_queue where
  "fresh_queue = \<lparr>heap = \<lambda>_. new_block, num_free_blocks = 0\<rparr>"

definition demo_queue :: free_queue where
  "demo_queue = queue_init (map Blk [0, 1, 2, 3]) fresh_queue"

lemma fresh_queue_init_rel: "distinct is \<Longrightarrow> queue_rel (queue_init (map Blk is) fresh_queue) (map Blk is)"
  by (intro queue_init_rel) (auto simp: distinct_map inj_on_def new_block_def fresh_queue_def)

lemma demo_queue_rel: "queue_rel demo_queue [Blk 0, Blk 1, Blk 2, Blk 3]"
  using fresh_queue_init_rel [of "[0, 1, 2, 3]"] by (simp add: demo_queue_def)

lemma queue_step_simulates:
  assumes q: "queue_rel q xs" and l: "queue_legal op xs"
  shows "(case list_step op xs of
            Inl e \<Rightarrow> queue_step op q = Inl e
          | Inr (out, ys) \<Rightarrow>
              \<exists>q'. queue_step op q = Inr (out, q') \<and> queue_rel q' ys \<and> queue_frame q' = queue_frame q)"
proof (cases op)
  case PopLeft
  with q show ?thesis
    by (cases xs) (auto dest: fq.pop_empty fq.pop_first)
next
  case (PopLeftN n)
  with q l show ?thesis
    using fq.popn_take [OF q, of n] fq.popn_too_many [OF q, of n] by auto
next
  case (Remove b)
  with q l show ?thesis
    using fq.rem_mem [OF q, of b] fq.rem_absent [OF q, of b] by auto
next
  case (Append b)
  with q l show ?thesis using fq.app_last [OF q, of b] by auto
next
  case (AppendN bs)
  with q l show ?thesis using fq.appn_last [OF q, of bs] by auto
qed

text \<open>
  C8.  The free-block queue refines a list.  Whatever legal sequence of \<^verbatim>\<open>popleft\<close>,
  \<^verbatim>\<open>popleft_n\<close>, \<^verbatim>\<open>remove\<close>, \<^verbatim>\<open>append\<close> and \<^verbatim>\<open>append_n\<close> is run on a linked heap that represents
  the list \<open>xs\<close>, the blocks handed out, the exception raised and the final contents are those of
  the same run on the list, and no reference count, hash or null flag changes.
\<close>

theorem free_queue_refines_list:
  assumes "queue_rel q xs" and "legal_run ops xs"
  shows "(case run_steps list_step ops xs of
            Inl e \<Rightarrow> run_steps queue_step ops q = Inl e
          | Inr (out, ys) \<Rightarrow>
              \<exists>q'. run_steps queue_step ops q = Inr (out, q') \<and> queue_rel q' ys \<and>
                   queue_frame q' = queue_frame q)"
  using assms
proof (induction ops arbitrary: q xs)
  case Nil
  then show ?case by simp
next
  case (Cons op ops)
  note S = queue_step_simulates [OF Cons.prems(1), of op]
  show ?case
  proof (cases "list_step op xs")
    case (Inl e)
    with S Cons.prems(2) show ?thesis by simp
  next
    case (Inr p)
    obtain out ys where p: "p = (out, ys)" by force
    with S Inr Cons.prems(2) obtain q1 where
      q1: "queue_step op q = Inr (out, q1)" "queue_rel q1 ys" "queue_frame q1 = queue_frame q"
      by auto
    from Cons.prems(2) Inr p have "legal_run ops ys" by simp
    with Cons.IH [OF q1(2)] q1 Inr p show ?thesis
      by (auto simp: rbind_def split: sum.splits prod.splits)
  qed
qed

theorem free_queue_refines_list_witness:
  "\<exists>q'. run_steps queue_step [PopLeftN 2, Append (Blk 0), Remove (Blk 3), PopLeft] demo_queue
          = Inr ([Blk 0, Blk 1, Blk 2], q')
        \<and> queue_rel q' [Blk 0] \<and> queue_frame q' = queue_frame demo_queue"
  using free_queue_refines_list [OF demo_queue_rel,
      of "[PopLeftN 2, Append (Blk 0), Remove (Blk 3), PopLeft]"]
  by (simp add: py_len_def)

text \<open>
  \<^verbatim>\<open>popleft_n\<close> and \<^verbatim>\<open>append_n\<close> are the batched forms of \<^verbatim>\<open>popleft\<close> and \<^verbatim>\<open>append\<close>: on a
  well-formed queue they end in exactly the heap and return exactly the blocks of the one-by-one
  loop.
\<close>

lemma queue_batch_ops_eq_loops:
  assumes "queue_rel q xs"
  shows "(n \<le> length xs \<longrightarrow> popleft_n (int n) q = iter_pop popleft n q) \<and>
         (distinct bs \<and> set bs \<inter> set xs = {} \<and> list_all real_blk bs \<longrightarrow>
            append_n bs q = rfold queue_append bs q)"
  using fq.popn_eq_iter_pop [OF assms] fq.appn_eq_rfold_app [OF assms] by blast

text \<open>
  The constructor builds a well-formed queue: linking a list of distinct blocks represents
  that list, so \<^verbatim>\<open>get_all_free_blocks\<close> terminates on it and returns the blocks in order.
\<close>

lemma queue_init_all_free:
  assumes "distinct is"
  shows "get_all_free_blocks (queue_init (map Blk is) fresh_queue) = Some (Inr (map Blk is))"
  using fresh_queue_init_rel [OF assms] by (rule fq.all_free_rel)

end
