(* ===== verification/Block_Hash_Map.thy ===== *)
theory Block_Hash_Map
  imports Free_Block_Queue
begin

text \<open>
  \<^verbatim>\<open>BlockHashToBlockMap\<close> of \<^verbatim>\<open>vllm/v1/core/block_pool.py\<close>: the prefix cache, a dict from block
  keys to one block or to a dict of blocks by id.  The locale \<open>block_cache\<close> is the contract the
  block pool relies on: a map from keys to lists of blocks, together with the client's lemmas on
  the agreement of the cache with the hash stored in each block.
\<close>

section \<open>The map\<close>

datatype cached_blocks = One blk | Many "(int \<times> blk) list"

type_synonym block_map = "(block_key \<times> cached_blocks) list"

definition bmap_empty :: block_map where
  "bmap_empty = []"

definition get_one_block :: "block_map \<Rightarrow> block_key \<Rightarrow> blk option res" where
  "get_one_block m key =
     (case map_of m key of
        None \<Rightarrow> Inr None
      | Some (One b) \<Rightarrow> Inr (Some b)
      | Some (Many d) \<Rightarrow> (case d of [] \<Rightarrow> Inl StopIteration | (_, b) # _ \<Rightarrow> Inr (Some b)))"

definition bmap_insert :: "block_key \<Rightarrow> blk \<Rightarrow> block_map \<Rightarrow> block_map" where
  "bmap_insert key b m =
     (case map_of m key of
        None \<Rightarrow> AList.update key (One b) m
      | Some (One c) \<Rightarrow> AList.update key (Many (AList.update (block_id b) b [(block_id c, c)])) m
      | Some (Many d) \<Rightarrow> AList.update key (Many (AList.update (block_id b) b d)) m)"

definition bmap_pop :: "block_key \<Rightarrow> int \<Rightarrow> block_map \<Rightarrow> blk option \<times> block_map" where
  "bmap_pop key bid m =
     (let m' = AList.delete key m
      in case map_of m key of
           None \<Rightarrow> (None, m)
         | Some (One b) \<Rightarrow>
             if block_id b = bid then (Some b, m') else (None, AList.update key (One b) m')
         | Some (Many d) \<Rightarrow>
             let d' = AList.delete bid d
             in (map_of d bid, if d' \<noteq> [] then AList.update key (Many d') m' else m'))"

definition bmap_len :: "block_map \<Rightarrow> int" where
  "bmap_len m = py_len m"

section \<open>The represented map\<close>

fun entry_blocks :: "cached_blocks option \<Rightarrow> blk list" where
  "entry_blocks None = []"
| "entry_blocks (Some (One b)) = [b]"
| "entry_blocks (Some (Many d)) = map snd d"

definition bmap_blocks :: "block_map \<Rightarrow> block_key \<Rightarrow> blk list" where
  "bmap_blocks m key = entry_blocks (map_of m key)"

fun entry_ok :: "cached_blocks \<Rightarrow> bool" where
  "entry_ok (One b) \<longleftrightarrow> real_blk b"
| "entry_ok (Many d) \<longleftrightarrow>
     d \<noteq> [] \<and> distinct (map fst d) \<and> list_all (\<lambda>(i, b). i = block_id b \<and> real_blk b) d"

definition bmap_ok :: "block_map \<Rightarrow> bool" where
  "bmap_ok m \<longleftrightarrow> distinct (map fst m) \<and> list_all (\<lambda>(k, e). entry_ok e) m"

definition insert_last :: "'a \<Rightarrow> 'a list \<Rightarrow> 'a list" where
  "insert_last x xs = (if x \<in> set xs then xs else xs @ [x])"

definition hash_agrees :: "(block_key \<Rightarrow> blk list) \<Rightarrow> (blk \<Rightarrow> block_key option) \<Rightarrow> bool" where
  "hash_agrees bl hash \<longleftrightarrow> (\<forall>k b. b \<in> set (bl k) \<longleftrightarrow> real_blk b \<and> hash b = Some k)"

locale block_cache =
  fixes inv :: "'m \<Rightarrow> bool"
    and blocks_of :: "'m \<Rightarrow> block_key \<Rightarrow> blk list"
    and emp :: 'm
    and get :: "'m \<Rightarrow> block_key \<Rightarrow> blk option res"
    and ins :: "block_key \<Rightarrow> blk \<Rightarrow> 'm \<Rightarrow> 'm"
    and pop :: "block_key \<Rightarrow> int \<Rightarrow> 'm \<Rightarrow> blk option \<times> 'm"
  assumes inv_emp: "inv emp"
    and blocks_emp: "blocks_of emp k = []"
    and inv_wf: "inv m \<Longrightarrow> distinct (blocks_of m k) \<and> list_all real_blk (blocks_of m k)"
    and get_first: "inv m \<Longrightarrow>
      get m k = Inr (case blocks_of m k of [] \<Rightarrow> None | b # _ \<Rightarrow> Some b)"
    and inv_ins: "inv m \<Longrightarrow> real_blk b \<Longrightarrow> inv (ins k b m)"
    and blocks_ins: "inv m \<Longrightarrow> real_blk b \<Longrightarrow>
      blocks_of (ins k b m) = (blocks_of m)(k := insert_last b (blocks_of m k))"
    and inv_pop: "inv m \<Longrightarrow> real_blk b \<Longrightarrow> inv (snd (pop k (block_id b) m))"
    and pop_found: "inv m \<Longrightarrow> real_blk b \<Longrightarrow>
      fst (pop k (block_id b) m) = (if b \<in> set (blocks_of m k) then Some b else None)"
    and blocks_pop: "inv m \<Longrightarrow> real_blk b \<Longrightarrow>
      blocks_of (snd (pop k (block_id b) m)) = (blocks_of m)(k := remove1 b (blocks_of m k))"
begin

lemma get_agrees:
  assumes "inv m" "hash_agrees (blocks_of m) hash"
  shows "\<exists>r. get m k = Inr r \<and>
           (case r of None \<Rightarrow> \<forall>b. real_blk b \<longrightarrow> hash b \<noteq> Some k
                    | Some b \<Rightarrow> real_blk b \<and> hash b = Some k)"
proof (cases "blocks_of m k")
  case Nil
  have "(b \<in> set (blocks_of m k)) = (real_blk b \<and> hash b = Some k)" for b
    using assms(2) unfolding hash_agrees_def by blast
  then have "\<forall>b. real_blk b \<longrightarrow> hash b \<noteq> Some k" using Nil by simp
  then show ?thesis using get_first [OF assms(1), of k] Nil by simp
next
  case (Cons b bs)
  then have "b \<in> set (blocks_of m k)" by simp
  then have "real_blk b \<and> hash b = Some k" using assms(2) unfolding hash_agrees_def by blast
  then show ?thesis using get_first [OF assms(1), of k] Cons by simp
qed

lemma ins_agrees:
  assumes "inv m" "hash_agrees (blocks_of m) hash" "real_blk b" "hash b = None"
  shows "inv (ins k b m) \<and> hash_agrees (blocks_of (ins k b m)) (hash(b := Some k))"
  using assms by (auto simp: hash_agrees_def inv_ins blocks_ins insert_last_def)

lemma pop_agrees:
  assumes "inv m" "hash_agrees (blocks_of m) hash" "real_blk b" "hash b = Some k"
  shows "fst (pop k (block_id b) m) = Some b \<and> inv (snd (pop k (block_id b) m))
         \<and> hash_agrees (blocks_of (snd (pop k (block_id b) m))) (hash(b := None))"
  using assms inv_wf [OF assms(1), of k]
  by (auto simp: hash_agrees_def inv_pop pop_found blocks_pop)

lemma emp_agrees: "(\<And>b. real_blk b \<Longrightarrow> hash b = None) \<Longrightarrow> hash_agrees (blocks_of emp) hash"
  by (auto simp: hash_agrees_def blocks_emp)

end

section \<open>The dict implements the contract\<close>

lemma block_id_inj: "real_blk b \<Longrightarrow> real_blk c \<Longrightarrow> block_id b = block_id c \<longleftrightarrow> b = c"
  by (auto simp: real_blk_cases)

lemma map_of_block_id:
  assumes "list_all (\<lambda>(i, b). i = block_id b \<and> real_blk b) d" "real_blk b"
  shows "map_of d (block_id b) = (if b \<in> set (map snd d) then Some b else None)"
  using assms(1)
proof (induction d)
  case (Cons p d)
  obtain i c where p: "p = (i, c)" by force
  then have "i = block_id c" "real_blk c" using Cons.prems by auto
  then show ?case using Cons p block_id_inj [OF \<open>real_blk c\<close> assms(2)] by auto
qed simp

lemma snd_update_block_id:
  assumes "list_all (\<lambda>(i, b). i = block_id b \<and> real_blk b) d" "real_blk b"
  shows "map snd (AList.update (block_id b) b d) = insert_last b (map snd d)"
  using assms(1)
proof (induction d)
  case (Cons p d)
  obtain i c where p: "p = (i, c)" by force
  then have "i = block_id c" "real_blk c" using Cons.prems by auto
  then show ?case using Cons p block_id_inj [OF \<open>real_blk c\<close> assms(2)] by (auto simp: insert_last_def)
qed (simp add: insert_last_def)

lemma snd_delete_block_id:
  assumes "list_all (\<lambda>(i, b). i = block_id b \<and> real_blk b) d" "real_blk b" "distinct (map fst d)"
  shows "map snd (AList.delete (block_id b) d) = remove1 b (map snd d)"
  using assms
proof (induction d)
  case (Cons p d)
  obtain i c where p: "p = (i, c)" by force
  have ic: "i = block_id c" "real_blk c" using Cons.prems(1) p by auto
  show ?case
  proof (cases "c = b")
    case True
    have "AList.delete (block_id b) d = d"
      using Cons.prems(3) p ic True by (intro delete_id) auto
    then show ?thesis using p ic True by simp
  next
    case False
    then show ?thesis using Cons p ic by (simp add: block_id_inj)
  qed
qed simp

lemma distinct_snd:
  assumes "list_all (\<lambda>(i, b). i = block_id b \<and> real_blk b) d" "distinct (map fst d)"
  shows "distinct (map snd d)"
  using assms by (induction d) (fastforce simp: image_iff list_all_iff)+

lemma list_all_snd_real:
  "list_all (\<lambda>(i, b). i = block_id b \<and> real_blk b) d \<Longrightarrow> list_all real_blk (map snd d)"
  by (induction d) auto

lemma update_block_id_ok:
  assumes "list_all (\<lambda>(i, b). i = block_id b \<and> real_blk b) d" "real_blk b"
  shows "list_all (\<lambda>(i, b). i = block_id b \<and> real_blk b) (AList.update (block_id b) b d)"
  using assms by (induction d) auto

lemma list_all_alist_update:
  "list_all P al \<Longrightarrow> P (k, v) \<Longrightarrow> list_all P (AList.update k v al)"
  by (induction al) auto

lemma list_all_alist_delete: "list_all P al \<Longrightarrow> list_all P (AList.delete k al)"
  by (induction al) auto

lemma bmap_ok_entry: "bmap_ok m \<Longrightarrow> map_of m key = Some e \<Longrightarrow> entry_ok e"
  by (auto simp: bmap_ok_def list_all_iff dest!: map_of_SomeD)

lemma bmap_ok_update: "bmap_ok m \<Longrightarrow> entry_ok e \<Longrightarrow> bmap_ok (AList.update key e m)"
  by (simp add: bmap_ok_def distinct_update list_all_alist_update)

lemma bmap_ok_delete: "bmap_ok m \<Longrightarrow> bmap_ok (AList.delete key m)"
  by (simp add: bmap_ok_def distinct_delete list_all_alist_delete)

lemma bmap_blocks_update: "bmap_blocks (AList.update key e m) = (bmap_blocks m)(key := entry_blocks (Some e))"
  by (auto simp: bmap_blocks_def update_conv')

lemma bmap_blocks_delete: "bmap_blocks (AList.delete key m) = (bmap_blocks m)(key := [])"
  by (auto simp: bmap_blocks_def delete_conv')

lemma bmap_insert_entry:
  assumes "bmap_ok m" "real_blk b"
  shows "\<exists>e. bmap_insert key b m = AList.update key e m \<and> entry_ok e
           \<and> entry_blocks (Some e) = insert_last b (bmap_blocks m key)"
proof (cases "map_of m key")
  case None
  then show ?thesis
    using assms(2) by (intro exI [of _ "One b"]) (simp add: bmap_insert_def bmap_blocks_def insert_last_def)
next
  case (Some e)
  define d where "d = (case e of One c \<Rightarrow> [(block_id c, c)] | Many d \<Rightarrow> d)"
  have d: "d \<noteq> []" "distinct (map fst d)" "list_all (\<lambda>(i, b). i = block_id b \<and> real_blk b) d"
    "map snd d = bmap_blocks m key"
    using bmap_ok_entry [OF assms(1) Some] Some by (auto simp: d_def bmap_blocks_def split: cached_blocks.splits)
  have "bmap_insert key b m = AList.update key (Many (AList.update (block_id b) b d)) m"
    using Some by (cases e) (simp_all add: bmap_insert_def d_def)
  then show ?thesis
    using d assms(2)
    by (intro exI [of _ "Many (AList.update (block_id b) b d)"])
      (simp add: distinct_update update_block_id_ok snd_update_block_id update_nonempty)
qed

lemma bmap_pop_blocks:
  assumes "bmap_ok m" "real_blk b"
  shows "fst (bmap_pop key (block_id b) m) = (if b \<in> set (bmap_blocks m key) then Some b else None)
         \<and> bmap_ok (snd (bmap_pop key (block_id b) m))
         \<and> bmap_blocks (snd (bmap_pop key (block_id b) m)) = (bmap_blocks m)(key := remove1 b (bmap_blocks m key))"
proof (cases "map_of m key")
  case None
  then show ?thesis using assms by (simp add: bmap_pop_def bmap_blocks_def fun_eq_iff)
next
  case (Some e)
  note eo = bmap_ok_entry [OF assms(1) Some]
  show ?thesis
  proof (cases e)
    case (One c)
    have "bmap_blocks m key = [c]" "real_blk c" using eo Some One by (simp_all add: bmap_blocks_def)
    moreover have "bmap_pop key (block_id b) m =
        (if c = b then (Some c, AList.delete key m)
         else (None, AList.update key (One c) (AList.delete key m)))"
      using Some One eo assms(2) by (simp add: bmap_pop_def Let_def block_id_inj)
    ultimately show ?thesis
      using assms(1) by (simp add: bmap_ok_delete bmap_ok_update bmap_blocks_update bmap_blocks_delete)
  next
    case (Many d)
    have d: "distinct (map fst d)" "list_all (\<lambda>(i, b). i = block_id b \<and> real_blk b) d"
      and bl: "bmap_blocks m key = map snd d"
      using eo Some Many by (simp_all add: bmap_blocks_def)
    define d' where "d' = AList.delete (block_id b) d"
    have d': "map snd d' = remove1 b (map snd d)" "distinct (map fst d')"
      "list_all (\<lambda>(i, b). i = block_id b \<and> real_blk b) d'"
      unfolding d'_def using d assms(2)
      by (simp_all add: snd_delete_block_id distinct_delete list_all_alist_delete)
    have "bmap_pop key (block_id b) m =
        (if b \<in> set (map snd d) then Some b else None,
         if d' \<noteq> [] then AList.update key (Many d') (AList.delete key m) else AList.delete key m)"
      using Some Many map_of_block_id [OF d(2) assms(2)] by (simp add: bmap_pop_def Let_def d'_def)
    moreover have "d' = [] \<Longrightarrow> remove1 b (map snd d) = []" using d'(1) by simp
    ultimately show ?thesis
      using assms(1) d'
      by (simp add: bl bmap_ok_delete bmap_ok_update bmap_blocks_update bmap_blocks_delete del: set_map)
  qed
qed

interpretation bc: block_cache bmap_ok bmap_blocks bmap_empty get_one_block bmap_insert bmap_pop
proof (unfold_locales, goal_cases)
  case 1
  show ?case by (simp add: bmap_ok_def bmap_empty_def)
next
  case (2 k)
  show ?case by (simp add: bmap_blocks_def bmap_empty_def)
next
  case (3 m k)
  then show ?case
  proof (cases "map_of m k")
    case (Some e)
    then show ?thesis using bmap_ok_entry [OF 3 Some]
      by (cases e) (auto simp: bmap_blocks_def distinct_snd list_all_snd_real)
  qed (simp add: bmap_blocks_def)
next
  case (4 m k)
  show ?case
  proof (cases "map_of m k")
    case (Some e)
    then show ?thesis using bmap_ok_entry [OF 4 Some]
      by (cases e) (auto simp: get_one_block_def bmap_blocks_def split: list.split)
  qed (simp add: get_one_block_def bmap_blocks_def)
next
  case (5 m b k)
  then show ?case using bmap_insert_entry [of m b k] bmap_ok_update by auto
next
  case (6 m b k)
  then show ?case using bmap_insert_entry [of m b k] by (auto simp: bmap_blocks_update)
next
  case (7 m b k)
  then show ?case using bmap_pop_blocks by blast
next
  case (8 m b k)
  then show ?case using bmap_pop_blocks by blast
next
  case (9 m b k)
  then show ?case using bmap_pop_blocks by blast
qed

end
