(* ===== verification/Request.thy ===== *)
theory Request
  imports Block_Hash "HOL-Library.AList"
begin

text \<open>
  \<^verbatim>\<open>vllm/v1/request.py\<close> and the block hasher of \<^verbatim>\<open>vllm/v1/core/kv_cache_utils.py\<close>: the
  request record, its status enumeration and order, the extra keys that enter a block's hash
  (LoRA name, multi-modal items, cache salt, prompt embeddings) and the chained hash of every full
  block of tokens.  The hash functions are parameters (\<open>hash_env\<close>).  A \<^verbatim>\<open>str\<close>, a
  \<^verbatim>\<open>(str, int)\<close> tuple and \<^verbatim>\<open>bytes\<close> are the three shapes an extra key has in Python, and
  \<open>extra_key\<close> has exactly these three constructors, so keys that are equal in Python are equal
  here.  Times are integers (they are only compared and copied).
\<close>

section \<open>Request status\<close>

datatype request_status =
    WAITING
  | WAITING_FOR_STRUCTURED_OUTPUT_GRAMMAR
  | WAITING_FOR_REMOTE_KVS
  | WAITING_FOR_STREAMING_REQ
  | RUNNING
  | PREEMPTED
  | FINISHED_STOPPED
  | FINISHED_LENGTH_CAPPED
  | FINISHED_ABORTED
  | FINISHED_IGNORED
  | FINISHED_ERROR
  | FINISHED_REPETITION

datatype finish_reason = FR_STOP | FR_LENGTH | FR_ABORT | FR_ERROR | FR_REPETITION

text \<open>The values \<^verbatim>\<open>enum.auto()\<close> assigns, on which the comparison in \<^verbatim>\<open>is_finished\<close> rests.\<close>

fun status_value :: "request_status \<Rightarrow> int" where
  "status_value WAITING = 1"
| "status_value WAITING_FOR_STRUCTURED_OUTPUT_GRAMMAR = 2"
| "status_value WAITING_FOR_REMOTE_KVS = 3"
| "status_value WAITING_FOR_STREAMING_REQ = 4"
| "status_value RUNNING = 5"
| "status_value PREEMPTED = 6"
| "status_value FINISHED_STOPPED = 7"
| "status_value FINISHED_LENGTH_CAPPED = 8"
| "status_value FINISHED_ABORTED = 9"
| "status_value FINISHED_IGNORED = 10"
| "status_value FINISHED_ERROR = 11"
| "status_value FINISHED_REPETITION = 12"

definition is_finished_status :: "request_status \<Rightarrow> bool" where
  "is_finished_status s \<longleftrightarrow> status_value PREEMPTED < status_value s"

fun get_finished_reason :: "request_status \<Rightarrow> finish_reason option" where
  "get_finished_reason FINISHED_STOPPED = Some FR_STOP"
| "get_finished_reason FINISHED_LENGTH_CAPPED = Some FR_LENGTH"
| "get_finished_reason FINISHED_ABORTED = Some FR_ABORT"
| "get_finished_reason FINISHED_IGNORED = Some FR_LENGTH"
| "get_finished_reason FINISHED_ERROR = Some FR_ERROR"
| "get_finished_reason WAITING_FOR_STREAMING_REQ = Some FR_STOP"
| "get_finished_reason FINISHED_REPETITION = Some FR_REPETITION"
| "get_finished_reason _ = None"

section \<open>The request\<close>

record mm_feature =
  mm_identifier :: string
  mm_offset :: int
  mm_length :: int
  is_embed :: "bool list option"

record lora_request =
  lora_name :: string
  lora_int_id :: int

record repetition_params =
  max_pattern_size :: int
  min_pattern_size :: int
  min_count :: int

record sampling_params =
  sp_max_tokens :: "int option"
  min_tokens :: int
  eos_token_id :: "int option"
  stop_token_ids :: "int list"
  repetition_detection :: "repetition_params option"
  sp_skip_reading_prefix_cache :: "bool option"
  sp_kv_transfer_params :: "string option"
  sp_structured_outputs :: bool

record pooling_params =
  pp_skip_reading_prefix_cache :: "bool option"

datatype stop_reason = StopToken int | StopString string

datatype event_type = QUEUED | SCHEDULED | EV_PREEMPTED

record streaming_update =
  su_mm_features :: "mm_feature list"
  su_prompt_token_ids :: "int list option"
  su_max_tokens :: int
  su_arrival_time :: int
  su_sampling_params :: "sampling_params option"

record request =
  request_id :: string
  priority :: int
  sampling_params_of :: "sampling_params option"
  pooling_params_of :: "pooling_params option"
  lora_request_of :: "lora_request option"
  use_structured_output :: bool
  arrival_time :: int
  status :: request_status
  events :: "(event_type \<times> int) list"
  stop_reason_of :: "stop_reason option"
  kv_transfer_params :: "string option"
  max_tokens :: int
  prompt_token_ids :: "int list option"
  prompt_embeds :: "bytes list option"
  prompt_embeds_per_block_hashes :: "((int \<times> int) \<times> bytes) list"
  num_prompt_tokens :: int
  output_token_ids :: "int list"
  all_token_ids :: "int list"
  num_output_placeholders :: int
  spec_token_ids :: "int list"
  num_computed_tokens :: int
  cache_salt :: "string option"
  mm_features :: "mm_feature list"
  num_preemptions :: int
  nelssa_long_mask :: bool
  head_size :: "int option"
  tail_size :: "int option"
  block_hashes :: "bytes list"
  block_hasher :: "int option"
  skip_reading_prefix_cache :: bool
  resumable :: bool
  streaming_queue :: "streaming_update option list option"

definition num_tokens :: "request \<Rightarrow> int" where
  "num_tokens r = py_len (all_token_ids r)"

definition num_tokens_with_spec :: "request \<Rightarrow> int" where
  "num_tokens_with_spec r = py_len (all_token_ids r) + py_len (spec_token_ids r)"

definition num_output_tokens :: "request \<Rightarrow> int" where
  "num_output_tokens r = py_len (output_token_ids r)"

definition is_finished :: "request \<Rightarrow> bool" where
  "is_finished r = is_finished_status (status r)"

section \<open>Extra keys\<close>

datatype extra_key = KeyStr string | KeyTuple string int | KeyBytes bytes

type_synonym hash_input = "bytes \<times> int list \<times> extra_key list option"

record hash_env =
  hash_fn :: "hash_input \<Rightarrow> bytes"
  embeds_sha256 :: "bytes \<Rightarrow> bytes"
  none_hash :: bytes

definition need_extra_keys :: "request \<Rightarrow> bool" where
  "need_extra_keys r \<longleftrightarrow>
     mm_features r \<noteq> [] \<or> lora_request_of r \<noteq> None \<or> cache_salt r \<noteq> None"

text \<open>
  The \<^verbatim>\<open>while\<close> loop of \<^verbatim>\<open>_gen_mm_extra_hash_keys\<close>, on the features from the current index on:
  the keys it appends and by how much it advances the index.  The identifier of a feature is a string
  and never \<^verbatim>\<open>None\<close> (its declared type), so the assertion on it has no branch here.
\<close>

fun mm_key_loop :: "mm_feature list \<Rightarrow> int \<Rightarrow> int \<Rightarrow> extra_key list \<times> int" where
  "mm_key_loop [] start end = ([], 0)"
| "mm_key_loop (f # fs) start end =
     (if mm_offset f < end
      then if mm_offset f + mm_length f \<le> start
           then (let (ks, n) = mm_key_loop fs start end in (ks, n + 1))
           else (let k = KeyTuple (mm_identifier f) (mm_offset f - start)
                 in if mm_offset f + mm_length f \<le> end
                    then (let (ks, n) = mm_key_loop fs start end in (k # ks, n + 1))
                    else ([k], 0))
      else ([], 0))"

definition gen_mm_extra_hash_keys ::
  "request \<Rightarrow> int \<Rightarrow> int \<Rightarrow> int \<Rightarrow> (extra_key list \<times> int) res" where
  "gen_mm_extra_hash_keys r start end start_mm_idx =
     (let fs = mm_features r
      in if fs = [] then Inr ([], start_mm_idx)
         else if mm_offset (last fs) + mm_length (last fs) \<le> start then Inr ([], start_mm_idx)
         else rbind (if start_mm_idx < 0
                     then rbind (py_assert (- start_mm_idx \<le> py_len fs))
                            (\<lambda>_. Inr (py_len fs + start_mm_idx))
                     else Inr start_mm_idx)
                (\<lambda>i. let (ks, n) = mm_key_loop (drop (nat i) fs) start end in Inr (ks, i + n)))"

definition gen_lora_extra_hash_keys :: "request \<Rightarrow> extra_key list" where
  "gen_lora_extra_hash_keys r =
     (case lora_request_of r of None \<Rightarrow> [] | Some l \<Rightarrow> [KeyStr (lora_name l)])"

definition gen_prompt_embeds_extra_hash_keys ::
  "hash_env \<Rightarrow> request \<Rightarrow> int \<Rightarrow> int \<Rightarrow> extra_key list \<times> request" where
  "gen_prompt_embeds_extra_hash_keys env r start end =
     (case prompt_embeds r of
        None \<Rightarrow> ([], r)
      | Some rows \<Rightarrow>
          (case map_of (prompt_embeds_per_block_hashes r) (start, end) of
             Some h \<Rightarrow> ([KeyBytes h], r)
           | None \<Rightarrow>
               let h = embeds_sha256 env (concat (py_slice rows start end))
               in ([KeyBytes h],
                   r\<lparr>prompt_embeds_per_block_hashes :=
                       AList.update (start, end) h (prompt_embeds_per_block_hashes r)\<rparr>)))"

definition generate_block_hash_extra_keys ::
  "hash_env \<Rightarrow> request \<Rightarrow> int \<Rightarrow> int \<Rightarrow> int \<Rightarrow> (extra_key list option \<times> int \<times> request) res" where
  "generate_block_hash_extra_keys env r start end start_mm_idx =
     rbind (gen_mm_extra_hash_keys r start end start_mm_idx) (\<lambda>(mm_keys, new_idx).
       let lora_keys = gen_lora_extra_hash_keys r;
           salt_keys = (case cache_salt r of
                          None \<Rightarrow> []
                        | Some s \<Rightarrow> if start = 0 \<and> s \<noteq> [] then [KeyStr s] else []);
           (embed_keys, r') = gen_prompt_embeds_extra_hash_keys env r start end;
           keys = lora_keys @ mm_keys @ salt_keys @ embed_keys
       in Inr (if keys = [] then None else Some keys, new_idx, r'))"

section \<open>Block hashes\<close>

definition hash_block_tokens ::
  "hash_env \<Rightarrow> bytes option \<Rightarrow> int list \<Rightarrow> extra_key list option \<Rightarrow> bytes" where
  "hash_block_tokens env parent toks extra =
     hash_fn env ((case parent of
                     None \<Rightarrow> none_hash env
                   | Some p \<Rightarrow> if p = [] then none_hash env else p), toks, extra)"

function hash_loop ::
  "hash_env \<Rightarrow> int \<Rightarrow> int \<Rightarrow> int \<Rightarrow> int \<Rightarrow> bytes option \<Rightarrow> request \<Rightarrow> (bytes list \<times> request) res" where
  "hash_loop env bs n start mm_idx prev r =
     (if n < start + bs then Inr ([], r)
      else if bs \<le> 0 then Inl Diverges
      else rbind (generate_block_hash_extra_keys env r start (start + bs) mm_idx)
             (\<lambda>(extra, mm_idx', r').
                let h = hash_block_tokens env prev (py_slice (all_token_ids r') start (start + bs)) extra
                in rbind (hash_loop env bs n (start + bs) mm_idx' (Some h) r')
                     (\<lambda>(hs, r''). Inr (h # hs, r''))))"
  by pat_completeness auto
termination
  by (relation "measure (\<lambda>(env, bs, n, start, mm_idx, prev, r). nat (n - start))") auto

declare hash_loop.simps [simp del]

definition request_block_hasher :: "hash_env \<Rightarrow> int \<Rightarrow> request \<Rightarrow> (bytes list \<times> request) res" where
  "request_block_hasher env bs r =
     (let start = py_len (block_hashes r) * bs; n = num_tokens r
      in if n < start + bs then Inr ([], r)
         else let mm_idx = (if 0 < start then -1 else 0);
                  prev = (if block_hashes r = [] then None else Some (last (block_hashes r)))
              in hash_loop env bs n start mm_idx prev r)"

definition update_block_hashes :: "hash_env \<Rightarrow> request \<Rightarrow> request res" where
  "update_block_hashes env r =
     (case block_hasher r of
        None \<Rightarrow> Inr r
      | Some bs \<Rightarrow>
          rbind (request_block_hasher env bs r)
            (\<lambda>(hs, r'). Inr (r'\<lparr>block_hashes := block_hashes r' @ hs\<rparr>)))"

section \<open>Construction and token updates\<close>

definition get_skip_reading_prefix_cache ::
  "sampling_params option \<Rightarrow> pooling_params option \<Rightarrow> bool" where
  "get_skip_reading_prefix_cache sp pp =
     (case Option.bind sp sp_skip_reading_prefix_cache of
        Some b \<Rightarrow> b
      | None \<Rightarrow> (case Option.bind pp pp_skip_reading_prefix_cache of Some b \<Rightarrow> b | None \<Rightarrow> False))"

definition length_from_prompt_token_ids_or_embeds ::
  "int list option \<Rightarrow> bytes list option \<Rightarrow> int res" where
  "length_from_prompt_token_ids_or_embeds ids embeds =
     (case (ids, embeds) of
        (None, None) \<Rightarrow> Inl ValueError
      | (Some i, None) \<Rightarrow> Inr (py_len i)
      | (None, Some e) \<Rightarrow> Inr (py_len e)
      | (Some i, Some e) \<Rightarrow>
          if py_len i = py_len e then Inr (py_len i) else Inl ValueError)"

definition initial_limits ::
  "sampling_params option \<Rightarrow> pooling_params option \<Rightarrow> (int \<times> request_status \<times> string option) res" where
  "initial_limits sp pp =
     (case pp of
        Some _ \<Rightarrow> Inr (1, WAITING, None)
      | None \<Rightarrow>
          (case sp of
             None \<Rightarrow> Inl ValueError
           | Some s \<Rightarrow>
               (case sp_max_tokens s of
                  None \<Rightarrow> Inl AssertionError
                | Some m \<Rightarrow>
                    Inr (m, if sp_structured_outputs s then WAITING_FOR_STRUCTURED_OUTPUT_GRAMMAR
                            else WAITING, sp_kv_transfer_params s))))"

text \<open>The attributes \<^verbatim>\<open>__init__\<close> assigns, before it computes the first block hashes.\<close>

definition request_fields ::
  "int \<times> request_status \<times> string option \<Rightarrow> int \<Rightarrow> string \<Rightarrow> int list option \<Rightarrow>
   sampling_params option \<Rightarrow> pooling_params option \<Rightarrow> int \<Rightarrow> bytes list option \<Rightarrow> mm_feature list \<Rightarrow>
   lora_request option \<Rightarrow> string option \<Rightarrow> int \<Rightarrow> int option \<Rightarrow> bool \<Rightarrow> request" where
  "request_fields lim n rid ids sp pp arrival embeds mm lora salt prio hasher resume =
     \<lparr>request_id = rid, priority = prio, sampling_params_of = sp, pooling_params_of = pp,
      lora_request_of = lora,
      use_structured_output = (case sp of None \<Rightarrow> False | Some s \<Rightarrow> sp_structured_outputs s),
      arrival_time = arrival, status = fst (snd lim), events = [], stop_reason_of = None,
      kv_transfer_params = snd (snd lim), max_tokens = fst lim, prompt_token_ids = ids,
      prompt_embeds = embeds, prompt_embeds_per_block_hashes = [], num_prompt_tokens = n,
      output_token_ids = [],
      all_token_ids = (case ids of Some i \<Rightarrow> i | None \<Rightarrow> py_repeat 0 n),
      num_output_placeholders = 0, spec_token_ids = [], num_computed_tokens = 0,
      cache_salt = salt, mm_features = mm, num_preemptions = 0, nelssa_long_mask = False,
      head_size = None, tail_size = None, block_hashes = [], block_hasher = hasher,
      skip_reading_prefix_cache = get_skip_reading_prefix_cache sp pp,
      resumable = resume, streaming_queue = None\<rparr>"

definition request_init ::
  "hash_env \<Rightarrow> string \<Rightarrow> int list option \<Rightarrow> sampling_params option \<Rightarrow> pooling_params option \<Rightarrow>
   int \<Rightarrow> bytes list option \<Rightarrow> mm_feature list \<Rightarrow> lora_request option \<Rightarrow> string option \<Rightarrow> int \<Rightarrow>
   int option \<Rightarrow> bool \<Rightarrow> request res" where
  "request_init env rid ids sp pp arrival embeds mm lora salt prio hasher resume =
     rbind (initial_limits sp pp) (\<lambda>lim.
     rbind (length_from_prompt_token_ids_or_embeds ids embeds) (\<lambda>n.
       update_block_hashes env
         (request_fields lim n rid ids sp pp arrival embeds mm lora salt prio hasher resume)))"

definition append_output_token_ids :: "hash_env \<Rightarrow> int list \<Rightarrow> request \<Rightarrow> request res" where
  "append_output_token_ids env toks r =
     update_block_hashes env
       (r\<lparr>output_token_ids := output_token_ids r @ toks, all_token_ids := all_token_ids r @ toks\<rparr>)"

definition record_event :: "event_type \<Rightarrow> int \<Rightarrow> request \<Rightarrow> request" where
  "record_event e t r = r\<lparr>events := events r @ [(e, t)]\<rparr>"

definition request_take_events :: "request \<Rightarrow> (event_type \<times> int) list option \<times> request" where
  "request_take_events r =
     (if events r = [] then (None, r) else (Some (events r), r\<lparr>events := []\<rparr>))"

text \<open>
  \<^verbatim>\<open>Request.__lt__\<close>; \<open>ida\<close> and \<open>idb\<close> stand for \<^verbatim>\<open>id(self)\<close> and \<^verbatim>\<open>id(other)\<close>, and strings compare
  lexicographically by character code.
\<close>

fun str_less :: "string \<Rightarrow> string \<Rightarrow> bool" where
  "str_less xs [] = False"
| "str_less [] (y # ys) = True"
| "str_less (x # xs) (y # ys) =
     ((of_char x :: nat) < of_char y \<or> x = y \<and> str_less xs ys)"

definition request_lt :: "nat \<Rightarrow> request \<Rightarrow> nat \<Rightarrow> request \<Rightarrow> bool" where
  "request_lt ida a idb b =
     (if priority a \<noteq> priority b then priority a < priority b
      else if arrival_time a \<noteq> arrival_time b then arrival_time a < arrival_time b
      else if request_id a \<noteq> request_id b then str_less (request_id a) (request_id b)
      else ida < idb)"

section \<open>Hash lists at a coarser block size\<close>

text \<open>
  The scale is positive for positive block sizes; \<^verbatim>\<open>__len__\<close> divides by it, so a target block size of
  zero (which no spec has) is outside the model.
\<close>

datatype block_hash_list = Plain "bytes list" | Scaled "bytes list" int

definition BlockHashListWithBlockSize :: "bytes list \<Rightarrow> int \<Rightarrow> int \<Rightarrow> block_hash_list res" where
  "BlockHashListWithBlockSize hs hash_bs target_bs =
     (if hash_bs = 0 then Inl ZeroDivisionError
      else rbind (py_assert (target_bs mod hash_bs = 0)) (\<lambda>_. Inr (Scaled hs (target_bs div hash_bs))))"

fun bhl_len :: "block_hash_list \<Rightarrow> int" where
  "bhl_len (Plain hs) = py_len hs"
| "bhl_len (Scaled hs k) = py_len hs div k"

fun bhl_value_at :: "block_hash_list \<Rightarrow> int \<Rightarrow> bytes res" where
  "bhl_value_at (Plain hs) i = py_get hs i"
| "bhl_value_at (Scaled hs k) i = Inr (concat (py_slice hs (i * k) (i * k + k)))"

fun bhl_list :: "block_hash_list \<Rightarrow> bytes list" where
  "bhl_list (Plain hs) = hs"
| "bhl_list (Scaled hs k) =
     map (\<lambda>i. concat (py_slice hs (int i * k) (int i * k + k))) [0..<nat (py_len hs div k)]"

end
