(* ===== verification/Request_Hashing.thy ===== *)
theory Request_Hashing
  imports Request "HOL-Library.Countable"
begin

text \<open>
  What the block hasher of \<open>Request\<close> computes.  \<open>extra_keys_spec\<close> and \<open>block_hash_at\<close> say
  directly which keys and which chained hash belong to the block with a given index; the lemmas
  show that the loops, the running multi-modal index and the per-request cache of embedding hashes
  compute exactly that, one increment at a time, and that with a collision-free hash function
  equal block hashes mean equal prefixes.
\<close>

section \<open>Specification\<close>

definition mm_end :: "mm_feature \<Rightarrow> int" where
  "mm_end f = mm_offset f + mm_length f"

definition mm_overlap :: "int \<Rightarrow> int \<Rightarrow> mm_feature \<Rightarrow> bool" where
  "mm_overlap start end f \<longleftrightarrow> mm_offset f < end \<and> start < mm_end f"

definition mm_keys_spec :: "mm_feature list \<Rightarrow> int \<Rightarrow> int \<Rightarrow> extra_key list" where
  "mm_keys_spec fs start end =
     map (\<lambda>f. KeyTuple (mm_identifier f) (mm_offset f - start)) (filter (mm_overlap start end) fs)"

fun sorted_mm :: "mm_feature list \<Rightarrow> bool" where
  "sorted_mm [] = True"
| "sorted_mm (f # fs) = (0 \<le> mm_length f \<and> list_all (\<lambda>g. mm_end f \<le> mm_offset g) fs \<and> sorted_mm fs)"

definition idx_ok :: "mm_feature list \<Rightarrow> int \<Rightarrow> int \<Rightarrow> bool" where
  "idx_ok fs idx start \<longleftrightarrow>
     fs = [] \<or>
     (let i = (if idx < 0 then py_len fs + idx else idx)
      in 0 \<le> i \<and> i \<le> py_len fs \<and> list_all (\<lambda>f. mm_end f \<le> start) (take (nat i) fs))"

definition salt_keys :: "request \<Rightarrow> int \<Rightarrow> extra_key list" where
  "salt_keys r start =
     (case cache_salt r of None \<Rightarrow> [] | Some s \<Rightarrow> if start = 0 \<and> s \<noteq> [] then [KeyStr s] else [])"

definition embed_keys_spec :: "hash_env \<Rightarrow> request \<Rightarrow> int \<Rightarrow> int \<Rightarrow> extra_key list" where
  "embed_keys_spec env r start end =
     (case prompt_embeds r of
        None \<Rightarrow> []
      | Some rows \<Rightarrow> [KeyBytes (embeds_sha256 env (concat (py_slice rows start end)))])"

definition extra_keys_spec :: "hash_env \<Rightarrow> request \<Rightarrow> int \<Rightarrow> int \<Rightarrow> extra_key list option" where
  "extra_keys_spec env r start end =
     (let keys = gen_lora_extra_hash_keys r @ mm_keys_spec (mm_features r) start end
                 @ salt_keys r start @ embed_keys_spec env r start end
      in if keys = [] then None else Some keys)"

definition embeds_ok :: "hash_env \<Rightarrow> request \<Rightarrow> bool" where
  "embeds_ok env r \<longleftrightarrow>
     (case prompt_embeds r of
        None \<Rightarrow> True
      | Some rows \<Rightarrow>
          list_all (\<lambda>((a, b), h). h = embeds_sha256 env (concat (py_slice rows a b)))
            (prompt_embeds_per_block_hashes r))"

definition block_slice :: "int \<Rightarrow> request \<Rightarrow> nat \<Rightarrow> int list" where
  "block_slice bs r k = py_slice (all_token_ids r) (int k * bs) (int k * bs + bs)"

definition block_extra :: "hash_env \<Rightarrow> int \<Rightarrow> request \<Rightarrow> nat \<Rightarrow> extra_key list option" where
  "block_extra env bs r k = extra_keys_spec env r (int k * bs) (int k * bs + bs)"

fun block_hash_at :: "hash_env \<Rightarrow> int \<Rightarrow> request \<Rightarrow> nat \<Rightarrow> bytes" where
  "block_hash_at env bs r 0 =
     hash_block_tokens env None (block_slice bs r 0) (block_extra env bs r 0)"
| "block_hash_at env bs r (Suc k) =
     hash_block_tokens env (Some (block_hash_at env bs r k))
       (block_slice bs r (Suc k)) (block_extra env bs r (Suc k))"

definition mm_settled :: "int \<Rightarrow> request \<Rightarrow> bool" where
  "mm_settled start r \<longleftrightarrow> start \<le> 0 \<or> list_all (\<lambda>f. mm_end f \<le> start) (butlast (mm_features r))"

definition full_blocks :: "int \<Rightarrow> request \<Rightarrow> nat" where
  "full_blocks bs r = nat (num_tokens r div bs)"

definition hashes_ok :: "hash_env \<Rightarrow> int \<Rightarrow> request \<Rightarrow> bool" where
  "hashes_ok env bs r \<longleftrightarrow>
     0 < bs \<and> block_hasher r = Some bs \<and> sorted_mm (mm_features r) \<and> embeds_ok env r \<and>
     list_all (\<lambda>f. mm_end f \<le> num_tokens r) (mm_features r) \<and>
     block_hashes r = map (block_hash_at env bs r) [0..<full_blocks bs r] \<and>
     mm_settled (int (full_blocks bs r) * bs) r"

definition same_inputs :: "request \<Rightarrow> request \<Rightarrow> bool" where
  "same_inputs r r' \<longleftrightarrow> mm_features r' = mm_features r \<and> prompt_embeds r' = prompt_embeds r \<and>
     cache_salt r' = cache_salt r \<and> lora_request_of r' = lora_request_of r"

definition collision_free :: "hash_env \<Rightarrow> bool" where
  "collision_free env \<longleftrightarrow>
     inj (hash_fn env) \<and> (\<forall>x. hash_fn env x \<noteq> []) \<and> (\<forall>x. hash_fn env x \<noteq> none_hash env)"

definition prefix_free :: "hash_env \<Rightarrow> bool" where
  "prefix_free env \<longleftrightarrow> (\<forall>x y u v. hash_fn env x @ u = hash_fn env y @ v \<longrightarrow> hash_fn env x = hash_fn env y)"

text \<open>Concrete values on which the properties are applied: a collision-free unary code as hash.\<close>

instance extra_key :: countable
  by countable_datatype

definition demo_env :: hash_env where
  "demo_env = \<lparr>hash_fn = \<lambda>x. replicate (Suc (to_nat x)) 1 @ [0], embeds_sha256 = \<lambda>x. x, none_hash = []\<rparr>"

definition demo_sp :: sampling_params where
  "demo_sp = \<lparr>sp_max_tokens = Some 16, min_tokens = 0, eos_token_id = Some 2, stop_token_ids = [],
              repetition_detection = None, sp_skip_reading_prefix_cache = None,
              sp_kv_transfer_params = None, sp_structured_outputs = False\<rparr>"

definition demo_image :: "string \<Rightarrow> int \<Rightarrow> int \<Rightarrow> mm_feature" where
  "demo_image name off len =
     \<lparr>mm_identifier = name, mm_offset = off, mm_length = len, is_embed = None\<rparr>"

section \<open>Multi-modal keys\<close>

lemma mm_key_loop_spec:
  assumes "sorted_mm fs"
  shows "fst (mm_key_loop fs s e) = mm_keys_spec fs s e"
  using assms
proof (induction fs)
  case (Cons f fs)
  have later: "mm_offset f + mm_length f > e \<or> mm_offset f \<ge> e \<Longrightarrow> filter (mm_overlap s e) fs = []"
    using Cons.prems by (auto simp: filter_empty_conv mm_overlap_def mm_end_def list_all_iff)
  show ?case
  proof (cases "mm_offset f < e")
    case True
    then show ?thesis using Cons later
      by (auto simp: mm_keys_spec_def mm_overlap_def mm_end_def Let_def split: prod.splits)
  next
    case False
    then show ?thesis using later by (simp add: mm_keys_spec_def mm_overlap_def)
  qed
qed (simp add: mm_keys_spec_def)

lemma mm_key_loop_advance:
  "mm_key_loop fs s e = (ks, n) \<Longrightarrow> s \<le> e \<Longrightarrow>
   0 \<le> n \<and> n \<le> py_len fs \<and> list_all (\<lambda>f. mm_end f \<le> e) (take (nat n) fs)"
proof (induction fs arbitrary: ks n)
  case (Cons f fs)
  obtain ks' n' where rec: "mm_key_loop fs s e = (ks', n')" by (cases "mm_key_loop fs s e")
  have IH: "0 \<le> n'" "n' \<le> py_len fs" "list_all (\<lambda>f. mm_end f \<le> e) (take (nat n') fs)"
    using Cons.IH [OF rec] Cons.prems(2) by auto
  have n: "n = 0 \<or> n = n' + 1 \<and> mm_end f \<le> e"
    using Cons.prems rec by (auto simp: mm_end_def Let_def split: if_splits)
  have "0 \<le> py_len fs" by simp
  then show ?case using n IH by (auto simp: nat_add_distrib py_len_def)
qed simp

lemma mm_keys_spec_drop:
  assumes "list_all (\<lambda>f. mm_end f \<le> s) (take i fs)"
  shows "mm_keys_spec (drop i fs) s e = mm_keys_spec fs s e"
proof -
  have "filter (mm_overlap s e) (take i fs) = []"
    using assms by (auto simp: filter_empty_conv mm_overlap_def list_all_iff)
  then have "filter (mm_overlap s e) fs = filter (mm_overlap s e) (drop i fs)"
    by (metis append_take_drop_id filter_append self_append_conv2)
  then show ?thesis by (simp add: mm_keys_spec_def)
qed

lemma sorted_mm_drop: "sorted_mm fs \<Longrightarrow> sorted_mm (drop i fs)"
  by (induction fs arbitrary: i) (auto simp: drop_Cons split: nat.splits)

lemma sorted_mm_length: "sorted_mm fs \<Longrightarrow> f \<in> set fs \<Longrightarrow> 0 \<le> mm_length f"
  by (induction fs) auto

lemma sorted_mm_last:
  assumes "sorted_mm fs" "f \<in> set fs"
  shows "mm_end f \<le> mm_end (last fs)"
  using assms
proof (induction fs)
  case (Cons g fs)
  show ?case
  proof (cases "fs = []")
    case False
    then have "last fs \<in> set fs" by simp
    then have "mm_end g \<le> mm_offset (last fs)" "0 \<le> mm_length (last fs)"
      using Cons.prems(1) sorted_mm_length by (auto simp: list_all_iff)
    then show ?thesis using Cons False by (auto simp: mm_end_def)
  qed (use Cons.prems in auto)
qed simp

lemma mm_keys_spec_past:
  assumes "sorted_mm fs" "fs \<noteq> []" "mm_end (last fs) \<le> s"
  shows "mm_keys_spec fs s e = []"
  using sorted_mm_last [OF assms(1)] assms(3)
  by (fastforce simp: mm_keys_spec_def mm_overlap_def filter_empty_conv)

lemma idx_ok_mono: "idx_ok fs idx s \<Longrightarrow> s \<le> t \<Longrightarrow> idx_ok fs idx t"
  by (auto simp: idx_ok_def Let_def list_all_iff intro: order_trans)

lemma idx_ok_zero: "idx_ok fs 0 s"
  by (simp add: idx_ok_def)

lemma idx_ok_last: "list_all (\<lambda>f. mm_end f \<le> s) (butlast fs) \<Longrightarrow> idx_ok fs (-1) s"
  by (cases fs rule: rev_cases) (auto simp: idx_ok_def py_len_def nat_int_add)

lemma gen_mm_extra_hash_keys_spec:
  assumes "sorted_mm (mm_features r)" "idx_ok (mm_features r) idx s" "s \<le> e"
  shows "\<exists>idx'. gen_mm_extra_hash_keys r s e idx = Inr (mm_keys_spec (mm_features r) s e, idx')
               \<and> idx_ok (mm_features r) idx' e"
proof (cases "mm_features r = [] \<or> mm_end (last (mm_features r)) \<le> s")
  case True
  then have "mm_keys_spec (mm_features r) s e = []"
    using assms(1) mm_keys_spec_past by (cases "mm_features r = []") (auto simp: mm_keys_spec_def)
  moreover have "gen_mm_extra_hash_keys r s e idx = Inr ([], idx)"
    using True by (auto simp: gen_mm_extra_hash_keys_def mm_end_def Let_def)
  ultimately show ?thesis using idx_ok_mono [OF assms(2,3)] by simp
next
  case False
  define fs where "fs = mm_features r"
  define i where "i = (if idx < 0 then py_len fs + idx else idx)"
  have i: "0 \<le> i" "i \<le> py_len fs" "list_all (\<lambda>f. mm_end f \<le> s) (take (nat i) fs)"
    using assms(2) False by (auto simp: idx_ok_def fs_def i_def Let_def)
  obtain ks n where loop: "mm_key_loop (drop (nat i) fs) s e = (ks, n)"
    by (cases "mm_key_loop (drop (nat i) fs) s e")
  have ks: "ks = mm_keys_spec fs s e"
    using mm_key_loop_spec [OF sorted_mm_drop, of fs "nat i" s e] mm_keys_spec_drop [OF i(3)]
      assms(1) loop by (simp add: fs_def)
  have n: "0 \<le> n" "n \<le> py_len (drop (nat i) fs)"
    "list_all (\<lambda>f. mm_end f \<le> e) (take (nat n) (drop (nat i) fs))"
    using mm_key_loop_advance [OF loop assms(3)] by auto
  have "take (nat (i + n)) fs = take (nat i) fs @ take (nat n) (drop (nat i) fs)"
    using i(1) n(1) by (simp add: nat_add_distrib take_add)
  then have "idx_ok fs (i + n) e"
    using i n assms(3) by (auto simp: idx_ok_def list_all_iff py_len_def intro: order_trans)
  moreover have "gen_mm_extra_hash_keys r s e idx = Inr (ks, i + n)"
    using False loop i(1)
    by (auto simp: gen_mm_extra_hash_keys_def mm_end_def Let_def fs_def i_def py_assert_def rbind_def)
  ultimately show ?thesis by (simp add: ks fs_def)
qed

section \<open>The hashing loop\<close>

lemma set_alist_update: "x \<in> set (AList.update k v al) \<Longrightarrow> x = (k, v) \<or> x \<in> set al"
  by (induction al) (auto split: if_splits)

lemma less_full_iff:
  assumes "0 < (bs::int)"
  shows "k < nat (n div bs) \<longleftrightarrow> int k * bs + bs \<le> n"
  using le_div_iff_mult_le [OF assms, of "int k + 1" n]
  by (auto simp: zless_nat_eq_int_zless algebra_simps)

definition same_but_embeds :: "request \<Rightarrow> request \<Rightarrow> bool" where
  "same_but_embeds r r' \<longleftrightarrow> (\<exists>c. r' = r\<lparr>prompt_embeds_per_block_hashes := c\<rparr>)"

lemma same_but_embeds_upd [simp]: "same_but_embeds r (r\<lparr>prompt_embeds_per_block_hashes := c\<rparr>)"
  by (auto simp: same_but_embeds_def)

lemma same_but_embeds_refl [simp]: "same_but_embeds r r"
  using same_but_embeds_upd [of r "prompt_embeds_per_block_hashes r"] by simp

lemma same_but_embeds_trans:
  "same_but_embeds r r' \<Longrightarrow> same_but_embeds r' r'' \<Longrightarrow> same_but_embeds r r''"
  by (auto simp: same_but_embeds_def)

lemma same_but_embeds_fields:
  assumes "same_but_embeds r r'"
  shows "all_token_ids r' = all_token_ids r" "mm_features r' = mm_features r"
    "prompt_embeds r' = prompt_embeds r" "cache_salt r' = cache_salt r"
    "lora_request_of r' = lora_request_of r" "block_hashes r' = block_hashes r"
    "block_hasher r' = block_hasher r"
  using assms by (auto simp: same_but_embeds_def)

lemma block_hash_at_cong:
  assumes "\<And>i. i \<le> k \<Longrightarrow> block_slice bs r i = block_slice bs r' i"
    and "\<And>i. i \<le> k \<Longrightarrow> block_extra env bs r i = block_extra env bs r' i"
  shows "block_hash_at env bs r k = block_hash_at env bs r' k"
  using assms by (induction k) auto

lemma extra_keys_spec_cong:
  assumes "mm_features r' = mm_features r" "prompt_embeds r' = prompt_embeds r"
    "cache_salt r' = cache_salt r" "lora_request_of r' = lora_request_of r"
  shows "extra_keys_spec env r' s e = extra_keys_spec env r s e"
  using assms
  by (simp add: extra_keys_spec_def gen_lora_extra_hash_keys_def salt_keys_def embed_keys_spec_def)

lemma block_hash_at_same:
  "same_but_embeds r r' \<Longrightarrow> block_hash_at env bs r' = block_hash_at env bs r"
  by (rule ext, rule block_hash_at_cong)
    (simp_all add: block_slice_def block_extra_def same_but_embeds_fields
      extra_keys_spec_cong [of r' r])

lemma gen_prompt_embeds_spec:
  assumes "embeds_ok env r"
  shows "\<exists>r'. gen_prompt_embeds_extra_hash_keys env r s e = (embed_keys_spec env r s e, r')
              \<and> same_but_embeds r r' \<and> embeds_ok env r'"
proof (cases "prompt_embeds r")
  case (Some rows)
  have entry: "map_of (prompt_embeds_per_block_hashes r) (s, e) = Some h \<Longrightarrow>
      h = embeds_sha256 env (concat (py_slice rows s e))" for h
    using assms Some by (fastforce simp: embeds_ok_def list_all_iff dest: map_of_SomeD)
  have upd: "list_all (\<lambda>((a, b), h). h = embeds_sha256 env (concat (py_slice rows a b)))
      (AList.update (s, e) (embeds_sha256 env (concat (py_slice rows s e)))
        (prompt_embeds_per_block_hashes r))"
    using assms Some set_alist_update by (fastforce simp: embeds_ok_def list_all_iff)
  show ?thesis using assms Some entry upd
    by (auto simp: gen_prompt_embeds_extra_hash_keys_def embed_keys_spec_def Let_def embeds_ok_def
        split: option.splits)
qed (use assms in \<open>simp add: gen_prompt_embeds_extra_hash_keys_def embed_keys_spec_def\<close>)

lemma generate_block_hash_extra_keys_spec:
  assumes "sorted_mm (mm_features r)" "idx_ok (mm_features r) idx s" "s \<le> e" "embeds_ok env r"
  shows "\<exists>idx' r'. generate_block_hash_extra_keys env r s e idx
                    = Inr (extra_keys_spec env r s e, idx', r')
                  \<and> idx_ok (mm_features r) idx' e \<and> same_but_embeds r r' \<and> embeds_ok env r'"
proof -
  obtain idx' where mm: "gen_mm_extra_hash_keys r s e idx = Inr (mm_keys_spec (mm_features r) s e, idx')"
    "idx_ok (mm_features r) idx' e"
    using gen_mm_extra_hash_keys_spec [OF assms(1-3)] by blast
  obtain r' where em: "gen_prompt_embeds_extra_hash_keys env r s e = (embed_keys_spec env r s e, r')"
    "same_but_embeds r r'" "embeds_ok env r'"
    using gen_prompt_embeds_spec [OF assms(4)] by blast
  show ?thesis using mm em
    by (simp add: generate_block_hash_extra_keys_def extra_keys_spec_def salt_keys_def Let_def rbind_def)
qed

lemma hash_loop_spec:
  assumes "0 < bs" "k \<le> nat (n div bs)" "sorted_mm (mm_features r)" "embeds_ok env r"
    and "idx_ok (mm_features r) idx (int k * bs)"
    and "prev = (if k = 0 then None else Some (block_hash_at env bs r (k - 1)))"
  shows "\<exists>r'. hash_loop env bs n (int k * bs) idx prev r
              = Inr (map (block_hash_at env bs r) [k..<nat (n div bs)], r')
            \<and> same_but_embeds r r' \<and> embeds_ok env r'"
  using assms
proof (induction "nat (n div bs) - k" arbitrary: k r idx prev)
  case 0
  then have "n < int k * bs + bs" using less_full_iff [of bs k n] by auto
  then show ?case using 0 by (subst hash_loop.simps) auto
next
  case (Suc m)
  let ?s = "int k * bs" and ?h = "block_hash_at env bs r k"
  have k: "k < nat (n div bs)" using Suc.hyps(2) by linarith
  have full: "?s + bs \<le> n" using k less_full_iff [OF Suc.prems(1)] by simp
  obtain idx' r1 where keys: "generate_block_hash_extra_keys env r ?s (?s + bs) idx
      = Inr (extra_keys_spec env r ?s (?s + bs), idx', r1)"
    and idx': "idx_ok (mm_features r) idx' (?s + bs)" and r1: "same_but_embeds r r1" "embeds_ok env r1"
    using generate_block_hash_extra_keys_spec [of r idx ?s "?s + bs" env] Suc.prems by auto
  note f = same_but_embeds_fields [OF r1(1)] and same = block_hash_at_same [OF r1(1), of env bs]
  have h: "hash_block_tokens env prev (py_slice (all_token_ids r1) ?s (?s + bs))
      (extra_keys_spec env r ?s (?s + bs)) = ?h"
    using Suc.prems(6) by (cases k) (simp_all add: f block_slice_def block_extra_def)
  have next_start: "?s + bs = int (Suc k) * bs" by (simp add: algebra_simps)
  have "\<exists>r'. hash_loop env bs n (int (Suc k) * bs) idx' (Some ?h) r1
              = Inr (map (block_hash_at env bs r1) [Suc k..<nat (n div bs)], r')
            \<and> same_but_embeds r1 r' \<and> embeds_ok env r'"
    using Suc.hyps(2) k Suc.prems r1 idx'
    by (intro Suc.hyps(1)) (auto simp: f same next_start)
  then obtain r' where rest: "hash_loop env bs n (?s + bs) idx' (Some ?h) r1
      = Inr (map (block_hash_at env bs r) [Suc k..<nat (n div bs)], r')"
    "same_but_embeds r1 r'" "embeds_ok env r'" by (auto simp: same next_start)
  have "hash_loop env bs n ?s idx prev r = Inr (?h # map (block_hash_at env bs r) [Suc k..<nat (n div bs)], r')"
    using full Suc.prems(1)
    by (subst hash_loop.simps) (simp add: keys h rest(1) Let_def rbind_def)
  then show ?case
    using rest(2,3) same_but_embeds_trans [OF r1(1)] k by (auto simp: upt_conv_Cons)
qed

lemma update_block_hashes_spec:
  assumes "0 < bs" "block_hasher r = Some bs" "sorted_mm (mm_features r)" "embeds_ok env r"
    and "block_hashes r = map (block_hash_at env bs r) [0..<k]" "k \<le> full_blocks bs r"
    and "mm_settled (int k * bs) r"
  shows "\<exists>c. update_block_hashes env r =
               Inr (r\<lparr>prompt_embeds_per_block_hashes := c,
                      block_hashes := map (block_hash_at env bs r) [0..<full_blocks bs r]\<rparr>)
           \<and> embeds_ok env (r\<lparr>prompt_embeds_per_block_hashes := c\<rparr>)"
proof (cases "k < full_blocks bs r")
  case True
  define idx :: int where "idx = (if 0 < int k * bs then -1 else 0)"
  have idx: "idx_ok (mm_features r) idx (int k * bs)"
    using assms(7) idx_ok_zero idx_ok_last by (auto simp: idx_def mm_settled_def)
  obtain r' where loop: "hash_loop env bs (num_tokens r) (int k * bs) idx
        (if k = 0 then None else Some (block_hash_at env bs r (k - 1))) r
      = Inr (map (block_hash_at env bs r) [k..<full_blocks bs r], r')"
    "same_but_embeds r r'" "embeds_ok env r'"
    using hash_loop_spec [of bs k "num_tokens r" r env idx, OF assms(1) _ assms(3,4) idx refl]
      assms(6) by (auto simp: full_blocks_def)
  have "int k * bs + bs \<le> num_tokens r"
    using True less_full_iff [OF assms(1)] by (simp add: full_blocks_def)
  moreover have "(if block_hashes r = [] then None else Some (last (block_hashes r)))
      = (if k = 0 then None else Some (block_hash_at env bs r (k - 1)))"
    by (simp add: assms(5) last_map)
  moreover have "py_len (block_hashes r) = int k" by (simp add: assms(5) py_len_def)
  ultimately have "request_block_hasher env bs r
      = Inr (map (block_hash_at env bs r) [k..<full_blocks bs r], r')"
    using loop(1) by (simp add: request_block_hasher_def Let_def idx_def)
  moreover have "block_hashes r' = map (block_hash_at env bs r) [0..<k]"
    using same_but_embeds_fields [OF loop(2)] assms(5) by simp
  moreover have "[0..<full_blocks bs r] = [0..<k] @ [k..<full_blocks bs r]"
    using assms(6) upt_add_eq_append [of 0 k "full_blocks bs r - k"] by simp
  ultimately show ?thesis
    using loop(2,3) assms(2)
    by (auto simp: update_block_hashes_def rbind_def same_but_embeds_def)
next
  case False
  then have k: "k = full_blocks bs r" using assms(6) by simp
  have "num_tokens r < int k * bs + bs"
    using False less_full_iff [OF assms(1), of k "num_tokens r"] by (simp add: full_blocks_def)
  then have "update_block_hashes env r = Inr r"
    using assms(2,5) by (simp add: update_block_hashes_def request_block_hasher_def py_len_def
        rbind_def Let_def)
  then show ?thesis
    using assms(4,5) k by (intro exI [of _ "prompt_embeds_per_block_hashes r"]) simp
qed

lemma block_slice_append:
  assumes "0 < bs" "k < full_blocks bs r" "all_token_ids r' = all_token_ids r @ toks"
  shows "block_slice bs r' k = block_slice bs r k"
proof -
  have "int k * bs + bs \<le> py_len (all_token_ids r)"
    using assms(1,2) less_full_iff [of bs] by (simp add: full_blocks_def num_tokens_def)
  then show ?thesis
    using assms(1,3) by (auto simp: block_slice_def idx_simps py_len_def nat_le_iff)
qed

lemma block_hash_at_append:
  assumes "0 < bs" "k < full_blocks bs r" "all_token_ids r' = all_token_ids r @ toks"
    and "mm_features r' = mm_features r" "prompt_embeds r' = prompt_embeds r"
    "cache_salt r' = cache_salt r" "lora_request_of r' = lora_request_of r"
  shows "block_hash_at env bs r' k = block_hash_at env bs r k"
  using assms
  by (intro block_hash_at_cong) (simp_all add: block_slice_append block_extra_def extra_keys_spec_cong [of r' r])

lemma block_hash_at_irrelevant [simp]:
  "block_hash_at env bs (r\<lparr>prompt_embeds_per_block_hashes := c, block_hashes := hs\<rparr>)
     = block_hash_at env bs r"
  by (rule ext, rule block_hash_at_cong)
    (simp_all add: block_slice_def block_extra_def extra_keys_spec_def gen_lora_extra_hash_keys_def
      salt_keys_def embed_keys_spec_def)

lemma full_blocks_irrelevant [simp]:
  "full_blocks bs (r\<lparr>prompt_embeds_per_block_hashes := c, block_hashes := hs\<rparr>) = full_blocks bs r"
  by (simp add: full_blocks_def num_tokens_def)

lemma embeds_ok_block_hashes [simp]:
  "embeds_ok env (r\<lparr>block_hashes := hs\<rparr>) = embeds_ok env r"
  by (simp add: embeds_ok_def split: option.split)

lemma full_blocks_mult_le: "0 < bs \<Longrightarrow> int (full_blocks bs r) * bs \<le> num_tokens r"
  using le_div_iff_mult_le [of bs "num_tokens r div bs" "num_tokens r"]
  by (simp add: full_blocks_def num_tokens_def pos_imp_zdiv_nonneg_iff)

lemma mm_settled_later:
  assumes "0 < bs" "list_all (\<lambda>f. mm_end f \<le> num_tokens r) (mm_features r)"
    and "mm_settled (int (full_blocks bs r) * bs) r" "full_blocks bs r \<le> m"
    and "mm_features r' = mm_features r"
  shows "mm_settled (int m * bs) r'"
proof (cases "full_blocks bs r = 0 \<and> 0 < m")
  case True
  then have "num_tokens r < bs" using less_full_iff [OF assms(1), of 0 "num_tokens r"] by (auto simp: full_blocks_def)
  moreover have "bs \<le> int m * bs" using True assms(1) by simp
  ultimately have "\<forall>f\<in>set (mm_features r). mm_end f \<le> int m * bs"
    using assms(2) by (auto simp: list_all_iff)
  then show ?thesis using assms(5) by (auto simp: mm_settled_def list_all_iff dest: in_set_butlastD)
next
  case False
  have "int (full_blocks bs r) * bs \<le> int m * bs" using assms(1,4) by simp
  then show ?thesis using False assms
    by (auto simp: mm_settled_def list_all_iff mult_le_0_iff intro: order_trans)
qed

section \<open>Incremental hashing\<close>

lemma append_output_token_ids_ok:
  assumes "hashes_ok env bs r"
  shows "\<exists>r'. append_output_token_ids env toks r = Inr r' \<and> hashes_ok env bs r'
              \<and> all_token_ids r' = all_token_ids r @ toks \<and> same_inputs r r'"
proof -
  define r1 where
    "r1 = r\<lparr>output_token_ids := output_token_ids r @ toks, all_token_ids := all_token_ids r @ toks\<rparr>"
  have bs: "0 < bs" using assms by (simp add: hashes_ok_def)
  have more: "num_tokens r \<le> num_tokens r1" by (simp add: r1_def num_tokens_def)
  then have fb: "full_blocks bs r \<le> full_blocks bs r1"
    using bs by (auto simp: full_blocks_def intro!: nat_mono zdiv_mono1)
  have old: "block_hashes r1 = map (block_hash_at env bs r1) [0..<full_blocks bs r]"
    using assms bs block_hash_at_append [of bs _ r r1 toks env] by (auto simp: hashes_ok_def r1_def)
  have emb: "embeds_ok env r1"
    using assms by (auto simp: hashes_ok_def embeds_ok_def r1_def split: option.splits)
  have settled: "mm_settled (int m * bs) r1" if "full_blocks bs r \<le> m" for m
    using assms bs that mm_settled_later [of bs r m r1] by (auto simp: hashes_ok_def r1_def)
  obtain c where c: "update_block_hashes env r1 =
      Inr (r1\<lparr>prompt_embeds_per_block_hashes := c,
              block_hashes := map (block_hash_at env bs r1) [0..<full_blocks bs r1]\<rparr>)"
    "embeds_ok env (r1\<lparr>prompt_embeds_per_block_hashes := c\<rparr>)"
    using update_block_hashes_spec [OF bs _ _ emb old fb settled] assms
    by (auto simp: hashes_ok_def r1_def)
  have "list_all (\<lambda>f. mm_end f \<le> num_tokens r1) (mm_features r1)"
    using assms more by (auto simp: hashes_ok_def list_all_iff r1_def intro: order_trans)
  then have "hashes_ok env bs (r1\<lparr>prompt_embeds_per_block_hashes := c,
              block_hashes := map (block_hash_at env bs r1) [0..<full_blocks bs r1]\<rparr>)"
    using assms c(2) settled [OF fb]
    by (auto simp: hashes_ok_def num_tokens_def mm_settled_def r1_def)
  then show ?thesis using c(1) by (auto simp: append_output_token_ids_def r1_def same_inputs_def)
qed

lemma request_init_ok:
  assumes init: "initial_limits sp pp = Inr lim"
    and len: "length_from_prompt_token_ids_or_embeds ids embeds = Inr n"
    and bs: "0 < bs" and mm: "sorted_mm mm" "list_all (\<lambda>f. mm_end f \<le> n) mm"
    "list_all (\<lambda>f. mm_end f \<le> n div bs * bs) (butlast mm)"
  shows "\<exists>r. request_init env rid ids sp pp arrival embeds mm lora salt prio (Some bs) resume = Inr r
           \<and> hashes_ok env bs r \<and> all_token_ids r = (case ids of Some i \<Rightarrow> i | None \<Rightarrow> py_repeat 0 n)
           \<and> mm_features r = mm \<and> lora_request_of r = lora \<and> cache_salt r = salt
           \<and> prompt_embeds r = embeds"
proof -
  define r where "r = request_fields lim n rid ids sp pp arrival embeds mm lora salt prio (Some bs) resume"
  have fields: "block_hasher r = Some bs" "mm_features r = mm" "block_hashes r = []"
    "all_token_ids r = (case ids of Some i \<Rightarrow> i | None \<Rightarrow> py_repeat 0 n)" "embeds_ok env r"
    "lora_request_of r = lora" "cache_salt r = salt" "prompt_embeds r = embeds"
    by (simp_all add: r_def request_fields_def embeds_ok_def split: option.split)
  have n: "num_tokens r = n" "0 \<le> n"
    using len by (auto simp: num_tokens_def fields(4) length_from_prompt_token_ids_or_embeds_def
        split: option.splits if_splits)
  obtain c where c: "update_block_hashes env r =
      Inr (r\<lparr>prompt_embeds_per_block_hashes := c,
             block_hashes := map (block_hash_at env bs r) [0..<full_blocks bs r]\<rparr>)"
    "embeds_ok env (r\<lparr>prompt_embeds_per_block_hashes := c\<rparr>)"
    using update_block_hashes_spec [OF bs, of r env 0] fields mm by (auto simp: mm_settled_def)
  have "int (full_blocks bs r) = n div bs"
    using n bs by (simp add: full_blocks_def pos_imp_zdiv_nonneg_iff)
  then have "hashes_ok env bs (r\<lparr>prompt_embeds_per_block_hashes := c,
      block_hashes := map (block_hash_at env bs r) [0..<full_blocks bs r]\<rparr>)"
    using fields n c(2) bs mm by (auto simp: hashes_ok_def num_tokens_def mm_settled_def)
  then show ?thesis
    using c(1) init len fields by (auto simp: request_init_def rbind_def r_def [symmetric])
qed

lemma append_chunks_ok:
  assumes "hashes_ok env bs r"
  shows "\<exists>r'. rfold (append_output_token_ids env) chunks r = Inr r' \<and> hashes_ok env bs r'
              \<and> all_token_ids r' = all_token_ids r @ concat chunks \<and> same_inputs r r'"
  using assms
proof (induction chunks arbitrary: r)
  case (Cons c cs)
  obtain r1 where r1: "append_output_token_ids env c r = Inr r1" "hashes_ok env bs r1"
    "all_token_ids r1 = all_token_ids r @ c" "same_inputs r r1"
    using append_output_token_ids_ok [OF Cons.prems] by blast
  from Cons.IH [OF r1(2)] show ?case using r1 by (auto simp: rbind_def same_inputs_def)
qed (simp add: same_inputs_def)

lemma hashes_ok_unique:
  assumes "hashes_ok env bs r" "hashes_ok env bs r'" "same_inputs r r'"
    "all_token_ids r = all_token_ids r'"
  shows "block_hashes r = block_hashes r'"
proof -
  have "full_blocks bs r = full_blocks bs r'" using assms(4) by (simp add: full_blocks_def num_tokens_def)
  moreover have "block_hash_at env bs r = block_hash_at env bs r'"
    by (rule ext, rule block_hash_at_cong)
      (use assms(3,4) in \<open>simp_all add: block_slice_def block_extra_def same_inputs_def
        extra_keys_spec_cong [of r' r]\<close>)
  ultimately show ?thesis using assms(1,2) by (simp add: hashes_ok_def)
qed

text \<open>
  The requests the code makes: constructed with a block hasher, then extended by output tokens.  The
  multi-modal items of the prompt come in order, end inside it, and all but the last end inside its
  full blocks.
\<close>

inductive hashed_request :: "hash_env \<Rightarrow> int \<Rightarrow> request \<Rightarrow> bool" for env bs where
  created: "request_init env rid ids sp pp arrival embeds mm lora salt prio (Some bs) resume = Inr r \<Longrightarrow>
    length_from_prompt_token_ids_or_embeds ids embeds = Inr n \<Longrightarrow> 0 < bs \<Longrightarrow> sorted_mm mm \<Longrightarrow>
    list_all (\<lambda>f. mm_end f \<le> n) mm \<Longrightarrow> list_all (\<lambda>f. mm_end f \<le> n div bs * bs) (butlast mm) \<Longrightarrow> hashed_request env bs r"
| appended: "hashed_request env bs r \<Longrightarrow> append_output_token_ids env toks r = Inr r' \<Longrightarrow> hashed_request env bs r'"

lemma hashed_request_ok: "hashed_request env bs r \<Longrightarrow> hashes_ok env bs r"
proof (induction rule: hashed_request.induct)
  case (created rid ids sp pp arrival embeds mm lora salt prio resume r n)
  obtain lim where lim: "initial_limits sp pp = Inr lim"
    using created(1) by (auto simp: request_init_def rbind_eq_Inr)
  show ?case
    using request_init_ok [OF lim created(2-6), of env rid arrival lora salt prio resume] created(1) by auto
next
  case (appended r toks r')
  then show ?case using append_output_token_ids_ok [OF appended(3), of toks] by auto
qed

section \<open>Equal hashes mean equal prefixes\<close>

lemma hash_block_tokens_inj:
  assumes "collision_free env" "p \<noteq> Some []" "p' \<noteq> Some []" "p \<noteq> Some (none_hash env)"
    "p' \<noteq> Some (none_hash env)" "hash_block_tokens env p t e = hash_block_tokens env p' t' e'"
  shows "p = p' \<and> t = t' \<and> e = e'"
  using assms by (auto simp: hash_block_tokens_def collision_free_def dest!: injD split: option.splits)

lemma block_hash_at_range:
  assumes "collision_free env"
  shows "block_hash_at env bs r k \<noteq> [] \<and> block_hash_at env bs r k \<noteq> none_hash env"
  using assms by (cases k) (auto simp: hash_block_tokens_def collision_free_def)

lemma block_hash_at_inj:
  assumes "collision_free env" "block_hash_at env bs r i = block_hash_at env bs r' j"
  shows "i = j \<and> (\<forall>k\<le>i. block_slice bs r k = block_slice bs r' k
                        \<and> block_extra env bs r k = block_extra env bs r' k)"
  using assms(2)
proof (induction i arbitrary: j)
  case 0
  then show ?case
    using block_hash_at_range [OF assms(1)]
    by (cases j) (auto dest!: hash_block_tokens_inj [OF assms(1), rotated -1])
next
  case (Suc i)
  then show ?case
    using block_hash_at_range [OF assms(1)]
    by (cases j) (auto simp: le_Suc_eq dest!: hash_block_tokens_inj [OF assms(1), rotated -1])
qed

lemma block_slices_prefix:
  assumes "0 \<le> bs" "\<forall>k\<le>i. block_slice bs r k = block_slice bs r' k"
  shows "take (nat bs * Suc i) (all_token_ids r) = take (nat bs * Suc i) (all_token_ids r')"
  using assms(2)
proof (induction i)
  case 0
  then show ?case using assms(1) by (simp add: block_slice_def idx_simps)
next
  case (Suc i)
  have split: "take (nat bs * Suc (Suc i)) xs
      = take (nat bs * Suc i) xs @ py_slice xs (int (Suc i) * bs) (int (Suc i) * bs + bs)" for xs :: "int list"
  proof -
    have "py_slice xs (int (Suc i) * bs) (int (Suc i) * bs + bs)
        = take (nat bs) (drop (nat bs * Suc i) xs)"
      using assms(1) by (simp add: idx_simps nat_mult_distrib nat_add_distrib mult.commute del: of_nat_Suc)
    then show ?thesis by (simp add: take_add [symmetric] add.commute)
  qed
  have "take (nat bs * Suc i) (all_token_ids r) = take (nat bs * Suc i) (all_token_ids r')"
    using Suc by simp
  moreover have "block_slice bs r (Suc i) = block_slice bs r' (Suc i)" using Suc.prems by simp
  ultimately show ?case by (simp only: split block_slice_def)
qed

lemma block_hashes_nth:
  assumes "hashes_ok env bs r" "i < length (block_hashes r)"
  shows "block_hashes r ! i = block_hash_at env bs r i"
  using assms by (simp add: hashes_ok_def)

lemma concat_prefix_free:
  assumes "prefix_free env" "length hs = length hs'" "set hs \<union> set hs' \<subseteq> range (hash_fn env)"
    "concat hs = concat hs'"
  shows "hs = hs'"
  using assms(2-4)
proof (induction hs hs' rule: list_induct2)
  case (Cons x xs y ys)
  obtain a b where "x = hash_fn env a" "y = hash_fn env b" using Cons.prems(1) by auto
  then have "x = y" using Cons.prems(2) assms(1) unfolding prefix_free_def by (metis concat.simps(2))
  then show ?case using Cons by simp
qed simp

lemma block_hash_at_in_range: "block_hash_at env bs r k \<in> range (hash_fn env)"
  by (cases k) (auto simp: hash_block_tokens_def)

lemma py_slice_scaled:
  assumes "0 < k" "0 \<le> i" "i < py_len hs div k"
  shows "py_slice hs (i * k) (i * k + k) = take (nat k) (drop (nat i * nat k) hs)"
    and "nat i * nat k + nat k \<le> length hs"
proof -
  show "py_slice hs (i * k) (i * k + k) = take (nat k) (drop (nat i * nat k) hs)"
    using assms by (simp add: idx_simps nat_mult_distrib nat_add_distrib)
  have "(i + 1) * k \<le> py_len hs" using assms le_div_iff_mult_le [of k "i + 1" "py_len hs"] by simp
  moreover have "int (nat i * nat k + nat k) = (i + 1) * k"
    using assms(1,2) by (simp add: algebra_simps)
  ultimately have "int (nat i * nat k + nat k) \<le> int (length hs)" by (simp add: py_len_def)
  then show "nat i * nat k + nat k \<le> length hs" by linarith
qed

lemma replicate_terminated:
  "replicate m (1::byte) @ 0 # u = replicate n 1 @ 0 # v \<Longrightarrow> m = n"
proof (induction m arbitrary: n)
  case 0
  then show ?case by (cases n) auto
next
  case (Suc m)
  then show ?case by (cases n) auto
qed

lemma demo_env_hash_parse:
  assumes "hash_fn demo_env x @ u = hash_fn demo_env y @ v"
  shows "x = y"
proof -
  have "replicate (Suc (to_nat x)) (1::byte) @ 0 # u = replicate (Suc (to_nat y)) 1 @ 0 # v"
    using assms by (simp add: demo_env_def)
  then have "Suc (to_nat x) = Suc (to_nat y)" by (rule replicate_terminated)
  then show ?thesis by simp
qed

lemma demo_env_collision_free: "collision_free demo_env"
proof -
  have "inj (hash_fn demo_env)"
    by (rule injI, rule demo_env_hash_parse [where u = "[]" and v = "[]"]) simp
  moreover have "hash_fn demo_env x \<noteq> []" for x by (simp add: demo_env_def)
  moreover have "none_hash demo_env = []" by (simp add: demo_env_def)
  ultimately show ?thesis by (simp add: collision_free_def)
qed

lemma demo_env_prefix_free: "prefix_free demo_env"
  unfolding prefix_free_def using demo_env_hash_parse by blast

lemma len_min: "a + c \<le> n \<Longrightarrow> min (n - a) c = (c::nat)"
  by simp

lemma last_of_group:
  assumes "0 < (c::nat)"
  shows "a * c + c - 1 = b * c + c - 1 \<longleftrightarrow> a = b" "Suc (a * c + c - 1) = c * Suc a"
    "a * c + c \<le> n \<Longrightarrow> a * c + c - 1 < n"
proof -
  obtain d where c: "c = Suc d" using assms by (cases c) auto
  show "a * c + c - 1 = b * c + c - 1 \<longleftrightarrow> a = b" unfolding c by (simp del: mult_Suc_right)
  show "Suc (a * c + c - 1) = c * Suc a" unfolding c by simp
  show "a * c + c \<le> n \<Longrightarrow> a * c + c - 1 < n" unfolding c by simp
qed

lemma scaled_values_inj:
  assumes "prefix_free env" "0 < k" "0 \<le> i" "i < py_len hs div k" "0 \<le> j" "j < py_len hs' div k"
    "set hs \<union> set hs' \<subseteq> range (hash_fn env)"
    "bhl_value_at (Scaled hs k) i = bhl_value_at (Scaled hs' k) j"
  shows "hs ! (nat i * nat k + nat k - 1) = hs' ! (nat j * nat k + nat k - 1)"
proof -
  note sl = py_slice_scaled [OF assms(2,3,4)] and sl' = py_slice_scaled [OF assms(2,5,6)]
  let ?x = "take (nat k) (drop (nat i * nat k) hs)" and ?y = "take (nat k) (drop (nat j * nat k) hs')"
  have "concat ?x = concat ?y" using assms(8) by (simp add: sl(1) sl'(1))
  moreover have "set ?x \<union> set ?y \<subseteq> range (hash_fn env)"
    using assms(7) by (auto dest!: in_set_takeD in_set_dropD)
  moreover have len: "length ?x = nat k" "length ?y = nat k" 
    using len_min [OF sl(2)] len_min [OF sl'(2)] by simp_all
  ultimately have "?x = ?y" by (intro concat_prefix_free [OF assms(1)]) auto
  then have "?x ! (nat k - 1) = ?y ! (nat k - 1)" by simp
  moreover have "nat k - 1 < nat k" using assms(2) by simp
  ultimately have "hs ! (nat i * nat k + (nat k - 1)) = hs' ! (nat j * nat k + (nat k - 1))"
    using sl(2) sl'(2) by simp
  moreover have "a + (nat k - 1) = a + nat k - 1" for a using assms(2) by simp
  ultimately show ?thesis by (simp only:)
qed

lemma demo_requests:
  "\<exists>r r'. request_init demo_env ''a'' (Some (ids @ xs)) (Some demo_sp) None 0 None [] None None 0
            (Some 2) False = Inr r \<and>
          request_init demo_env ''b'' (Some (ids @ ys)) (Some demo_sp) None 0 None [] None None 0
            (Some 2) False = Inr r' \<and>
          hashes_ok demo_env 2 r \<and> hashes_ok demo_env 2 r' \<and>
          all_token_ids r = ids @ xs \<and> all_token_ids r' = ids @ ys \<and>
          (\<forall>k < length ids div 2. k < length (block_hashes r) \<and> k < length (block_hashes r') \<and>
             block_hashes r ! k = block_hashes r' ! k)"
proof -
  have lim: "initial_limits (Some demo_sp) None = Inr (16, WAITING, None)"
    by (simp add: initial_limits_def demo_sp_def)
  note init = request_init_ok [OF lim, of "Some _" None _ 2 "[]" demo_env _ 0 None None 0 False]
  obtain r where r: "request_init demo_env ''a'' (Some (ids @ xs)) (Some demo_sp) None 0 None [] None
      None 0 (Some 2) False = Inr r" "hashes_ok demo_env 2 r" "all_token_ids r = ids @ xs"
    "mm_features r = []" "lora_request_of r = None" "cache_salt r = None" "prompt_embeds r = None"
    using init [of "ids @ xs" _ "''a''"] by (auto simp: length_from_prompt_token_ids_or_embeds_def)
  obtain r' where r': "request_init demo_env ''b'' (Some (ids @ ys)) (Some demo_sp) None 0 None [] None
      None 0 (Some 2) False = Inr r'" "hashes_ok demo_env 2 r'" "all_token_ids r' = ids @ ys"
    "mm_features r' = []" "lora_request_of r' = None" "cache_salt r' = None" "prompt_embeds r' = None"
    using init [of "ids @ ys" _ "''b''"] by (auto simp: length_from_prompt_token_ids_or_embeds_def)
  define q where "q = r\<lparr>all_token_ids := ids\<rparr>"
  have q: "full_blocks 2 q = length ids div 2" "mm_features q = []" "lora_request_of q = None"
    "cache_salt q = None" "prompt_embeds q = None" "all_token_ids q = ids"
    using r(4-7) by (simp_all add: q_def full_blocks_def num_tokens_def py_len_def zdiv_int nat_div_distrib)
  have "block_hash_at demo_env 2 r k = block_hash_at demo_env 2 r' k" if "k < length ids div 2" for k
    using block_hash_at_append [of 2 k q r xs] block_hash_at_append [of 2 k q r' ys] that q r(3-7) r'(3-7)
    by simp
  moreover have "length ids div 2 \<le> full_blocks 2 r" "length ids div 2 \<le> full_blocks 2 r'"
    using r(3) r'(3) by (auto simp: full_blocks_def num_tokens_def py_len_def nat_div_distrib intro!: div_le_mono)
  ultimately show ?thesis using r(1-3) r'(1-3) by (intro exI [of _ r] exI [of _ r']) (auto simp: hashes_ok_def)
qed

section \<open>Properties\<close>

text \<open>
  C13. Incremental hashing computes what hashing from scratch computes: for a request built from a
  prompt and extended by any sequence of output chunks, every call succeeds and the block hashes
  are those of a request built at once from all the tokens, one hash per full block.  The
  multi-modal items lie in the prompt, in order, and all but the last end inside the full blocks
  of the prompt.
\<close>

theorem incremental_hashing_eq_fresh:
  assumes "0 < bs" "sp_max_tokens sp = Some m" "sorted_mm mm"
    "list_all (\<lambda>f. mm_end f \<le> py_len ids) mm"
    "list_all (\<lambda>f. mm_end f \<le> py_len ids div bs * bs) (butlast mm)"
  shows "\<exists>r r'. rbind (request_init env rid (Some ids) (Some sp) None t None mm lora salt p (Some bs) re)
                    (rfold (append_output_token_ids env) chunks) = Inr r
         \<and> request_init env rid (Some (ids @ concat chunks)) (Some sp) None t None mm lora salt p
             (Some bs) re = Inr r'
         \<and> block_hashes r = block_hashes r'
         \<and> py_len (block_hashes r) = py_len (ids @ concat chunks) div bs"
proof -
  obtain lim where lim: "initial_limits (Some sp) None = Inr lim"
    using assms(2) by (simp add: initial_limits_def)
  let ?n = "py_len (ids @ concat chunks)"
  have le: "py_len ids \<le> ?n" by simp
  then have le': "py_len ids div bs * bs \<le> ?n div bs * bs"
    using assms(1) by (simp add: zdiv_mono1)
  have mm: "list_all (\<lambda>f. mm_end f \<le> ?n) mm" "list_all (\<lambda>f. mm_end f \<le> ?n div bs * bs) (butlast mm)"
    using assms(4,5) le le' by (auto simp: list_all_iff intro: order_trans simp del: py_len_simps)
  obtain r0 where r0: "request_init env rid (Some ids) (Some sp) None t None mm lora salt p (Some bs) re
      = Inr r0" "hashes_ok env bs r0" "all_token_ids r0 = ids" "mm_features r0 = mm"
    "lora_request_of r0 = lora" "cache_salt r0 = salt" "prompt_embeds r0 = None"
    using request_init_ok [OF lim, of "Some ids" None "py_len ids" bs mm env rid t lora salt p re] assms
    by (auto simp: length_from_prompt_token_ids_or_embeds_def)
  obtain r where r: "rfold (append_output_token_ids env) chunks r0 = Inr r" "hashes_ok env bs r"
    "all_token_ids r = ids @ concat chunks" "same_inputs r0 r"
    using append_chunks_ok [OF r0(2)] r0(3) by auto
  obtain r' where r': "request_init env rid (Some (ids @ concat chunks)) (Some sp) None t None mm lora
      salt p (Some bs) re = Inr r'" "hashes_ok env bs r'" "all_token_ids r' = ids @ concat chunks"
    "mm_features r' = mm" "lora_request_of r' = lora" "cache_salt r' = salt" "prompt_embeds r' = None"
    using request_init_ok [OF lim, of "Some (ids @ concat chunks)" None ?n bs mm env rid t lora
        salt p re] assms(1,3) mm
    by (auto simp: length_from_prompt_token_ids_or_embeds_def)
  have "block_hashes r = block_hashes r'"
    using hashes_ok_unique [OF r(2) r'(2)] r0(4-7) r(3,4) r'(3-7) by (simp add: same_inputs_def)
  moreover have "py_len (block_hashes r) = ?n div bs"
    using r(2,3) assms(1)
    by (simp add: hashes_ok_def py_len_def full_blocks_def num_tokens_def pos_imp_zdiv_nonneg_iff)
  ultimately show ?thesis using r0(1) r(1) r'(1) by (auto simp: rbind_def)
qed

theorem incremental_hashing_eq_fresh_witness:
  "\<exists>r r'. rbind (request_init demo_env ''a'' (Some [1, 2, 3, 4, 5]) (Some demo_sp) None 0 None
                   [demo_image ''i'' 1 2, demo_image ''j'' 3 2] None None 0 (Some 2) False)
              (rfold (append_output_token_ids demo_env) [[6], [7, 8]]) = Inr r
         \<and> request_init demo_env ''a'' (Some [1, 2, 3, 4, 5, 6, 7, 8]) (Some demo_sp) None 0 None
              [demo_image ''i'' 1 2, demo_image ''j'' 3 2] None None 0 (Some 2) False = Inr r'
         \<and> block_hashes r = block_hashes r' \<and> py_len (block_hashes r) = 4"
  using incremental_hashing_eq_fresh [of 2 demo_sp 16 "[demo_image ''i'' 1 2, demo_image ''j'' 3 2]"
      "[1, 2, 3, 4, 5]" demo_env "''a''" 0 None None 0 False "[[6], [7, 8]]"]
  by (simp add: demo_sp_def demo_image_def mm_end_def)

text \<open>
  C12. A cached block can only be reused for the same prefix: take two requests as the code makes
  them, constructed with a block hasher and extended by output tokens, whose multi-modal items come in
  order, end inside the prompt, and all but the last end inside its full blocks.  With a collision-free
  hash function, if a block hash of the one equals a block hash of the other, the two blocks have the
  same index, the two requests agree on every token up to the end of the block, and every block up to
  it was hashed with the same extra keys (LoRA, multi-modal, salt and embedding keys).
\<close>

theorem equal_hash_equal_prefix:
  assumes "collision_free env" "hashed_request env bs r" "hashed_request env bs r'"
    "i < length (block_hashes r)" "j < length (block_hashes r')"
    "block_hashes r ! i = block_hashes r' ! j"
  shows "i = j \<and> take (nat bs * Suc i) (all_token_ids r) = take (nat bs * Suc i) (all_token_ids r')
         \<and> (\<forall>k\<le>i. block_extra env bs r k = block_extra env bs r' k)"
proof -
  note ok = assms(2,3) [THEN hashed_request_ok]
  have "block_hash_at env bs r i = block_hash_at env bs r' j"
    using assms(4-6) ok block_hashes_nth by metis
  from block_hash_at_inj [OF assms(1) this] show ?thesis
    using block_slices_prefix [of bs i r r'] ok(1) by (auto simp: hashes_ok_def)
qed

theorem equal_hash_equal_prefix_witness:
  "\<exists>r r'. hashed_request demo_env 2 r \<and> hashed_request demo_env 2 r' \<and> all_token_ids r = [1, 2, 3]
        \<and> all_token_ids r' = [1, 2, 4, 5] \<and> block_hashes r ! 0 = block_hashes r' ! 0
        \<and> take 2 (all_token_ids r) = take 2 (all_token_ids r')
        \<and> block_extra demo_env 2 r 0 = block_extra demo_env 2 r' 0"
proof -
  obtain r r' where h: "request_init demo_env ''a'' (Some [1, 2, 3]) (Some demo_sp) None 0 None [] None None 0 (Some 2) False = Inr r"
    "request_init demo_env ''b'' (Some [1, 2, 4, 5]) (Some demo_sp) None 0 None [] None None 0 (Some 2) False = Inr r'"
    "all_token_ids r = [1, 2, 3]" "all_token_ids r' = [1, 2, 4, 5]" "0 < length (block_hashes r)" "0 < length (block_hashes r')"
    "block_hashes r ! 0 = block_hashes r' ! 0"
    using demo_requests [of "[1, 2]" "[3]" "[4, 5]"] by auto
  have b: "hashed_request demo_env 2 r" "hashed_request demo_env 2 r'"
    using hashed_request.created [OF h(1), of 3] hashed_request.created [OF h(2), of 4]
    by (simp_all add: length_from_prompt_token_ids_or_embeds_def)
  show ?thesis
    using equal_hash_equal_prefix [OF demo_env_collision_free b h(5-7)] b h(3,4,7)
    by (intro exI [of _ r] exI [of _ r']) simp
qed

text \<open>
  C20. The same holds for the coarser hashes of \<^verbatim>\<open>BlockHashListWithBlockSize\<close>, which concatenate
  consecutive hashes: with a hash that is also prefix-free (as every fixed-width hash is), equal
  concatenations at the target block size mean the same block index and the same token prefix.
\<close>

theorem equal_scaled_hash_equal_prefix:
  assumes "collision_free env" "prefix_free env" "hashes_ok env bs r" "hashes_ok env bs r'"
    "BlockHashListWithBlockSize (block_hashes r) bs target = Inr l"
    "BlockHashListWithBlockSize (block_hashes r') bs target = Inr l'"
    "0 < target" "0 \<le> i" "i < bhl_len l" "0 \<le> j" "j < bhl_len l'"
    "bhl_value_at l i = bhl_value_at l' j"
  shows "i = j \<and> take (nat target * Suc (nat i)) (all_token_ids r)
                 = take (nat target * Suc (nat i)) (all_token_ids r')"
proof -
  define k where "k = target div bs"
  have bs: "0 < bs" using assms(3) by (simp add: hashes_ok_def)
  have tgt: "target = k * bs" and l: "l = Scaled (block_hashes r) k" "l' = Scaled (block_hashes r') k"
    using assms(5,6) by (auto simp: BlockHashListWithBlockSize_def k_def res_simps split: if_splits)
  have k: "0 < k" using tgt assms(7) bs by (simp add: zero_less_mult_iff)
  have b: "0 \<le> i" "i < py_len (block_hashes r) div k" "0 \<le> j" "j < py_len (block_hashes r') div k"
    using assms(8-11) l by simp_all
  have rng: "set (block_hashes r) \<union> set (block_hashes r') \<subseteq> range (hash_fn env)"
    using assms(3,4) block_hash_at_in_range by (auto simp: hashes_ok_def)
  let ?p = "nat i * nat k + nat k - 1" and ?q = "nat j * nat k + nat k - 1"
  have "block_hashes r ! ?p = block_hashes r' ! ?q"
    using scaled_values_inj [OF assms(2) k b rng] assms(12) l by simp
  moreover have "?p < length (block_hashes r)" "?q < length (block_hashes r')"
    using last_of_group(3) [OF _ py_slice_scaled(2) [OF k b(1,2)]]
      last_of_group(3) [OF _ py_slice_scaled(2) [OF k b(3,4)]] k by simp_all
  ultimately have eq: "block_hash_at env bs r ?p = block_hash_at env bs r' ?q"
    using assms(3,4) block_hashes_nth by metis
  note inj = block_hash_at_inj [OF assms(1) eq]
  then have "nat i = nat j" using last_of_group(1) [of "nat k" "nat i" "nat j"] k by simp
  then have "i = j" using b by simp
  moreover have "nat bs * Suc ?p = nat target * Suc (nat i)"
    using k bs last_of_group(2) [of "nat k" "nat i"]
    by (simp add: tgt nat_mult_distrib mult.commute mult.left_commute del: mult_Suc_right)
  moreover have "take (nat bs * Suc ?p) (all_token_ids r) = take (nat bs * Suc ?p) (all_token_ids r')"
    by (rule block_slices_prefix) (use inj bs in auto)
  ultimately show ?thesis by simp
qed

theorem equal_scaled_hash_equal_prefix_witness:
  "\<exists>r r'. hashes_ok demo_env 2 r \<and> hashes_ok demo_env 2 r' \<and> all_token_ids r = [1, 2, 3, 4, 5]
        \<and> all_token_ids r' = [1, 2, 3, 4, 6]
        \<and> bhl_value_at (Scaled (block_hashes r) 2) 0 = bhl_value_at (Scaled (block_hashes r') 2) 0
        \<and> take 4 (all_token_ids r) = take 4 (all_token_ids r')"
proof -
  obtain r r' where h: "hashes_ok demo_env 2 r" "hashes_ok demo_env 2 r'"
    "all_token_ids r = [1, 2, 3, 4, 5]" "all_token_ids r' = [1, 2, 3, 4, 6]"
    "\<forall>k<2. block_hashes r ! k = block_hashes r' ! k"
    using demo_requests [of "[1, 2, 3, 4]" "[5]" "[6]"] by auto
  have len: "length (block_hashes r) = 2" "length (block_hashes r') = 2"
    using h(1-4) by (simp_all add: hashes_ok_def full_blocks_def num_tokens_def)
  have "block_hashes r = block_hashes r'" by (rule nth_equalityI) (use len h(5) in auto)
  then have val: "bhl_value_at (Scaled (block_hashes r) 2) 0 = bhl_value_at (Scaled (block_hashes r') 2) 0"
    by simp
  have lists: "BlockHashListWithBlockSize (block_hashes r) 2 4 = Inr (Scaled (block_hashes r) 2)"
    "BlockHashListWithBlockSize (block_hashes r') 2 4 = Inr (Scaled (block_hashes r') 2)"
    by (simp_all add: BlockHashListWithBlockSize_def py_assert_def)
  have "bhl_len (Scaled (block_hashes r) 2) = 1" "bhl_len (Scaled (block_hashes r') 2) = 1"
    using len by (simp_all add: py_len_def)
  then show ?thesis
    using equal_scaled_hash_equal_prefix [OF demo_env_collision_free demo_env_prefix_free h(1,2) lists
        _ _ _ _ _ val] h(1-4) val by (intro exI [of _ r] exI [of _ r']) auto
qed

text \<open>
  C36. The keys of different kinds are not separated: a request for LoRA adapter \<open>nm\<close> without a
  cache salt and a request for the base model with cache salt \<open>nm\<close> get the same hash for their
  first block, whatever the hash function, if their first blocks hold the same tokens.
\<close>

theorem lora_name_salt_collision:
  assumes "0 < bs" "bs \<le> py_len ids" "nm \<noteq> []" "sp_max_tokens sp = Some m"
  shows "\<exists>r r'. request_init env rid (Some ids) (Some sp) None t None []
                  (Some \<lparr>lora_name = nm, lora_int_id = li\<rparr>) None p (Some bs) re = Inr r
         \<and> request_init env rid' (Some ids) (Some sp) None t' None [] None (Some nm) p' (Some bs) re' = Inr r'
         \<and> block_hashes r \<noteq> [] \<and> block_hashes r' \<noteq> [] \<and> hd (block_hashes r) = hd (block_hashes r')"
proof -
  obtain lim where lim: "initial_limits (Some sp) None = Inr lim"
    using assms(4) by (simp add: initial_limits_def)
  let ?l = "Some \<lparr>lora_name = nm, lora_int_id = li\<rparr>"
  obtain r where r: "request_init env rid (Some ids) (Some sp) None t None [] ?l None p (Some bs) re = Inr r"
    "hashes_ok env bs r" "all_token_ids r = ids" "mm_features r = []" "lora_request_of r = ?l"
    "cache_salt r = None" "prompt_embeds r = None"
    using request_init_ok [OF lim, of "Some ids" None _ bs "[]" env rid t ?l None p re] assms(1)
    by (auto simp: length_from_prompt_token_ids_or_embeds_def)
  obtain r' where r': "request_init env rid' (Some ids) (Some sp) None t' None [] None (Some nm) p' (Some bs) re' = Inr r'"
    "hashes_ok env bs r'" "all_token_ids r' = ids" "mm_features r' = []" "lora_request_of r' = None"
    "cache_salt r' = Some nm" "prompt_embeds r' = None"
    using request_init_ok [OF lim, of "Some ids" None _ bs "[]" env rid' t' None "Some nm" p' re'] assms(1)
    by (auto simp: length_from_prompt_token_ids_or_embeds_def)
  have "block_hash_at env bs r 0 = block_hash_at env bs r' 0"
    using r(3-7) r'(3-7) assms(3)
    by (simp add: block_slice_def block_extra_def extra_keys_spec_def gen_lora_extra_hash_keys_def
        salt_keys_def embed_keys_spec_def mm_keys_spec_def)
  moreover have "0 < full_blocks bs r" "0 < full_blocks bs r'"
    using assms(1,2) r(3) r'(3) less_full_iff [of bs 0] by (simp_all add: full_blocks_def num_tokens_def)
  ultimately show ?thesis
    using r(1,2) r'(1,2) by (auto simp: hashes_ok_def hd_map)
qed

theorem lora_name_salt_collision_witness:
  "\<exists>r r'. request_init demo_env ''a'' (Some [7, 8]) (Some demo_sp) None 0 None []
            (Some \<lparr>lora_name = ''sql'', lora_int_id = 1\<rparr>) None 0 (Some 2) False = Inr r
         \<and> request_init demo_env ''b'' (Some [7, 8]) (Some demo_sp) None 0 None [] None (Some ''sql'') 0
             (Some 2) False = Inr r'
         \<and> hd (block_hashes r) = hd (block_hashes r')"
  using lora_name_salt_collision [of 2 "[7, 8]" "''sql''" demo_sp 16 demo_env "''a''" 0 1 0 False "''b''" 0 0 False]
  by (auto simp: demo_sp_def)

text \<open>
  C37. The hasher forgets an image: a prompt of seven tokens with block size four has two images in
  its incomplete second block.  When one output token completes that block, the hasher starts at
  the last image only, so the block's hash does not depend on the first image: two requests with
  different first images get the same block hashes, although hashing the eight tokens at once
  includes both images in the key.
\<close>

theorem mm_key_omitted:
  "\<exists>h0. (\<forall>img. \<exists>r. rbind (request_init env rid (Some [1, 2, 3, 4, 5, 6, 7]) (Some demo_sp) None t None
                        [demo_image img 4 1, demo_image ''b'' 5 2] None None p (Some 4) False)
                   (append_output_token_ids env [8]) = Inr r
              \<and> block_hashes r = [h0, hash_block_tokens env (Some h0) [5, 6, 7, 8]
                                       (Some [KeyTuple ''b'' 1])])
       \<and> (\<forall>img. \<exists>r. request_init env rid (Some [1, 2, 3, 4, 5, 6, 7, 8]) (Some demo_sp) None t None
                        [demo_image img 4 1, demo_image ''b'' 5 2] None None p (Some 4) False = Inr r
              \<and> block_hashes r = [h0, hash_block_tokens env (Some h0) [5, 6, 7, 8]
                                       (Some [KeyTuple img 0, KeyTuple ''b'' 1])])"
proof (intro exI [of _ "hash_block_tokens env None [1, 2, 3, 4] None"] conjI allI)
  note defs = request_init_def request_fields_def initial_limits_def demo_sp_def demo_image_def
    length_from_prompt_token_ids_or_embeds_def update_block_hashes_def request_block_hasher_def
    append_output_token_ids_def num_tokens_def
    generate_block_hash_extra_keys_def gen_mm_extra_hash_keys_def gen_lora_extra_hash_keys_def
    gen_prompt_embeds_extra_hash_keys_def rbind_def py_assert_def py_len_def py_slice_nonneg Let_def
  fix img
  show "\<exists>r. rbind (request_init env rid (Some [1, 2, 3, 4, 5, 6, 7]) (Some demo_sp) None t None
          [demo_image img 4 1, demo_image ''b'' 5 2] None None p (Some 4) False)
        (append_output_token_ids env [8]) = Inr r
      \<and> block_hashes r = [hash_block_tokens env None [1, 2, 3, 4] None,
          hash_block_tokens env (Some (hash_block_tokens env None [1, 2, 3, 4] None)) [5, 6, 7, 8]
            (Some [KeyTuple ''b'' 1])]"
    by (simp add: defs hash_loop.simps)
  show "\<exists>r. request_init env rid (Some [1, 2, 3, 4, 5, 6, 7, 8]) (Some demo_sp) None t None
          [demo_image img 4 1, demo_image ''b'' 5 2] None None p (Some 4) False = Inr r
      \<and> block_hashes r = [hash_block_tokens env None [1, 2, 3, 4] None,
          hash_block_tokens env (Some (hash_block_tokens env None [1, 2, 3, 4] None)) [5, 6, 7, 8]
            (Some [KeyTuple img 0, KeyTuple ''b'' 1])]"
    by (simp add: defs hash_loop.simps)
qed

end
