(* ===== verification/Block_Pool.thy ===== *)
theory Block_Pool
  imports Complex_Main Block_Hash_Map Request_Hashing
begin

text \<open>
  \<^verbatim>\<open>BlockPool\<close> of \<^verbatim>\<open>vllm/v1/core/block_pool.py\<close>: allocation, reference counting, prefix-cache
  registration and eviction of KV cache blocks, with the KV events it queues.  The pool's record
  extends the free-block queue, whose operations apply to it unchanged.  The metrics collector is
  seen from here only as the sequence of calls the pool makes on it; the usage ratio is a
  rational; \<open>use_int_block_hashes\<close> is the environment variable
  \<^verbatim>\<open>VLLM_KV_EVENTS_USE_INT_BLOCK_HASHES\<close>.
\<close>

section \<open>State\<close>

datatype kv_event =
    BlockStored
      (stored_hashes: "external_hash list") (parent_block_hash: "external_hash option")
      (token_ids: "int list") (stored_block_size: int) (lora_id: "int option") (medium: string)
      (stored_lora_name: "string option") (extra_keys: "extra_key list option list option")
      (group_idx: int)
  | BlockRemoved (removed_hashes: "external_hash list") (medium: string) (group_idx: int)
  | AllBlocksCleared

datatype metrics_call = OnAllocated blk | OnAccessed blk | OnEvicted blk | MetricsReset

record block_pool = free_queue +
  num_gpu_blocks :: int
  enable_caching :: bool
  hash_block_size :: int
  blocks :: "blk list"
  cached_block_hash_to_block :: block_map
  null_block :: blk
  enable_kv_cache_events :: bool
  kv_event_queue :: "kv_event list"
  metrics_collector :: "metrics_call list option"
  use_int_block_hashes :: bool

definition log_metric :: "metrics_call \<Rightarrow> block_pool \<Rightarrow> block_pool" where
  "log_metric c p =
     (case metrics_collector p of
        None \<Rightarrow> p
      | Some calls \<Rightarrow> p\<lparr>metrics_collector := Some (calls @ [c])\<rparr>)"

definition add_event :: "kv_event \<Rightarrow> block_pool \<Rightarrow> block_pool" where
  "add_event e p = p\<lparr>kv_event_queue := kv_event_queue p @ [e]\<rparr>"

definition add_ref :: "int \<Rightarrow> blk \<Rightarrow> block_pool \<Rightarrow> block_pool" where
  "add_ref d b p = p\<lparr>heap := (heap p)(b := (heap p b)\<lparr>ref_cnt := ref_cnt (heap p b) + d\<rparr>)\<rparr>"

definition pool_init ::
  "int \<Rightarrow> bool \<Rightarrow> int \<Rightarrow> bool \<Rightarrow> metrics_call list option \<Rightarrow> bool \<Rightarrow> block_pool res" where
  "pool_init n caching hash_bs evs metrics int_hashes =
     rbind (py_assert (0 < n)) (\<lambda>_.
       let bs = map Blk [0..<nat n];
           p0 = queue_init bs
                  \<lparr>heap = \<lambda>_. new_block, num_free_blocks = 0, num_gpu_blocks = n,
                   enable_caching = caching, hash_block_size = hash_bs, blocks = bs,
                   cached_block_hash_to_block = bmap_empty, null_block = FakeHead,
                   enable_kv_cache_events = evs, kv_event_queue = [],
                   metrics_collector = metrics, use_int_block_hashes = int_hashes\<rparr>
       in rbind (popleft p0) (\<lambda>(nb, p1).
            Inr (p1\<lparr>null_block := nb, heap := (heap p1)(nb := (heap p1 nb)\<lparr>is_null := True\<rparr>)\<rparr>)))"

section \<open>Lookup and caching\<close>

fun get_cached_block :: "bytes \<Rightarrow> int list \<Rightarrow> block_pool \<Rightarrow> blk list option res" where
  "get_cached_block h [] p = Inr (Some [])"
| "get_cached_block h (g # gs) p =
     rbind (make_block_hash_with_group_id h g) (\<lambda>key.
     rbind (get_one_block (cached_block_hash_to_block p) key) (\<lambda>r.
       case r of
         None \<Rightarrow> Inr None
       | Some b \<Rightarrow> rbind (get_cached_block h gs p) (\<lambda>rest. Inr (map_option (\<lambda>bs. b # bs) rest))))"

fun cache_block_loop ::
  "int \<Rightarrow> bytes list \<Rightarrow> blk list \<Rightarrow> int \<Rightarrow> block_pool \<Rightarrow> (external_hash list \<times> block_pool) res" where
  "cache_block_loop gid hs [] i p = Inr ([], p)"
| "cache_block_loop gid hs (b # bs) i p =
     (if is_null (heap p b) then cache_block_loop gid hs bs (i + 1) p
      else rbind (py_assert (hash_of (heap p b) = None)) (\<lambda>_.
           rbind (py_get hs i) (\<lambda>h.
           rbind (make_block_hash_with_group_id h gid) (\<lambda>key.
           rbind (set_block_hash (heap p) b key) (\<lambda>hp.
             let p' = p\<lparr>heap := hp,
                        cached_block_hash_to_block := bmap_insert key b (cached_block_hash_to_block p)\<rparr>
             in rbind (cache_block_loop gid hs bs (i + 1) p') (\<lambda>(es, p'').
                  Inr (maybe_convert_block_hash (use_int_block_hashes p) h # es, p'')))))))"

fun event_keys_loop ::
  "hash_env \<Rightarrow> int \<Rightarrow> blk list \<Rightarrow> heap \<Rightarrow> int list \<Rightarrow> int \<Rightarrow> request
     \<Rightarrow> (extra_key list option list \<times> request) res" where
  "event_keys_loop env bs blks h [] mm_idx r = Inr ([], r)"
| "event_keys_loop env bs blks h (i # is) mm_idx r =
     rbind (py_get blks i) (\<lambda>b.
       if is_null (h b) then event_keys_loop env bs blks h is mm_idx r
       else rbind (generate_block_hash_extra_keys env r (i * bs) (i * bs + bs) mm_idx)
              (\<lambda>(keys, mm_idx', r').
                 rbind (event_keys_loop env bs blks h is mm_idx' r')
                   (\<lambda>(rest, r''). Inr (keys # rest, r''))))"

definition stored_event ::
  "hash_env \<Rightarrow> request \<Rightarrow> blk list \<Rightarrow> int \<Rightarrow> int \<Rightarrow> int \<Rightarrow> int \<Rightarrow> block_hash_list \<Rightarrow> external_hash list
     \<Rightarrow> block_pool \<Rightarrow> (request \<times> block_pool) res" where
  "stored_event env r blks num_cached num_full block_size gid bhl new_hashes p =
     rbind (if num_cached = 0 then Inr None
            else rbind (bhl_value_at bhl (num_cached - 1))
                   (\<lambda>h. Inr (Some (maybe_convert_block_hash (use_int_block_hashes p) h)))) (\<lambda>parent.
     rbind (event_keys_loop env block_size blks (heap p) [num_cached..num_full - 1] 0 r)
       (\<lambda>(keys, r').
          Inr (r', add_event
                 (BlockStored new_hashes parent
                    (py_slice (all_token_ids r') (num_cached * block_size) (num_full * block_size))
                    block_size (map_option lora_int_id (lora_request_of r')) ''GPU''
                    (map_option lora_name (lora_request_of r'))
                    (if keys = [] then None else Some keys) gid) p)))"

definition cache_full_blocks ::
  "hash_env \<Rightarrow> request \<Rightarrow> blk list \<Rightarrow> int \<Rightarrow> int \<Rightarrow> int \<Rightarrow> int \<Rightarrow> block_pool \<Rightarrow> (request \<times> block_pool) res" where
  "cache_full_blocks env r blks num_cached num_full block_size gid p =
     (if num_full \<le> num_cached then Inr (r, p)
      else
        rbind (py_assert (num_full \<le> py_len (block_hashes r))) (\<lambda>_.
        rbind (if block_size = hash_block_size p then Inr (Plain (block_hashes r))
               else rbind (py_assert (block_size mod hash_block_size p = 0)) (\<lambda>_.
                      BlockHashListWithBlockSize (block_hashes r) (hash_block_size p) block_size))
          (\<lambda>bhl.
        rbind (cache_block_loop gid (py_from (bhl_list bhl) num_cached)
                 (py_slice blks num_cached num_full) 0 p) (\<lambda>(new_hashes, p').
          if enable_kv_cache_events p'
          then stored_event env r blks num_cached num_full block_size gid bhl new_hashes p'
          else Inr (r, p')))))"

section \<open>Allocation, eviction and release\<close>

definition maybe_evict_cached_block :: "blk \<Rightarrow> block_pool \<Rightarrow> bool \<times> block_pool" where
  "maybe_evict_cached_block b p =
     (let p1 = log_metric (OnEvicted b) p
      in case hash_of (heap p1 b) of
           None \<Rightarrow> (False, p1)
         | Some key \<Rightarrow>
             let (found, cache) = bmap_pop key (block_id b) (cached_block_hash_to_block p1);
                 p2 = p1\<lparr>cached_block_hash_to_block := cache\<rparr>
             in case found of
                  None \<Rightarrow> (False, p2)
                | Some _ \<Rightarrow>
                    let p3 = p2\<lparr>heap := reset_hash (heap p2) b\<rparr>
                    in (True,
                        if enable_kv_cache_events p3
                        then add_event
                               (BlockRemoved
                                 [maybe_convert_block_hash (use_int_block_hashes p3) (get_block_hash key)]
                                 ''GPU'' (get_group_id key)) p3
                        else p3))"

definition alloc_block :: "blk \<Rightarrow> block_pool \<Rightarrow> block_pool res" where
  "alloc_block b p =
     (let p1 = (if enable_caching p then snd (maybe_evict_cached_block b p) else p)
      in rbind (py_assert (ref_cnt (heap p1 b) = 0))
           (\<lambda>_. Inr (log_metric (OnAllocated b) (add_ref 1 b p1))))"

definition get_new_blocks :: "int \<Rightarrow> block_pool \<Rightarrow> (blk list \<times> block_pool) res" where
  "get_new_blocks n p =
     (if num_free_blocks p < n then Inl ValueError
      else rbind (popleft_n n p) (\<lambda>(ret, p1).
           rbind (rfold alloc_block ret p1) (\<lambda>p2. Inr (ret, p2))))"

definition touch_block :: "blk \<Rightarrow> block_pool \<Rightarrow> block_pool res" where
  "touch_block b p =
     rbind (if ref_cnt (heap p b) = 0 \<and> \<not> is_null (heap p b) then queue_remove b p else Inr p)
       (\<lambda>p1. Inr (log_metric (OnAccessed b) (add_ref 1 b p1)))"

definition touch :: "blk list \<Rightarrow> block_pool \<Rightarrow> block_pool res" where
  "touch bs p = rfold touch_block bs p"

definition free_blocks :: "blk list \<Rightarrow> block_pool \<Rightarrow> block_pool res" where
  "free_blocks bs p =
     (let p1 = fold (add_ref (-1)) bs p
      in append_n (filter (\<lambda>b. ref_cnt (heap p1 b) = 0 \<and> \<not> is_null (heap p1 b)) bs) p1)"

text \<open>\<^verbatim>\<open>evict_blocks\<close> takes a set; its iteration order is the order of the argument list.\<close>

definition evict_block :: "int \<Rightarrow> block_pool \<Rightarrow> block_pool res" where
  "evict_block bid p =
     rbind (py_assert (bid < py_len (blocks p))) (\<lambda>_.
     rbind (py_get (blocks p) bid) (\<lambda>b. Inr (snd (maybe_evict_cached_block b p))))"

definition evict_blocks :: "int list \<Rightarrow> block_pool \<Rightarrow> block_pool res" where
  "evict_blocks bids p = rfold evict_block bids p"

definition pool_reset_prefix_cache :: "block_pool \<Rightarrow> bool \<times> block_pool" where
  "pool_reset_prefix_cache p =
     (if num_gpu_blocks p - num_free_blocks p \<noteq> 1 then (False, p)
      else
        let p1 = p\<lparr>cached_block_hash_to_block := bmap_empty,
                   heap := fold (\<lambda>b h. reset_hash h b) (blocks p) (heap p)\<rparr>;
            p2 = log_metric MetricsReset p1
        in (True, if enable_kv_cache_events p2 then add_event AllBlocksCleared p2 else p2))"

definition get_num_free_blocks :: "block_pool \<Rightarrow> int" where
  "get_num_free_blocks p = num_free_blocks p"

definition get_usage :: "block_pool \<Rightarrow> rat" where
  "get_usage p =
     (let total = num_gpu_blocks p - 1
      in if total = 0 then 0 else 1 - of_int (get_num_free_blocks p) / of_int total)"

definition pool_take_events :: "block_pool \<Rightarrow> kv_event list \<times> block_pool" where
  "pool_take_events p =
     (if enable_kv_cache_events p then (kv_event_queue p, p\<lparr>kv_event_queue := []\<rparr>) else ([], p))"

section \<open>The pool's invariant\<close>

abbreviation refs :: "block_pool \<Rightarrow> blk \<Rightarrow> int" where
  "refs p b \<equiv> ref_cnt (heap p b)"

definition hashes :: "block_pool \<Rightarrow> blk \<Rightarrow> block_key option" where
  "hashes p b = hash_of (heap p b)"

definition usable :: "block_pool \<Rightarrow> blk \<Rightarrow> bool" where
  "usable p b \<longleftrightarrow> b \<in> set (blocks p) \<and> b \<noteq> null_block p"

definition pool_wf :: "block_pool \<Rightarrow> bool" where
  "pool_wf p \<longleftrightarrow> 0 < num_gpu_blocks p \<and> blocks p = map Blk [0..<nat (num_gpu_blocks p)] \<and>
     null_block p = Blk 0 \<and> (\<forall>b. is_null (heap p b) \<longleftrightarrow> b = Blk 0)"

definition cache_wf :: "block_pool \<Rightarrow> bool" where
  "cache_wf p \<longleftrightarrow> bmap_ok (cached_block_hash_to_block p) \<and>
     hash_agrees (bmap_blocks (cached_block_hash_to_block p)) (hashes p) \<and>
     (\<forall>b. hashes p b \<noteq> None \<longrightarrow> usable p b)"

text \<open>
  \<open>pool_state p xs ys\<close>: the free queue holds \<open>xs\<close> and the blocks \<open>ys\<close> were taken from it but not
  yet referenced; the blocks with count zero are exactly these, and the prefix cache agrees with
  the hash stored in each block.
\<close>

definition pool_state :: "block_pool \<Rightarrow> blk list \<Rightarrow> blk list \<Rightarrow> bool" where
  "pool_state p xs ys \<longleftrightarrow>
     pool_wf p \<and> queue_rel p xs \<and> cache_wf p \<and> distinct (xs @ ys) \<and>
     (\<forall>b. b \<in> set (xs @ ys) \<longleftrightarrow> usable p b \<and> refs p b = 0) \<and>
     (\<forall>b. usable p b \<longrightarrow> 0 \<le> refs p b)"

abbreviation pool_inv :: "block_pool \<Rightarrow> blk list \<Rightarrow> bool" where
  "pool_inv p xs \<equiv> pool_state p xs []"

definition pool_const ::
  "block_pool \<Rightarrow> int \<times> bool \<times> int \<times> blk list \<times> blk \<times> bool \<times> bool" where
  "pool_const p = (num_gpu_blocks p, enable_caching p, hash_block_size p, blocks p, null_block p,
     enable_kv_cache_events p, use_int_block_hashes p)"

lemma queue_rel_links:
  assumes "queue_rel p xs" "num_free_blocks p' = num_free_blocks p"
    "\<And>b. prev_of p' b = prev_of p b" "\<And>b. next_of p' b = next_of p b"
  shows "queue_rel p' xs"
proof -
  have "linked (heap p') zs = linked (heap p) zs" for zs
    by (induction "heap p" zs rule: linked.induct) (simp_all add: assms(3,4))
  then show ?thesis using assms by (simp add: queue_rel_def)
qed

lemma log_metric_fields [simp]:
  "heap (log_metric c p) = heap p" "num_free_blocks (log_metric c p) = num_free_blocks p"
  "cached_block_hash_to_block (log_metric c p) = cached_block_hash_to_block p"
  "pool_const (log_metric c p) = pool_const p" "blocks (log_metric c p) = blocks p"
  "null_block (log_metric c p) = null_block p" "enable_caching (log_metric c p) = enable_caching p"
  "num_gpu_blocks (log_metric c p) = num_gpu_blocks p"
  "enable_kv_cache_events (log_metric c p) = enable_kv_cache_events p"
  "use_int_block_hashes (log_metric c p) = use_int_block_hashes p"
  "kv_event_queue (log_metric c p) = kv_event_queue p"
  by (simp_all add: log_metric_def pool_const_def split: option.split)

lemma add_event_fields [simp]:
  "heap (add_event e p) = heap p" "num_free_blocks (add_event e p) = num_free_blocks p"
  "cached_block_hash_to_block (add_event e p) = cached_block_hash_to_block p"
  "pool_const (add_event e p) = pool_const p" "blocks (add_event e p) = blocks p"
  "null_block (add_event e p) = null_block p" "enable_caching (add_event e p) = enable_caching p"
  "num_gpu_blocks (add_event e p) = num_gpu_blocks p"
  "enable_kv_cache_events (add_event e p) = enable_kv_cache_events p"
  by (simp_all add: add_event_def pool_const_def)

lemma pool_const_upd [simp]:
  "pool_const (p\<lparr>heap := h\<rparr>) = pool_const p" "pool_const (p\<lparr>num_free_blocks := n\<rparr>) = pool_const p"
  "pool_const (p\<lparr>cached_block_hash_to_block := m\<rparr>) = pool_const p"
  "pool_const (p\<lparr>kv_event_queue := es\<rparr>) = pool_const p"
  by (simp_all add: pool_const_def)

lemma add_ref_fields [simp]:
  "num_free_blocks (add_ref d b p) = num_free_blocks p"
  "cached_block_hash_to_block (add_ref d b p) = cached_block_hash_to_block p"
  "pool_const (add_ref d b p) = pool_const p"
  "heap (add_ref d b p) c = (heap p c)\<lparr>ref_cnt := refs p c + (if c = b then d else 0)\<rparr>"
  by (simp_all add: add_ref_def)

lemma pool_const_eqD:
  assumes "pool_const p' = pool_const p"
  shows "num_gpu_blocks p' = num_gpu_blocks p" "enable_caching p' = enable_caching p"
    "blocks p' = blocks p" "null_block p' = null_block p" "usable p' b = usable p b"
    "hash_block_size p' = hash_block_size p" "enable_kv_cache_events p' = enable_kv_cache_events p"
  using assms by (auto simp: pool_const_def usable_def)

lemma usable_real:
  assumes "pool_wf p" "usable p b"
  shows "real_blk b"
proof -
  have "b \<in> set (map Blk [0..<nat (num_gpu_blocks p)])"
    using assms unfolding pool_wf_def usable_def by metis
  then show ?thesis by auto
qed

lemma usable_not_null:
  assumes "pool_wf p" "usable p b"
  shows "\<not> is_null (heap p b)"
  using assms unfolding pool_wf_def usable_def by metis

lemma queue_rel_cong:
  "heap p' = heap p \<Longrightarrow> num_free_blocks p' = num_free_blocks p \<Longrightarrow> queue_rel p' xs = queue_rel p xs"
  by (simp add: queue_rel_def)

lemma pool_state_cong:
  assumes "heap p' = heap p" "num_free_blocks p' = num_free_blocks p"
    "cached_block_hash_to_block p' = cached_block_hash_to_block p" "pool_const p' = pool_const p"
  shows "pool_state p' xs ys = pool_state p xs ys" "hashes p' = hashes p"
proof -
  show h: "hashes p' = hashes p" using assms(1) by (simp add: hashes_def fun_eq_iff)
  note c = pool_const_eqD [OF assms(4)]
  have "pool_wf p' = pool_wf p" using c assms(1) by (simp add: pool_wf_def)
  moreover have "cache_wf p' = cache_wf p" using c assms(3) h by (simp add: cache_wf_def)
  ultimately show "pool_state p' xs ys = pool_state p xs ys"
    using c assms(1) queue_rel_cong [OF assms(1,2)] by (simp add: pool_state_def)
qed

text \<open>What the three kinds of state change keep: hashes, reference counts, queue links.\<close>

lemma pool_state_hash:
  assumes "pool_state p xs ys" "pool_const p' = pool_const p" "num_free_blocks p' = num_free_blocks p"
    "heap p' = (heap p)(b := (heap p b)\<lparr>hash_of := h\<rparr>)" "usable p b"
    "bmap_ok (cached_block_hash_to_block p')"
    "hash_agrees (bmap_blocks (cached_block_hash_to_block p')) ((hashes p)(b := h))"
  shows "pool_state p' xs ys \<and> hashes p' = (hashes p)(b := h) \<and> (\<forall>c. refs p' c = refs p c)"
proof -
  note c = pool_const_eqD [OF assms(2)]
  have h: "hashes p' = (hashes p)(b := h)" by (simp add: hashes_def assms(4) fun_eq_iff)
  have r: "refs p' c = refs p c" "is_null (heap p' c) = is_null (heap p c)"
    "prev_of p' c = prev_of p c" "next_of p' c = next_of p c" for c
    by (simp_all add: assms(4))
  have q: "queue_rel p' xs"
    using assms(1,3) r queue_rel_links [of p xs p'] by (simp add: pool_state_def)
  have w: "pool_wf p'" using assms(1) c r by (simp add: pool_state_def pool_wf_def)
  have k: "cache_wf p'"
    using assms(1,5-7) c h by (auto simp: pool_state_def cache_wf_def)
  have "pool_state p' xs ys" using assms(1) q w k c r unfolding pool_state_def by simp
  then show ?thesis using h r by simp
qed

lemma pool_state_refs:
  assumes "pool_state p xs ys" "pool_const p' = pool_const p" "num_free_blocks p' = num_free_blocks p"
    "cached_block_hash_to_block p' = cached_block_hash_to_block p"
    "\<And>c. heap p' c = (heap p c)\<lparr>ref_cnt := r c\<rparr>" "distinct (xs @ zs)"
    "\<And>c. c \<in> set (xs @ zs) \<longleftrightarrow> usable p c \<and> r c = 0" "\<And>c. usable p c \<Longrightarrow> 0 \<le> r c"
  shows "pool_state p' xs zs \<and> hashes p' = hashes p"
proof -
  note c = pool_const_eqD [OF assms(2)]
  have h: "hashes p' = hashes p" by (simp add: hashes_def assms(5) fun_eq_iff)
  have f: "refs p' b = r b" "is_null (heap p' b) = is_null (heap p b)"
    "prev_of p' b = prev_of p b" "next_of p' b = next_of p b" for b
    by (simp_all add: assms(5))
  have q: "queue_rel p' xs"
    using assms(1,3) f queue_rel_links [of p xs p'] by (simp add: pool_state_def)
  have w: "pool_wf p'" using assms(1) c f by (simp add: pool_state_def pool_wf_def)
  have k: "cache_wf p'" using assms(1,4) c h by (simp add: pool_state_def cache_wf_def)
  show ?thesis using q w k c f h assms(6-8) unfolding pool_state_def by simp
qed

lemma pool_more_fields:
  assumes "free_queue.more p' = free_queue.more p"
  shows "pool_const p' = pool_const p"
    "cached_block_hash_to_block p' = cached_block_hash_to_block p"
    "kv_event_queue p' = kv_event_queue p" "metrics_collector p' = metrics_collector p"
  using assms by (cases p, cases p', simp add: pool_const_def)+

lemma pool_state_queue:
  assumes "pool_state p xs ys" "queue_rel p' xs'" "queue_frame p' = queue_frame p"
    "distinct (xs' @ zs)" "set (xs' @ zs) = set (xs @ ys)"
  shows "pool_state p' xs' zs \<and> hashes p' = hashes p \<and> (\<forall>c. refs p' c = refs p c)
         \<and> pool_const p' = pool_const p
         \<and> cached_block_hash_to_block p' = cached_block_hash_to_block p"
proof -
  have m: "free_queue.more p' = free_queue.more p" and s: "same_meta (heap p) (heap p')"
    using assms(3) by (auto simp: queue_frame_def same_meta_def fun_eq_iff)
  note f = pool_more_fields [OF m] and c = pool_const_eqD [OF pool_more_fields(1) [OF m]]
  note r = same_metaD [OF s]
  have h: "hashes p' = hashes p" by (simp add: hashes_def r fun_eq_iff)
  have "pool_wf p'" using assms(1) c r by (simp add: pool_state_def pool_wf_def)
  moreover have "cache_wf p'" using assms(1) c h f by (simp add: pool_state_def cache_wf_def)
  ultimately show ?thesis using assms(1,2,4,5) c r h f unfolding pool_state_def by simp
qed

section \<open>Eviction and allocation\<close>

lemma evict_state:
  assumes "pool_state p xs ys" "usable p b"
  shows "pool_state (snd (maybe_evict_cached_block b p)) xs ys
         \<and> hashes (snd (maybe_evict_cached_block b p)) = (hashes p)(b := None)
         \<and> (\<forall>c. refs (snd (maybe_evict_cached_block b p)) c = refs p c)
         \<and> pool_const (snd (maybe_evict_cached_block b p)) = pool_const p
         \<and> fst (maybe_evict_cached_block b p) = (hashes p b \<noteq> None)"
proof (cases "hashes p b")
  case None
  then have "maybe_evict_cached_block b p = (False, log_metric (OnEvicted b) p)"
    by (simp add: maybe_evict_cached_block_def hashes_def)
  then show ?thesis
    using assms(1) None pool_state_cong [of "log_metric (OnEvicted b) p" p] by (simp add: fun_upd_idem)
next
  case (Some key)
  have cw: "bmap_ok (cached_block_hash_to_block p)"
    "hash_agrees (bmap_blocks (cached_block_hash_to_block p)) (hashes p)" and real: "real_blk b"
    using assms usable_real by (auto simp: pool_state_def cache_wf_def)
  note pop = bc.pop_agrees [OF cw real Some]
  obtain cache where cache: "bmap_pop key (block_id b) (cached_block_hash_to_block p) = (Some b, cache)"
    using pop by (metis prod.collapse)
  define q where "q = snd (maybe_evict_cached_block b p)"
  have "pool_const q = pool_const p \<and> num_free_blocks q = num_free_blocks p \<and>
      cached_block_hash_to_block q = cache \<and> heap q = (heap p)(b := (heap p b)\<lparr>hash_of := None\<rparr>) \<and>
      fst (maybe_evict_cached_block b p)"
    using Some cache
    by (simp add: q_def maybe_evict_cached_block_def hashes_def reset_hash_def Let_def)
  then show ?thesis
    using pool_state_hash [OF assms(1), of q b None] assms(2) pop cache Some q_def by auto
qed

lemma alloc_block_state:
  assumes "pool_state p xs (b # ys)"
  shows "\<exists>p'. alloc_block b p = Inr p' \<and> pool_state p' xs ys
           \<and> hashes p' = (if enable_caching p then (hashes p)(b := None) else hashes p)
           \<and> (\<forall>c. refs p' c = (if c = b then 1 else refs p c)) \<and> pool_const p' = pool_const p"
proof -
  have b: "usable p b" "refs p b = 0"
    using assms by (auto simp: pool_state_def)
  define q where "q = (if enable_caching p then snd (maybe_evict_cached_block b p) else p)"
  have q: "pool_state q xs (b # ys)" "\<And>c. refs q c = refs p c" "pool_const q = pool_const p"
    "hashes q = (if enable_caching p then (hashes p)(b := None) else hashes p)"
    using evict_state [OF assms b(1)] assms by (auto simp: q_def)
  have ps: "pool_state (add_ref 1 b q) xs ys \<and> hashes (add_ref 1 b q) = hashes q"
  proof (rule pool_state_refs [OF q(1), where r = "\<lambda>c. refs q c + (if c = b then 1 else 0)"])
    show "distinct (xs @ ys)" using q(1) by (simp add: pool_state_def)
    show "c \<in> set (xs @ ys) \<longleftrightarrow> usable q c \<and> refs q c + (if c = b then 1 else 0) = 0" for c
      using q(1,2) b(2) by (cases "c = b") (auto simp: pool_state_def)
    show "0 \<le> refs q c + (if c = b then 1 else 0)" if "usable q c" for c
      using q(1) that by (simp add: pool_state_def)
  qed simp_all
  have "alloc_block b p = Inr (log_metric (OnAllocated b) (add_ref 1 b q))"
    using b(2) q(2) by (simp add: alloc_block_def q_def [symmetric] Let_def py_assert_def)
  then show ?thesis
    using ps q(2-4) b(2) pool_state_cong [of "log_metric (OnAllocated b) (add_ref 1 b q)" "add_ref 1 b q"]
    by simp
qed

lemma alloc_blocks_state:
  assumes "pool_state p xs ys"
  shows "\<exists>p'. rfold alloc_block ys p = Inr p' \<and> pool_inv p' xs
           \<and> (\<forall>c. hashes p' c = (if enable_caching p \<and> c \<in> set ys then None else hashes p c))
           \<and> (\<forall>c. refs p' c = (if c \<in> set ys then 1 else refs p c)) \<and> pool_const p' = pool_const p"
  using assms
proof (induction ys arbitrary: p)
  case (Cons b ys)
  obtain q where q: "alloc_block b p = Inr q" "pool_state q xs ys"
    "hashes q = (if enable_caching p then (hashes p)(b := None) else hashes p)"
    "\<And>c. refs q c = (if c = b then 1 else refs p c)" "pool_const q = pool_const p"
    using alloc_block_state [OF Cons.prems] by blast
  note e = pool_const_eqD(2) [OF q(5)]
  from Cons.IH [OF q(2)] obtain p' where p': "rfold alloc_block ys q = Inr p'" "pool_inv p' xs"
    "\<And>c. hashes p' c = (if enable_caching p \<and> c \<in> set ys then None else hashes q c)"
    "\<And>c. refs p' c = (if c \<in> set ys then 1 else refs q c)" "pool_const p' = pool_const q"
    unfolding e by blast
  then show ?case using q by (intro exI [of _ p']) auto
qed simp

lemma get_new_blocks_state:
  assumes "pool_inv p xs" "0 \<le> n" "n \<le> py_len xs"
  shows "\<exists>p'. get_new_blocks n p = Inr (take (nat n) xs, p') \<and> pool_inv p' (drop (nat n) xs)
           \<and> (\<forall>c. hashes p' c = (if enable_caching p \<and> c \<in> set (take (nat n) xs) then None else hashes p c))
           \<and> (\<forall>c. refs p' c = (if c \<in> set (take (nat n) xs) then 1 else refs p c))
           \<and> pool_const p' = pool_const p"
proof -
  have q: "queue_rel p xs" and d: "distinct xs" using assms(1) by (auto simp: pool_state_def)
  obtain q1 where q1: "popleft_n n p = Inr (take (nat n) xs, q1)" "queue_rel q1 (drop (nat n) xs)"
    "queue_frame q1 = queue_frame p"
    using fq.popn_take [OF q assms(2,3)] by blast
  have s: "set (drop (nat n) xs @ take (nat n) xs) = set (xs @ [])"
    by (metis append_Nil2 append_take_drop_id set_append sup_commute)
  have dd: "distinct (drop (nat n) xs @ take (nat n) xs)"
    using d by (metis append_take_drop_id distinct_append inf_commute)
  note st = pool_state_queue [OF assms(1) q1(2,3) dd s]
  then obtain p' where p': "rfold alloc_block (take (nat n) xs) q1 = Inr p'" "pool_inv p' (drop (nat n) xs)"
    "\<And>c. hashes p' c = (if enable_caching q1 \<and> c \<in> set (take (nat n) xs) then None else hashes q1 c)"
    "\<And>c. refs p' c = (if c \<in> set (take (nat n) xs) then 1 else refs q1 c)" "pool_const p' = pool_const q1"
    using alloc_blocks_state [of q1 "drop (nat n) xs" "take (nat n) xs"] by blast
  have "num_free_blocks p = py_len xs" using q fq.rel_wf by blast
  then have "get_new_blocks n p = Inr (take (nat n) xs, p')"
    using assms(3) q1(1) p'(1) by (simp add: get_new_blocks_def rbind_def)
  then show ?thesis using p' st pool_const_eqD(2) [of q1 p] by auto
qed

lemma get_new_blocks_error:
  assumes "pool_inv p xs" "py_len xs < n"
  shows "get_new_blocks n p = Inl ValueError"
proof -
  have "num_free_blocks p = py_len xs" using assms(1) fq.rel_wf by (auto simp: pool_state_def)
  then show ?thesis using assms(2) by (simp add: get_new_blocks_def)
qed

end
