(* ===== verification/Block_Pool_Ops.thy ===== *)
theory Block_Pool_Ops
  imports Block_Pool
begin

text \<open>
  The remaining operations of the block pool on states that satisfy its invariant: touching,
  releasing, evicting, registering full blocks in the prefix cache, resetting and constructing.
\<close>

section \<open>Touching and releasing\<close>

lemma pool_state_usable: "pool_state p xs ys \<Longrightarrow> b \<in> set xs \<Longrightarrow> usable p b \<and> refs p b = 0"
  by (auto simp: pool_state_def)

lemma pool_inv_free_iff: "pool_inv p xs \<Longrightarrow> b \<in> set xs \<longleftrightarrow> usable p b \<and> refs p b = 0"
  by (simp add: pool_state_def)

lemma pool_inv_null:
  assumes "pool_state p xs ys"
  shows "is_null (heap p b) \<longleftrightarrow> b = null_block p" "b \<in> set (blocks p) \<Longrightarrow> b \<noteq> null_block p \<Longrightarrow> usable p b"
    "null_block p \<notin> set xs"
  using assms by (auto simp: pool_state_def pool_wf_def usable_def)

lemma pool_state_add_ref:
  assumes "pool_state p xs ys" "distinct (xs @ zs)"
    "\<And>c. c \<in> set (xs @ zs) \<longleftrightarrow> usable p c \<and> refs p c + (if c = b then d else 0) = 0"
    "\<And>c. usable p c \<Longrightarrow> 0 \<le> refs p c + (if c = b then d else 0)"
  shows "pool_state (add_ref d b p) xs zs \<and> hashes (add_ref d b p) = hashes p"
  using assms(2-4)
  by (intro pool_state_refs [OF assms(1), where r = "\<lambda>c. refs p c + (if c = b then d else 0)"]) auto

lemma touch_block_state:
  assumes "pool_inv p xs" "b \<in> set (blocks p)"
  shows "\<exists>p'. touch_block b p = Inr p' \<and> pool_inv p' (remove1 b xs) \<and> hashes p' = hashes p
           \<and> (\<forall>c. refs p' c = refs p c + (if c = b then 1 else 0)) \<and> pool_const p' = pool_const p"
proof -
  have dist: "distinct xs" using assms(1) by (simp add: pool_state_def)
  obtain q ys where q: "(if refs p b = 0 \<and> \<not> is_null (heap p b) then queue_remove b p else Inr p) = Inr q"
    "pool_state q (remove1 b xs) ys" "hashes q = hashes p" "\<And>c. refs q c = refs p c"
    "pool_const q = pool_const p" "b \<in> set xs \<longleftrightarrow> ys = [b]" "b \<notin> set xs \<longleftrightarrow> ys = []"
  proof (cases "b \<in> set xs")
    case True
    obtain q where q: "queue_remove b p = Inr q" "queue_rel q (remove1 b xs)" "queue_frame q = queue_frame p"
      using fq.rem_mem [of p xs b] assms(1) True by (auto simp: pool_state_def)
    have "pool_state q (remove1 b xs) [b] \<and> hashes q = hashes p \<and> (\<forall>c. refs q c = refs p c)
         \<and> pool_const q = pool_const p \<and> cached_block_hash_to_block q = cached_block_hash_to_block p"
      using dist True by (intro pool_state_queue [OF assms(1) q(2,3)]) auto
    moreover have "refs p b = 0" "\<not> is_null (heap p b)"
      using pool_state_usable [OF assms(1) True] pool_inv_null [OF assms(1)] by (auto simp: usable_def)
    ultimately show ?thesis using that [of q "[b]"] q(1) True by simp
  next
    case False
    then have "\<not> (refs p b = 0 \<and> \<not> is_null (heap p b))"
      using pool_inv_free_iff [OF assms(1)] pool_inv_null [OF assms(1)] assms(2) by auto
    then have "(if refs p b = 0 \<and> \<not> is_null (heap p b) then queue_remove b p else Inr p) = Inr p"
      by argo
    then show ?thesis using that [of p "[]"] assms(1) False by (simp only: remove1_idem) simp
  qed
  have b0: "usable p b \<Longrightarrow> refs p b = 0 \<longleftrightarrow> b \<in> set xs" using pool_inv_free_iff [OF assms(1)] by auto
  have u: "usable q c = usable p c" for c using q(5) by (rule pool_const_eqD)
  have "pool_state (add_ref 1 b q) (remove1 b xs) [] \<and> hashes (add_ref 1 b q) = hashes q"
  proof (rule pool_state_add_ref [OF q(2)])
    show "distinct (remove1 b xs @ [])" using dist by simp
    show "c \<in> set (remove1 b xs @ []) \<longleftrightarrow> usable q c \<and> refs q c + (if c = b then 1 else 0) = 0" for c
      using pool_inv_free_iff [OF assms(1), of c] dist assms(1) u q(4) by (auto simp: pool_state_def)
    show "0 \<le> refs q c + (if c = b then 1 else 0)" if "usable q c" for c
      using assms(1) that u q(4) by (simp add: pool_state_def)
  qed
  moreover have "touch_block b p = Inr (log_metric (OnAccessed b) (add_ref 1 b q))"
    using q(1) by (simp add: touch_block_def)
  ultimately show ?thesis
    using q(3-5) pool_state_cong [of "log_metric (OnAccessed b) (add_ref 1 b q)" "add_ref 1 b q"] by simp
qed

lemma touch_state:
  assumes "pool_inv p xs" "set bs \<subseteq> set (blocks p)"
  shows "\<exists>p'. touch bs p = Inr p' \<and> pool_inv p' (filter (\<lambda>b. b \<notin> set bs) xs) \<and> hashes p' = hashes p
           \<and> (\<forall>c. refs p' c = refs p c + int (count_list bs c)) \<and> pool_const p' = pool_const p"
  using assms
proof (induction bs arbitrary: p xs)
  case Nil
  then show ?case by (simp add: touch_def)
next
  case (Cons b bs)
  obtain q where q: "touch_block b p = Inr q" "pool_inv q (remove1 b xs)" "hashes q = hashes p"
    "\<And>c. refs q c = refs p c + (if c = b then 1 else 0)" "pool_const q = pool_const p"
    using touch_block_state [OF Cons.prems(1), of b] Cons.prems(2) by auto
  obtain p' where p': "touch bs q = Inr p'" "pool_inv p' (filter (\<lambda>b. b \<notin> set bs) (remove1 b xs))"
    "hashes p' = hashes q" "\<And>c. refs p' c = refs q c + int (count_list bs c)" "pool_const p' = pool_const q"
    using Cons.IH [OF q(2)] Cons.prems(2) pool_const_eqD(3) [OF q(5)] by auto
  have "distinct xs" using Cons.prems(1) by (simp add: pool_state_def)
  then have "filter (\<lambda>b. b \<notin> set bs) (remove1 b xs) = filter (\<lambda>c. c \<notin> set (b # bs)) xs"
    by (auto simp: distinct_remove1_removeAll removeAll_filter_not_eq intro!: filter_cong)
  then show ?case using q p' by (intro exI [of _ p']) (auto simp: touch_def)
qed

lemma fold_add_ref:
  "num_free_blocks (fold (add_ref d) bs p) = num_free_blocks p"
  "cached_block_hash_to_block (fold (add_ref d) bs p) = cached_block_hash_to_block p"
  "pool_const (fold (add_ref d) bs p) = pool_const p"
  "heap (fold (add_ref d) bs p) c = (heap p c)\<lparr>ref_cnt := refs p c + d * int (count_list bs c)\<rparr>"
  by (induction bs arbitrary: p) (auto simp: algebra_simps)

text \<open>
  Blocks may be released when every one is a block of the pool, no block but the null block
  occurs twice, and each is referenced.
\<close>

definition releasable :: "block_pool \<Rightarrow> blk list \<Rightarrow> bool" where
  "releasable p bs \<longleftrightarrow> set bs \<subseteq> set (blocks p) \<and> distinct (filter (\<lambda>b. b \<noteq> null_block p) bs) \<and>
     list_all (\<lambda>b. b \<noteq> null_block p \<longrightarrow> 1 \<le> refs p b) bs"

lemma releasable_count:
  assumes "releasable p bs" "c \<noteq> null_block p"
  shows "count_list bs c = (if c \<in> set bs then 1 else 0)"
proof -
  have "count_list bs c = count_list (filter (\<lambda>b. b \<noteq> null_block p) bs) c"
    using assms(2) by (induction bs) auto
  also have "\<dots> = (if c \<in> set bs then 1 else 0)"
    using assms by (auto simp: releasable_def count_list_mem_distinct)
  finally show ?thesis .
qed

lemma free_blocks_state:
  assumes "pool_inv p xs" "releasable p bs"
  shows "\<exists>p'. free_blocks bs p = Inr p'
           \<and> pool_inv p' (xs @ filter (\<lambda>b. b \<noteq> null_block p \<and> refs p b = 1) bs)
           \<and> hashes p' = hashes p \<and> (\<forall>c. refs p' c = refs p c - int (count_list bs c))
           \<and> pool_const p' = pool_const p"
proof -
  define q where "q = fold (add_ref (-1)) bs p"
  define zs where "zs = filter (\<lambda>b. b \<noteq> null_block p \<and> refs p b = 1) bs"
  have q: "num_free_blocks q = num_free_blocks p" "pool_const q = pool_const p"
    "cached_block_hash_to_block q = cached_block_hash_to_block p"
    "\<And>c. heap q c = (heap p c)\<lparr>ref_cnt := refs p c - int (count_list bs c)\<rparr>"
    by (simp_all add: q_def fold_add_ref)
  have cnt: "c \<noteq> null_block p \<Longrightarrow> int (count_list bs c) = (if c \<in> set bs then 1 else 0)" for c
    using releasable_count [OF assms(2)] by simp
  have pos: "c \<in> set bs \<Longrightarrow> c \<noteq> null_block p \<Longrightarrow> 1 \<le> refs p c \<and> usable p c" for c
    using assms(2) by (auto simp: releasable_def list_all_iff usable_def)
  have dzs: "distinct (xs @ zs)" "list_all real_blk zs" "set zs \<inter> set xs = {}"
  proof -
    have "zs = filter (\<lambda>b. refs p b = 1) (filter (\<lambda>b. b \<noteq> null_block p) bs)"
      by (simp add: zs_def conj_commute)
    then have "distinct zs" using assms(2) by (simp only: releasable_def distinct_filter)
    moreover show "set zs \<inter> set xs = {}" using pool_inv_free_iff [OF assms(1)] by (auto simp: zs_def)
    moreover have "distinct xs" using assms(1) by (simp add: pool_state_def)
    ultimately show "distinct (xs @ zs)" by auto
    show "list_all real_blk zs"
      using pos assms(1) usable_real by (auto simp: zs_def list_all_iff pool_state_def)
  qed
  have st: "pool_state q xs zs \<and> hashes q = hashes p"
  proof (rule pool_state_refs [OF assms(1) q(2,1,3), where r = "\<lambda>c. refs p c - int (count_list bs c)"])
    show "c \<in> set (xs @ zs) \<longleftrightarrow> usable p c \<and> refs p c - int (count_list bs c) = 0" for c
      using pool_inv_free_iff [OF assms(1), of c] pos [of c] cnt [of c]
      by (cases "c = null_block p") (auto simp: zs_def usable_def)
    show "0 \<le> refs p c - int (count_list bs c)" if "usable p c" for c
      using assms(1) that pos [of c] cnt [of c] by (auto simp: pool_state_def usable_def)
  qed (use q dzs in simp_all)
  obtain p' where p': "append_n zs q = Inr p'" "queue_rel p' (xs @ zs)" "queue_frame p' = queue_frame q"
    using fq.appn_last [of q xs zs] st dzs by (auto simp: pool_state_def)
  have fin: "pool_state p' (xs @ zs) [] \<and> hashes p' = hashes q \<and> (\<forall>c. refs p' c = refs q c)
      \<and> pool_const p' = pool_const q \<and> cached_block_hash_to_block p' = cached_block_hash_to_block q"
    using st dzs by (intro pool_state_queue [OF _ p'(2,3), of xs zs]) auto
  have "filter (\<lambda>b. refs q b = 0 \<and> \<not> is_null (heap q b)) bs = zs"
  proof -
    have "refs q b = 0 \<and> \<not> is_null (heap q b) \<longleftrightarrow> b \<noteq> null_block p \<and> refs p b = 1" if "b \<in> set bs" for b
      using pool_inv_null(1) [OF assms(1), of b] cnt [of b] that
      by (cases "b = null_block p") (simp_all add: q(4))
    then show ?thesis unfolding zs_def by (intro filter_cong) simp_all
  qed
  then have "free_blocks bs p = Inr p'" using p'(1) by (simp add: free_blocks_def q_def [symmetric] Let_def)
  then show ?thesis using fin st q(2,4) by (auto simp: zs_def)
qed

section \<open>Eviction by id\<close>

lemma evict_null:
  assumes "pool_state p xs ys"
  shows "maybe_evict_cached_block (null_block p) p = (False, log_metric (OnEvicted (null_block p)) p)"
proof -
  have "hashes p (null_block p) = None"
    using assms by (auto simp: pool_state_def cache_wf_def usable_def)
  then show ?thesis by (simp add: maybe_evict_cached_block_def hashes_def)
qed

lemma evict_blocks_state:
  assumes "pool_inv p xs" "list_all (\<lambda>i. 0 \<le> i \<and> i < num_gpu_blocks p) bids"
  shows "\<exists>p'. evict_blocks bids p = Inr p' \<and> pool_inv p' xs
           \<and> (\<forall>b. hashes p' b = (if block_id b \<in> set bids then None else hashes p b))
           \<and> (\<forall>c. refs p' c = refs p c) \<and> pool_const p' = pool_const p"
  using assms
proof (induction bids arbitrary: p)
  case Nil
  then show ?case by (simp add: evict_blocks_def)
next
  case (Cons i bids)
  have i: "0 \<le> i" "i < num_gpu_blocks p" and w: "pool_wf p"
    using Cons.prems by (auto simp: pool_state_def)
  have bl: "blocks p = map Blk [0..<nat (num_gpu_blocks p)]" using w unfolding pool_wf_def by blast
  define b where "b = Blk (nat i)"
  have "py_get (map Blk [0..<nat (num_gpu_blocks p)]) i = Inr b"
    using i by (simp add: idx_simps py_len_def b_def)
  then have get: "evict_block i p = Inr (snd (maybe_evict_cached_block b p))"
    using i bl by (simp add: evict_block_def py_len_def py_assert_def)
  have bid: "block_id b = i" using i by (simp add: b_def)
  have inb: "b \<in> set (blocks p)" unfolding bl using i by (simp add: b_def)
  define q where "q = snd (maybe_evict_cached_block b p)"
  have q: "pool_inv q xs \<and> hashes q = (hashes p)(b := None) \<and> (\<forall>c. refs q c = refs p c)
      \<and> pool_const q = pool_const p"
  proof (cases "b = null_block p")
    case True
    have "hashes p b = None" using True Cons.prems(1) by (auto simp: pool_state_def cache_wf_def usable_def)
    then show ?thesis
      using Cons.prems(1) True evict_null [OF Cons.prems(1)]
        pool_state_cong [of "log_metric (OnEvicted b) p" p] by (simp add: q_def fun_upd_idem)
  next
    case False
    then show ?thesis using evict_state [OF Cons.prems(1), of b] inb by (simp add: q_def usable_def)
  qed
  have bid_eq: "block_id c = i \<Longrightarrow> c = b" for c using i by (cases c) (auto simp: b_def)
  have "list_all (\<lambda>i. 0 \<le> i \<and> i < num_gpu_blocks q) bids"
    using Cons.prems(2) pool_const_eqD(1) [of q p] q by simp
  then obtain p' where p': "evict_blocks bids q = Inr p'" "pool_inv p' xs"
    "\<And>b. hashes p' b = (if block_id b \<in> set bids then None else hashes q b)"
    "\<And>c. refs p' c = refs q c" "pool_const p' = pool_const q"
    using Cons.IH [of q] q by blast
  have "hashes p' c = (if block_id c \<in> set (i # bids) then None else hashes p c)" for c
    using bid bid_eq [of c] p'(3) [of c] q by (cases "c = b") auto
  moreover have "evict_blocks (i # bids) p = Inr p'"
    using p'(1) get by (simp add: evict_blocks_def q_def)
  ultimately show ?case using p'(2,4,5) q by (intro exI [of _ p'] conjI) simp_all
qed

section \<open>Registering full blocks\<close>

text \<open>The keys the loop of \<^verbatim>\<open>cache_full_blocks\<close> assigns, by block.\<close>

definition cache_keys :: "bytes \<Rightarrow> blk \<Rightarrow> blk list \<Rightarrow> bytes list \<Rightarrow> (blk \<times> block_key) list" where
  "cache_keys g nb bs hs = map (\<lambda>(b, h). (b, h @ g)) (filter (\<lambda>(b, h). b \<noteq> nb) (zip bs hs))"

lemma cache_keys_Cons:
  "cache_keys g nb (b # bs) (h # hs) =
     (if b = nb then cache_keys g nb bs hs else (b, h @ g) # cache_keys g nb bs hs)"
  by (simp add: cache_keys_def)

lemma cache_keys_fst: "map_of (cache_keys g nb bs hs) b = Some k \<Longrightarrow> b \<in> set bs \<and> b \<noteq> nb"
  by (auto simp: cache_keys_def dest!: map_of_SomeD set_zip_leftD)

lemma cache_block_state:
  assumes "pool_state p xs ys" "usable p b" "hashes p b = None" "to_bytes4 gid = Inr g"
    and p'_def: "p' = p\<lparr>heap := (heap p)(b := (heap p b)\<lparr>hash_of := Some (h @ g)\<rparr>),
                  cached_block_hash_to_block := bmap_insert (h @ g) b (cached_block_hash_to_block p)\<rparr>"
  shows "pool_state p' xs ys \<and> hashes p' = (hashes p)(b \<mapsto> h @ g) \<and> (\<forall>c. refs p' c = refs p c)
         \<and> pool_const p' = pool_const p \<and> kv_event_queue p' = kv_event_queue p"
proof -
  have cw: "bmap_ok (cached_block_hash_to_block p)"
    "hash_agrees (bmap_blocks (cached_block_hash_to_block p)) (hashes p)" "real_blk b"
    using assms(1,2) usable_real by (auto simp: pool_state_def cache_wf_def)
  have ins: "bmap_ok (cached_block_hash_to_block p')"
    "hash_agrees (bmap_blocks (cached_block_hash_to_block p')) ((hashes p)(b \<mapsto> h @ g))"
    using bc.ins_agrees [OF cw assms(3), of "h @ g"] by (simp_all add: p'_def)
  have "pool_const p' = pool_const p \<and> kv_event_queue p' = kv_event_queue p"
    by (simp add: p'_def pool_const_def)
  moreover have "num_free_blocks p' = num_free_blocks p"
    "heap p' = (heap p)(b := (heap p b)\<lparr>hash_of := Some (h @ g)\<rparr>)" by (simp_all add: p'_def)
  ultimately show ?thesis using pool_state_hash [OF assms(1), of p' b "Some (h @ g)"] assms(2) ins by simp
qed

lemma cache_block_loop_state:
  assumes "pool_state p xs ys" "to_bytes4 gid = Inr g" "set bs \<subseteq> set (blocks p)"
    "distinct (filter (\<lambda>b. b \<noteq> null_block p) bs)"
    "list_all (\<lambda>b. hashes p b = None) bs" "i + length bs \<le> length hs"
  shows "\<exists>es p'. cache_block_loop gid hs bs (int i) p = Inr (es, p') \<and> pool_state p' xs ys
           \<and> hashes p' = hashes p ++ map_of (cache_keys g (null_block p) bs (drop i hs))
           \<and> (\<forall>c. refs p' c = refs p c) \<and> pool_const p' = pool_const p
           \<and> kv_event_queue p' = kv_event_queue p"
  using assms
proof (induction bs arbitrary: i p)
  case Nil
  then show ?case by (simp add: cache_keys_def)
next
  case (Cons b bs)
  have hs: "drop i hs = hs ! i # drop (Suc i) hs" "i < length hs"
    using Cons.prems(6) by (simp_all add: Cons_nth_drop_Suc)
  have ii: "int i + 1 = int (Suc i)" by simp
  show ?case
  proof (cases "b = null_block p")
    case True
    have "is_null (heap p b)" using True pool_inv_null(1) [OF Cons.prems(1)] by simp
    then have "cache_block_loop gid hs (b # bs) (int i) p = cache_block_loop gid hs bs (int (Suc i)) p"
      by (simp add: ii del: of_nat_Suc)
    moreover have "cache_keys g (null_block p) (b # bs) (drop i hs) = cache_keys g (null_block p) bs (drop (Suc i) hs)"
      using True by (simp add: hs(1) cache_keys_Cons)
    ultimately show ?thesis using Cons.IH [OF Cons.prems(1,2), of "Suc i"] Cons.prems(3-6) True by simp
  next
    case False
    let ?h = "hs ! i"
    define q where "q = p\<lparr>heap := (heap p)(b := (heap p b)\<lparr>hash_of := Some (?h @ g)\<rparr>),
        cached_block_hash_to_block := bmap_insert (?h @ g) b (cached_block_hash_to_block p)\<rparr>"
    have ub: "usable p b" and hb: "hashes p b = None" using False Cons.prems(3,5) by (auto simp: usable_def)
    note q = cache_block_state [OF Cons.prems(1) ub hb Cons.prems(2) q_def]
    have nb: "null_block q = null_block p" "blocks q = blocks p" using q pool_const_eqD by blast+
    have new: "b \<notin> set bs" using Cons.prems(4) False by simp
    have qs: "pool_state q xs ys" "set bs \<subseteq> set (blocks q)"
      "distinct (filter (\<lambda>b. b \<noteq> null_block q) bs)" "list_all (\<lambda>c. hashes q c = None) bs"
      "Suc i + length bs \<le> length hs"
      using Cons.prems(3-6) new q nb False by (auto simp: list_all_iff)
    obtain es p' where p': "cache_block_loop gid hs bs (int (Suc i)) q = Inr (es, p')"
      "pool_state p' xs ys" "hashes p' = hashes q ++ map_of (cache_keys g (null_block p) bs (drop (Suc i) hs))"
      "\<And>c. refs p' c = refs q c" "pool_const p' = pool_const q" "kv_event_queue p' = kv_event_queue q"
      using Cons.IH [OF qs(1) Cons.prems(2) qs(2-5)] unfolding nb by blast
    have "\<not> is_null (heap p b)" using usable_not_null ub Cons.prems(1) by (simp add: pool_state_def)
    then have "cache_block_loop gid hs (b # bs) (int i) p =
        Inr (maybe_convert_block_hash (use_int_block_hashes p) ?h # es, p')"
      using hb hs(2) Cons.prems(2) p'(1)
      by (simp add: py_assert_def hashes_def idx_simps py_len_def make_block_hash_with_group_id_def
          set_block_hash_def Let_def q_def ii del: of_nat_Suc)
    moreover have "b \<notin> dom (map_of (cache_keys g (null_block p) bs (drop (Suc i) hs)))"
      using new cache_keys_fst by fastforce
    then have "hashes p' = hashes p ++ map_of (cache_keys g (null_block p) (b # bs) (drop i hs))"
      using p'(3) q False by (simp add: hs(1) cache_keys_Cons map_add_upd_left)
    moreover have "\<forall>c. refs p' c = refs p c" "pool_const p' = pool_const p"
      "kv_event_queue p' = kv_event_queue p" using p'(4-6) q by simp_all
    ultimately show ?thesis using p'(2) by blast
  qed
qed

lemma generate_keys_total:
  assumes "0 \<le> idx"
  shows "\<exists>ks idx' r'. generate_block_hash_extra_keys env r s e idx = Inr (ks, idx', r')
           \<and> 0 \<le> idx' \<and> same_but_embeds r r'"
proof -
  obtain ks n where loop: "mm_key_loop (drop (nat idx) (mm_features r)) s e = (ks, n)" by force
  have "0 \<le> snd (mm_key_loop fs s e)" for fs
    by (induction fs) (auto simp: Let_def split: prod.splits)
  then have "0 \<le> n" using loop by (metis snd_conv)
  then have "\<exists>ks idx'. gen_mm_extra_hash_keys r s e idx = Inr (ks, idx') \<and> 0 \<le> idx'"
    using assms loop by (simp add: gen_mm_extra_hash_keys_def Let_def)
  moreover obtain ek r' where "gen_prompt_embeds_extra_hash_keys env r s e = (ek, r')" "same_but_embeds r r'"
    by (cases "prompt_embeds r"; cases "map_of (prompt_embeds_per_block_hashes r) (s, e)")
      (auto simp: gen_prompt_embeds_extra_hash_keys_def Let_def)
  ultimately show ?thesis by (auto simp: generate_block_hash_extra_keys_def Let_def)
qed

lemma event_keys_loop_total:
  assumes "0 \<le> idx" "list_all (\<lambda>i. 0 \<le> i \<and> i < py_len blks) is"
  shows "\<exists>ks r'. event_keys_loop env bs blks h is idx r = Inr (ks, r') \<and> same_but_embeds r r'"
  using assms
proof (induction "is" arbitrary: idx r)
  case (Cons i "is")
  then have get: "py_get blks i = Inr (blks ! nat i)" by (simp add: idx_simps)
  obtain ks idx' r' where g: "generate_block_hash_extra_keys env r (i * bs) (i * bs + bs) idx = Inr (ks, idx', r')"
    "0 \<le> idx'" "same_but_embeds r r'"
    using generate_keys_total [OF Cons.prems(1)] by blast
  show ?case
    using Cons.IH [OF Cons.prems(1), of r] Cons.IH [OF g(2), of r'] Cons.prems(2) get g
    by (auto intro: same_but_embeds_trans)
qed simp

definition hash_list_for :: "int \<Rightarrow> int \<Rightarrow> bytes list \<Rightarrow> block_hash_list" where
  "hash_list_for block_size hash_bs hs =
     (if block_size = hash_bs then Plain hs else Scaled hs (block_size div hash_bs))"

lemma bhl_len_list:
  assumes "l = hash_list_for bs hbs hs" "0 < hbs" "0 < bs" "bs mod hbs = 0"
  shows "py_len (bhl_list l) = bhl_len l" "0 \<le> i \<Longrightarrow> i < bhl_len l \<Longrightarrow> \<exists>h. bhl_value_at l i = Inr h"
proof -
  have "0 < bs div hbs" using assms(2-4) by (metis div_mult_mod_eq add.right_neutral zero_less_mult_pos2)
  then show "py_len (bhl_list l) = bhl_len l"
    using assms(1) by (auto simp: hash_list_for_def py_len_def pos_imp_zdiv_nonneg_iff)
  show "0 \<le> i \<Longrightarrow> i < bhl_len l \<Longrightarrow> \<exists>h. bhl_value_at l i = Inr h"
    using assms(1) by (auto simp: hash_list_for_def idx_simps)
qed

lemma cache_full_blocks_state:
  assumes "pool_inv p xs" "to_bytes4 gid = Inr g" "0 \<le> nc" "nf \<le> py_len blks"
    "set blks \<subseteq> set (blocks p)" "0 < bs" "0 < hash_block_size p" "bs mod hash_block_size p = 0"
    and l: "l = hash_list_for bs (hash_block_size p) (block_hashes r)"
    "nf \<le> py_len (block_hashes r)" "nf \<le> bhl_len l"
    and new: "new = py_slice blks nc nf" "distinct (filter (\<lambda>b. b \<noteq> null_block p) new)"
    "list_all (\<lambda>b. hashes p b = None) new" and nf: "0 \<le> nf"
  shows "\<exists>r' p'. cache_full_blocks env r blks nc nf bs gid p = Inr (r', p') \<and> same_but_embeds r r'
           \<and> pool_inv p' xs \<and> (\<forall>c. refs p' c = refs p c) \<and> pool_const p' = pool_const p
           \<and> hashes p' = hashes p ++ map_of (cache_keys g (null_block p) new (drop (nat nc) (bhl_list l)))"
proof (cases "nf \<le> nc")
  case True
  then have "new = []"
    using assms(3) nf new(1) by (simp add: idx_simps)
  then show ?thesis using True assms(1) by (simp add: cache_full_blocks_def cache_keys_def)
next
  case False
  have sub: "set new \<subseteq> set (blocks p)"
    using assms(3,5) False by (auto simp: new(1) idx_simps dest!: in_set_takeD in_set_dropD)
  have len: "0 + length new \<le> length (py_from (bhl_list l) nc)"
    "py_from (bhl_list l) nc = drop (nat nc) (bhl_list l)"
    using assms(3,4) False l(3) bhl_len_list(1) [OF l(1) assms(7,6,8)]
    by (auto simp: new(1) idx_simps py_len_def)
  obtain es q where q: "cache_block_loop gid (py_from (bhl_list l) nc) new 0 p = Inr (es, q)" "pool_inv q xs"
    "hashes q = hashes p ++ map_of (cache_keys g (null_block p) new (drop (nat nc) (bhl_list l)))"
    "\<And>c. refs q c = refs p c" "pool_const q = pool_const p"
    using cache_block_loop_state [OF assms(1,2) sub new(2,3) len(1)] len(2) by auto
  have bl: "(if bs = hash_block_size p then Inr (Plain (block_hashes r))
      else rbind (py_assert (bs mod hash_block_size p = 0))
        (\<lambda>_. BlockHashListWithBlockSize (block_hashes r) (hash_block_size p) bs)) = Inr l"
    using assms(7,8) l(1) by (simp add: hash_list_for_def BlockHashListWithBlockSize_def py_assert_def)
  obtain ks r' where keys: "event_keys_loop env bs blks (heap q) [nc..nf - 1] 0 r = Inr (ks, r')"
    "same_but_embeds r r'"
    using event_keys_loop_total [of 0 blks "[nc..nf - 1]" env bs "heap q" r] assms(3,4)
    by (auto simp: list_all_iff)
  have "nc \<noteq> 0 \<Longrightarrow> \<exists>h. bhl_value_at l (nc - 1) = Inr h"
    using bhl_len_list(2) [OF l(1) assms(7,6,8), of "nc - 1"] assms(3) False l(3) by simp
  then have "\<exists>e. stored_event env r blks nc nf bs gid l es q = Inr (r', add_event e q)"
    using keys(1) by (cases "nc = 0") (auto simp: stored_event_def)
  then obtain r2 q2 where fin: "(if enable_kv_cache_events q then stored_event env r blks nc nf bs gid l es q
      else Inr (r, q)) = Inr (r2, q2)" "same_but_embeds r r2" "heap q2 = heap q"
    "num_free_blocks q2 = num_free_blocks q" "pool_const q2 = pool_const q"
    "cached_block_hash_to_block q2 = cached_block_hash_to_block q"
    using keys(2) by (cases "enable_kv_cache_events q") auto
  have "cache_full_blocks env r blks nc nf bs gid p = Inr (r2, q2)"
    using False l(2) fin(1) q(1) bl by (simp add: cache_full_blocks_def py_assert_def new(1) [symmetric])
  then show ?thesis
    using fin(2,3,5) q(2-5) pool_state_cong [OF fin(3,4,6,5)] by auto
qed

section \<open>Reset and construction\<close>

lemma fold_reset_hash:
  "fold (\<lambda>b h. reset_hash h b) bs h c = (if c \<in> set bs then (h c)\<lparr>hash_of := None\<rparr> else h c)"
  by (induction bs arbitrary: h) (auto simp: reset_hash_def)

lemma pool_reset_state:
  assumes "pool_inv p xs" "py_len xs = num_gpu_blocks p - 1"
  shows "fst (pool_reset_prefix_cache p) \<and> pool_inv (snd (pool_reset_prefix_cache p)) xs
         \<and> hashes (snd (pool_reset_prefix_cache p)) = (\<lambda>_. None)
         \<and> (\<forall>c. refs (snd (pool_reset_prefix_cache p)) c = refs p c)
         \<and> pool_const (snd (pool_reset_prefix_cache p)) = pool_const p"
proof -
  have st: "pool_wf p" "queue_rel p xs" "cache_wf p" using assms(1) by (simp_all add: pool_state_def)
  then have free: "num_free_blocks p = py_len xs" using fq.rel_wf by blast
  define q where "q = snd (pool_reset_prefix_cache p)"
  have q: "fst (pool_reset_prefix_cache p)" "pool_const q = pool_const p" "num_free_blocks q = num_free_blocks p"
    "cached_block_hash_to_block q = bmap_empty"
    "\<And>c. heap q c = (if c \<in> set (blocks p) then (heap p c)\<lparr>hash_of := None\<rparr> else heap p c)"
    using free assms(2) by (simp_all add: q_def pool_reset_prefix_cache_def Let_def fold_reset_hash)
  note c = pool_const_eqD [OF q(2)]
  have h: "hashes q = (\<lambda>_. None)"
    using st(3) by (auto simp: hashes_def fun_eq_iff q(5) cache_wf_def usable_def)
  have r: "refs q b = refs p b" "is_null (heap q b) = is_null (heap p b)"
    "prev_of q b = prev_of p b" "next_of q b = next_of p b" for b
    by (simp_all add: q(5))
  have "queue_rel q xs" using st(2) q(3) r queue_rel_links [of p xs q] by simp
  moreover have "pool_wf q" using st(1) c r by (simp add: pool_wf_def)
  moreover have "cache_wf q"
    using bc.inv_emp bc.emp_agrees [of "hashes q"] by (simp add: cache_wf_def q(4) h)
  ultimately have "pool_inv q xs" using assms(1) c r unfolding pool_state_def by simp
  then show ?thesis using q(1,2) h r unfolding q_def by simp
qed

lemma pool_reset_fails:
  assumes "pool_inv p xs" "py_len xs \<noteq> num_gpu_blocks p - 1"
  shows "pool_reset_prefix_cache p = (False, p)"
proof -
  have "num_free_blocks p = py_len xs" using assms(1) fq.rel_wf by (auto simp: pool_state_def)
  then show ?thesis using assms(2) by (simp add: pool_reset_prefix_cache_def)
qed

lemma queue_init_fresh_meta:
  assumes "heap q = (\<lambda>_. new_block)"
  shows "ref_cnt (heap (queue_init bs q) b) = 0 \<and> hash_of (heap (queue_init bs q) b) = None \<and>
         \<not> is_null (heap (queue_init bs q) b)"
proof (cases b)
  case (Blk i)
  then show ?thesis using queue_init_meta [of b bs q] assms by (simp add: new_block_def)
qed (use assms same_meta_link_steps [of "heap q" bs "[0..<length bs]"] in
    \<open>auto simp: queue_init_def heap_upd_defs Let_def same_meta_def new_block_def\<close>)

lemma pool_init_state:
  assumes "0 < n"
  shows "\<exists>p. pool_init n caching hbs evs mets ih = Inr p \<and> pool_inv p (map Blk [1..<nat n])
           \<and> num_gpu_blocks p = n \<and> enable_caching p = caching \<and> hash_block_size p = hbs
           \<and> (\<forall>b. refs p b = 0) \<and> hashes p = (\<lambda>_. None)"
proof -
  let ?bs = "map Blk [0..<nat n]"
  define base where "base = \<lparr>heap = \<lambda>_. new_block, num_free_blocks = 0, num_gpu_blocks = n,
      enable_caching = caching, hash_block_size = hbs, blocks = ?bs,
      cached_block_hash_to_block = bmap_empty, null_block = FakeHead,
      enable_kv_cache_events = evs, kv_event_queue = [],
      metrics_collector = mets, use_int_block_hashes = ih\<rparr>"
  define p0 where "p0 = queue_init ?bs base"
  have "[0..<nat n] = 0 # [1..<nat n]" using assms by (simp add: upt_conv_Cons)
  then have bs: "?bs = Blk 0 # map Blk [1..<nat n]" by simp
  have "queue_rel p0 ?bs"
    unfolding p0_def by (rule queue_init_rel) (auto simp: distinct_map inj_on_def base_def new_block_def)
  then obtain p1 where p1: "popleft p0 = Inr (Blk 0, p1)" "queue_rel p1 (map Blk [1..<nat n])"
    "queue_frame p1 = queue_frame p0"
    unfolding bs using fq.pop_first by blast
  have more: "free_queue.more p1 = free_queue.more base" and meta: "same_meta (heap p0) (heap p1)"
    using p1(3) queue_init_more [of ?bs base] by (auto simp: queue_frame_def same_meta_def fun_eq_iff p0_def)
  have m: "refs p1 b = 0 \<and> hash_of (heap p1 b) = None \<and> \<not> is_null (heap p1 b)" for b
    using queue_init_fresh_meta [of base ?bs b] same_metaD [OF meta, of b] by (simp add: p0_def base_def)
  define p where "p = p1\<lparr>null_block := Blk 0, heap := (heap p1)(Blk 0 := (heap p1 (Blk 0))\<lparr>is_null := True\<rparr>)\<rparr>"
  have f: "num_gpu_blocks p = n" "enable_caching p = caching" "hash_block_size p = hbs" "blocks p = ?bs"
    "null_block p = Blk 0" "cached_block_hash_to_block p = bmap_empty"
    using pool_more_fields [OF more] by (simp_all add: p_def pool_const_def base_def)
  have h: "refs p b = 0" "hashes p = (\<lambda>_. None)" "is_null (heap p b) \<longleftrightarrow> b = Blk 0"
    "prev_of p b = prev_of p1 b" "next_of p b = next_of p1 b" for b
    using m by (auto simp: p_def hashes_def fun_eq_iff)
  have "queue_rel p (map Blk [1..<nat n])"
    using queue_rel_links [OF p1(2), of p] h by (simp add: p_def)
  moreover have "pool_wf p" using assms f h by (simp add: pool_wf_def)
  moreover have "cache_wf p"
    using bc.inv_emp bc.emp_agrees [of "hashes p"] by (simp add: cache_wf_def f h)
  moreover have "usable p b \<longleftrightarrow> b \<in> set (map Blk [1..<nat n])" for b
    using assms unfolding usable_def f bs by auto
  ultimately have "pool_inv p (map Blk [1..<nat n])"
    using h unfolding pool_state_def by (simp add: distinct_map inj_on_def)
  moreover have "pool_init n caching hbs evs mets ih = Inr p"
    using assms p1(1) by (simp add: pool_init_def py_assert_def Let_def p0_def base_def p_def)
  ultimately show ?thesis using f h by blast
qed

end
