(* ===== verification/KV_Cache_Spec.thy ===== *)
theory KV_Cache_Spec
  imports Py_Prelude
begin

text \<open>
  \<^verbatim>\<open>vllm/v1/kv_cache_interface.py\<close>: the KV cache formats of the layer types, their page sizes and
  memory bounds, the merging of the layers of one group and the uniform-type wrapper.  The record
  extensions follow the class hierarchy and \<open>kv_cache_spec\<close> has one constructor per class.
  \<open>element_size\<close>, the size in bytes of a torch data type, is a parameter; \<open>memory_config\<close> holds
  the configuration values the memory bounds read.
\<close>

section \<open>Quantisation modes\<close>

datatype kv_quant_mode =
    QUANT_NONE | FP8_PER_TENSOR | INT8_PER_TOKEN_HEAD | FP8_PER_TOKEN_HEAD | NVFP4

definition is_per_token_head :: "kv_quant_mode \<Rightarrow> bool" where
  "is_per_token_head m \<longleftrightarrow> m = INT8_PER_TOKEN_HEAD \<or> m = FP8_PER_TOKEN_HEAD"

definition get_kv_quant_mode :: "string \<Rightarrow> kv_quant_mode" where
  "get_kv_quant_mode s =
     (if s = ''int8_per_token_head'' then INT8_PER_TOKEN_HEAD
      else if s = ''fp8_per_token_head'' then FP8_PER_TOKEN_HEAD
      else if s = ''nvfp4'' then NVFP4
      else if take 3 s = ''fp8'' then FP8_PER_TENSOR
      else QUANT_NONE)"

definition is_quantized_kv_cache :: "string \<Rightarrow> bool" where
  "is_quantized_kv_cache s \<longleftrightarrow> get_kv_quant_mode s \<noteq> QUANT_NONE"

section \<open>Specs\<close>

definition round_up :: "int \<Rightarrow> int \<Rightarrow> int" where
  "round_up x y = ((x + y - 1) div y) * y"

definition nvfp4_kv_cache_full_dim :: "int \<Rightarrow> int" where
  "nvfp4_kv_cache_full_dim h = h div 2 + h div 16"

record attention_spec =
  a_block_size :: int
  a_num_kv_heads :: int
  a_head_size :: int
  a_dtype :: string
  a_kv_quant_mode :: kv_quant_mode
  a_page_size_padded :: "int option"

record full_attention_spec = attention_spec +
  f_head_size_v :: int
  f_sliding_window :: "int option"
  f_attention_chunk_size :: "int option"

record tq_full_attention_spec = full_attention_spec +
  tq_slot_size :: int

record mla_attention_spec = full_attention_spec +
  m_cache_dtype_str :: "string option"
  m_alignment :: "int option"
  m_compress_ratio :: int
  m_model_version :: "string option"

record sink_full_attention_spec = full_attention_spec +
  sink_len :: "int option"

record chunked_local_attention_spec = attention_spec +
  c_attention_chunk_size :: int

text \<open>
  \<^verbatim>\<open>__post_init__\<close> of \<^verbatim>\<open>SlidingWindowSpec\<close> fills in a missing value head size; that of
  \<^verbatim>\<open>SlidingWindowMLASpec\<close> does not call it, so there it stays \<^verbatim>\<open>None\<close>.
\<close>

record sliding_window_spec = attention_spec +
  s_sliding_window :: int
  s_head_size_v :: "int option"

record sliding_window_mla_spec = sliding_window_spec +
  w_cache_dtype_str :: "string option"
  w_alignment :: "int option"
  w_compress_ratio :: int
  w_model_version :: "string option"

record mamba_spec =
  b_block_size :: int
  b_shapes :: "int list list"
  b_dtypes :: "string list"
  b_page_size_padded :: "int option"
  b_mamba_type :: string
  b_mamba_cache_mode :: string
  b_num_speculative_blocks :: int

datatype kv_cache_spec =
    FullAttentionSpec full_attention_spec
  | TQFullAttentionSpec tq_full_attention_spec
  | MLAAttentionSpec mla_attention_spec
  | SinkFullAttentionSpec sink_full_attention_spec
  | ChunkedLocalAttentionSpec chunked_local_attention_spec
  | SlidingWindowSpec sliding_window_spec
  | SlidingWindowMLASpec sliding_window_mla_spec
  | MambaSpec mamba_spec
  | EncoderOnlyAttentionSpec attention_spec
  | CrossAttentionSpec attention_spec
  | UniformTypeKVCacheSpecs int "(string \<times> kv_cache_spec) list"

fun spec_block_size :: "kv_cache_spec \<Rightarrow> int" where
  "spec_block_size (FullAttentionSpec s) = a_block_size s"
| "spec_block_size (TQFullAttentionSpec s) = a_block_size s"
| "spec_block_size (MLAAttentionSpec s) = a_block_size s"
| "spec_block_size (SinkFullAttentionSpec s) = a_block_size s"
| "spec_block_size (ChunkedLocalAttentionSpec s) = a_block_size s"
| "spec_block_size (SlidingWindowSpec s) = a_block_size s"
| "spec_block_size (SlidingWindowMLASpec s) = a_block_size s"
| "spec_block_size (MambaSpec s) = b_block_size s"
| "spec_block_size (EncoderOnlyAttentionSpec s) = a_block_size s"
| "spec_block_size (CrossAttentionSpec s) = a_block_size s"
| "spec_block_size (UniformTypeKVCacheSpecs bs _) = bs"

text \<open>\<^verbatim>\<open>isinstance\<close> tests, subclasses included.\<close>

fun is_full_attention :: "kv_cache_spec \<Rightarrow> bool" where
  "is_full_attention (FullAttentionSpec _) = True"
| "is_full_attention (TQFullAttentionSpec _) = True"
| "is_full_attention (MLAAttentionSpec _) = True"
| "is_full_attention (SinkFullAttentionSpec _) = True"
| "is_full_attention _ = False"

fun is_mla_spec :: "kv_cache_spec \<Rightarrow> bool" where
  "is_mla_spec (MLAAttentionSpec _) = True"
| "is_mla_spec _ = False"

fun sliding_window_of :: "kv_cache_spec \<Rightarrow> int option" where
  "sliding_window_of (SlidingWindowSpec s) = Some (s_sliding_window s)"
| "sliding_window_of (SlidingWindowMLASpec s) = Some (s_sliding_window s)"
| "sliding_window_of _ = None"

section \<open>Page sizes\<close>

definition full_real_page_size :: "(string \<Rightarrow> int) \<Rightarrow> 'a full_attention_spec_scheme \<Rightarrow> int" where
  "full_real_page_size element_size s =
     (if a_kv_quant_mode s = NVFP4
      then a_block_size s * a_num_kv_heads s
           * (nvfp4_kv_cache_full_dim (a_head_size s) + nvfp4_kv_cache_full_dim (f_head_size_v s))
           * element_size (a_dtype s)
      else a_block_size s * a_num_kv_heads s * (a_head_size s + f_head_size_v s)
           * element_size (a_dtype s))"

definition tq_real_page_size :: "(string \<Rightarrow> int) \<Rightarrow> tq_full_attention_spec \<Rightarrow> int" where
  "tq_real_page_size element_size s =
     (if 0 < tq_slot_size s then a_block_size s * a_num_kv_heads s * tq_slot_size s
      else full_real_page_size element_size s)"

definition mla_storage_block_size :: "mla_attention_spec \<Rightarrow> int" where
  "mla_storage_block_size s = a_block_size s div m_compress_ratio s"

definition mla_real_page_size :: "(string \<Rightarrow> int) \<Rightarrow> mla_attention_spec \<Rightarrow> int" where
  "mla_real_page_size element_size s =
     (if m_cache_dtype_str s = Some ''fp8_ds_mla''
      then if m_model_version s = Some ''deepseek_v4'' then mla_storage_block_size s * 584
           else a_block_size s * 656
      else mla_storage_block_size s * a_num_kv_heads s * a_head_size s * element_size (a_dtype s))"

definition sliding_real_page_size :: "(string \<Rightarrow> int) \<Rightarrow> 'a sliding_window_spec_scheme \<Rightarrow> int res" where
  "sliding_real_page_size element_size s =
     (case s_head_size_v s of
        None \<Rightarrow> Inl TypeError
      | Some v \<Rightarrow> Inr (a_block_size s * a_num_kv_heads s * (a_head_size s + v) * element_size (a_dtype s)))"

definition swmla_storage_block_size :: "sliding_window_mla_spec \<Rightarrow> int" where
  "swmla_storage_block_size s = a_block_size s div w_compress_ratio s"

definition swmla_real_page_size :: "(string \<Rightarrow> int) \<Rightarrow> sliding_window_mla_spec \<Rightarrow> int res" where
  "swmla_real_page_size element_size s =
     (if w_model_version s = Some ''deepseek_v4'' then Inr (swmla_storage_block_size s * 584)
      else rbind (py_assert (w_model_version s = None)) (\<lambda>_.
        Inr (swmla_storage_block_size s * a_num_kv_heads s * a_head_size s * element_size (a_dtype s))))"

definition attention_real_page_size :: "(string \<Rightarrow> int) \<Rightarrow> 'a attention_spec_scheme \<Rightarrow> int" where
  "attention_real_page_size element_size s =
     2 * a_block_size s * a_num_kv_heads s * a_head_size s * element_size (a_dtype s)"

definition attention_page_size ::
  "(string \<Rightarrow> int) \<Rightarrow> 'a attention_spec_scheme \<Rightarrow> int \<Rightarrow> int res" where
  "attention_page_size element_size s real =
     (let r = (if is_per_token_head (a_kv_quant_mode s)
               then real + 2 * a_block_size s * a_num_kv_heads s * element_size ''float32''
               else real)
      in case a_page_size_padded s of
           None \<Rightarrow> Inr r
         | Some padded \<Rightarrow> rbind (py_assert (r \<le> padded)) (\<lambda>_. Inr padded))"

definition mamba_page_size :: "(string \<Rightarrow> int) \<Rightarrow> mamba_spec \<Rightarrow> int res" where
  "mamba_page_size element_size s =
     (let page = sum_list (map (\<lambda>(sh, d). prod_list sh * element_size d) (zip (b_shapes s) (b_dtypes s)))
      in case b_page_size_padded s of
           None \<Rightarrow> Inr page
         | Some padded \<Rightarrow> rbind (py_assert (page \<le> padded)) (\<lambda>_. Inr padded))"

fun page_size_bytes :: "(string \<Rightarrow> int) \<Rightarrow> kv_cache_spec \<Rightarrow> int res" where
  "page_size_bytes es (FullAttentionSpec s) = attention_page_size es s (full_real_page_size es s)"
| "page_size_bytes es (TQFullAttentionSpec s) = attention_page_size es s (tq_real_page_size es s)"
| "page_size_bytes es (MLAAttentionSpec s) = attention_page_size es s (mla_real_page_size es s)"
| "page_size_bytes es (SinkFullAttentionSpec s) = attention_page_size es s (full_real_page_size es s)"
| "page_size_bytes es (ChunkedLocalAttentionSpec s) =
     attention_page_size es s (attention_real_page_size es s)"
| "page_size_bytes es (SlidingWindowSpec s) =
     rbind (sliding_real_page_size es s) (attention_page_size es s)"
| "page_size_bytes es (SlidingWindowMLASpec s) =
     rbind (swmla_real_page_size es s) (attention_page_size es s)"
| "page_size_bytes es (MambaSpec s) = mamba_page_size es s"
| "page_size_bytes es (EncoderOnlyAttentionSpec s) =
     attention_page_size es s (attention_real_page_size es s)"
| "page_size_bytes es (CrossAttentionSpec s) = attention_page_size es s (attention_real_page_size es s)"
| "page_size_bytes es (UniformTypeKVCacheSpecs _ specs) =
     rbind (rmap (\<lambda>p. page_size_bytes es (snd p)) specs) (\<lambda>ps. Inr (sum_list ps))"

text \<open>\<^verbatim>\<open>__post_init__\<close> of the MLA specs: pad the page size to the alignment.\<close>

definition mla_post_init :: "(string \<Rightarrow> int) \<Rightarrow> mla_attention_spec \<Rightarrow> mla_attention_spec" where
  "mla_post_init es s =
     (case m_alignment s of
        None \<Rightarrow> s
      | Some al \<Rightarrow>
          let actual = mla_real_page_size es s; padded = round_up actual al
          in if padded \<noteq> actual then s\<lparr>a_page_size_padded := Some padded\<rparr> else s)"

definition swmla_post_init :: "(string \<Rightarrow> int) \<Rightarrow> sliding_window_mla_spec \<Rightarrow> sliding_window_mla_spec res" where
  "swmla_post_init es s =
     (case w_alignment s of
        None \<Rightarrow> Inr s
      | Some al \<Rightarrow>
          rbind (swmla_real_page_size es s) (\<lambda>actual.
            let padded = round_up actual al
            in Inr (if padded \<noteq> actual then s\<lparr>a_page_size_padded := Some padded\<rparr> else s)))"

text \<open>
  \<^verbatim>\<open>dataclasses.replace\<close> runs \<^verbatim>\<open>__post_init__\<close> again, which pads the page of an MLA spec to its alignment
  when the new page size is not a multiple of it.
\<close>

fun copy_with_new_block_size :: "(string \<Rightarrow> int) \<Rightarrow> kv_cache_spec \<Rightarrow> int \<Rightarrow> kv_cache_spec res" where
  "copy_with_new_block_size es (FullAttentionSpec s) n = Inr (FullAttentionSpec (s\<lparr>a_block_size := n\<rparr>))"
| "copy_with_new_block_size es (TQFullAttentionSpec s) n = Inr (TQFullAttentionSpec (s\<lparr>a_block_size := n\<rparr>))"
| "copy_with_new_block_size es (MLAAttentionSpec s) n =
     Inr (MLAAttentionSpec (mla_post_init es (s\<lparr>a_block_size := n\<rparr>)))"
| "copy_with_new_block_size es (SinkFullAttentionSpec s) n = Inr (SinkFullAttentionSpec (s\<lparr>a_block_size := n\<rparr>))"
| "copy_with_new_block_size es (ChunkedLocalAttentionSpec s) n =
     Inr (ChunkedLocalAttentionSpec (s\<lparr>a_block_size := n\<rparr>))"
| "copy_with_new_block_size es (SlidingWindowSpec s) n = Inr (SlidingWindowSpec (s\<lparr>a_block_size := n\<rparr>))"
| "copy_with_new_block_size es (SlidingWindowMLASpec s) n =
     rbind (swmla_post_init es (s\<lparr>a_block_size := n\<rparr>)) (\<lambda>s'. Inr (SlidingWindowMLASpec s'))"
| "copy_with_new_block_size es (MambaSpec s) n = Inr (MambaSpec (s\<lparr>b_block_size := n\<rparr>))"
| "copy_with_new_block_size es (EncoderOnlyAttentionSpec s) n =
     Inr (EncoderOnlyAttentionSpec (s\<lparr>a_block_size := n\<rparr>))"
| "copy_with_new_block_size es (CrossAttentionSpec s) n = Inr (CrossAttentionSpec (s\<lparr>a_block_size := n\<rparr>))"
| "copy_with_new_block_size es (UniformTypeKVCacheSpecs bs specs) n = Inr (UniformTypeKVCacheSpecs n specs)"

section \<open>Memory bounds\<close>

record memory_config =
  max_model_len :: int
  decode_context_parallel_size :: int
  prefill_context_parallel_size :: int
  max_num_batched_tokens :: int
  max_num_encoder_input_tokens :: int
  cfg_mamba_cache_mode :: string

definition sliding_max_admission :: "'a sliding_window_spec_scheme \<Rightarrow> int \<Rightarrow> int \<Rightarrow> int" where
  "sliding_max_admission s batched len =
     cdiv (min (s_sliding_window s - 1 + batched) len) (a_block_size s) + 1"

definition chunked_max_admission :: "chunked_local_attention_spec \<Rightarrow> int \<Rightarrow> int \<Rightarrow> int" where
  "chunked_max_admission s batched len =
     cdiv (min (c_attention_chunk_size s + batched) len) (a_block_size s)"

definition full_max_blocks :: "memory_config \<Rightarrow> int \<Rightarrow> int" where
  "full_max_blocks cfg bs =
     (let ways = decode_context_parallel_size cfg * prefill_context_parallel_size cfg;
          len = (if 1 < ways then cdiv (max_model_len cfg) ways else max_model_len cfg)
      in cdiv len bs)"

definition sliding_max_memory ::
  "memory_config \<Rightarrow> 'a sliding_window_spec_scheme \<Rightarrow> int res \<Rightarrow> int res" where
  "sliding_max_memory cfg s page =
     rbind (py_assert (decode_context_parallel_size cfg = 1)) (\<lambda>_.
     rbind page (\<lambda>ps.
       Inr (sliding_max_admission s (max_num_batched_tokens cfg) (max_model_len cfg) * ps)))"

definition mamba_max_memory :: "memory_config \<Rightarrow> mamba_spec \<Rightarrow> int \<Rightarrow> int" where
  "mamba_max_memory cfg s ps =
     (if cfg_mamba_cache_mode cfg = ''all'' then cdiv (max_model_len cfg) (b_block_size s) * ps
      else if cfg_mamba_cache_mode cfg = ''align'' then ps * (2 + b_num_speculative_blocks s)
      else ps * (1 + b_num_speculative_blocks s))"

text \<open>\<^verbatim>\<open>max\<close> over a non-empty generator; Python raises \<^verbatim>\<open>ValueError\<close> on an empty one.\<close>

fun py_max :: "int list \<Rightarrow> int res" where
  "py_max [] = Inl ValueError"
| "py_max (x # xs) = Inr (fold max xs x)"

fun max_memory_usage_bytes :: "(string \<Rightarrow> int) \<Rightarrow> memory_config \<Rightarrow> kv_cache_spec \<Rightarrow> int res" where
  "max_memory_usage_bytes es cfg (FullAttentionSpec s) =
     rbind (page_size_bytes es (FullAttentionSpec s)) (\<lambda>ps. Inr (full_max_blocks cfg (a_block_size s) * ps))"
| "max_memory_usage_bytes es cfg (TQFullAttentionSpec s) =
     rbind (page_size_bytes es (TQFullAttentionSpec s)) (\<lambda>ps. Inr (full_max_blocks cfg (a_block_size s) * ps))"
| "max_memory_usage_bytes es cfg (MLAAttentionSpec s) =
     rbind (page_size_bytes es (MLAAttentionSpec s)) (\<lambda>ps. Inr (full_max_blocks cfg (a_block_size s) * ps))"
| "max_memory_usage_bytes es cfg (SinkFullAttentionSpec s) =
     rbind (page_size_bytes es (SinkFullAttentionSpec s)) (\<lambda>ps. Inr (full_max_blocks cfg (a_block_size s) * ps))"
| "max_memory_usage_bytes es cfg (ChunkedLocalAttentionSpec s) =
     rbind (page_size_bytes es (ChunkedLocalAttentionSpec s)) (\<lambda>ps.
       Inr (chunked_max_admission s (max_num_batched_tokens cfg) (max_model_len cfg) * ps))"
| "max_memory_usage_bytes es cfg (SlidingWindowSpec s) =
     sliding_max_memory cfg s (page_size_bytes es (SlidingWindowSpec s))"
| "max_memory_usage_bytes es cfg (SlidingWindowMLASpec s) =
     sliding_max_memory cfg s (page_size_bytes es (SlidingWindowMLASpec s))"
| "max_memory_usage_bytes es cfg (MambaSpec s) =
     rbind (page_size_bytes es (MambaSpec s)) (\<lambda>ps. Inr (mamba_max_memory cfg s ps))"
| "max_memory_usage_bytes es cfg (EncoderOnlyAttentionSpec s) = Inr 0"
| "max_memory_usage_bytes es cfg (CrossAttentionSpec s) =
     rbind (page_size_bytes es (CrossAttentionSpec s)) (\<lambda>ps.
       Inr (cdiv (max_num_encoder_input_tokens cfg) (a_block_size s) * ps))"
| "max_memory_usage_bytes es cfg (UniformTypeKVCacheSpecs bs specs) =
     rbind (rmap (\<lambda>p. rbind (max_memory_usage_bytes es cfg (snd p)) (\<lambda>m.
                      rbind (page_size_bytes es (snd p)) (\<lambda>ps. Inr (cdiv m ps)))) specs) (\<lambda>pages.
     rbind (py_max pages) (\<lambda>n.
     rbind (page_size_bytes es (UniformTypeKVCacheSpecs bs specs)) (\<lambda>ps. Inr (n * ps))))"

section \<open>Merging the layers of a group\<close>

fun full_view :: "kv_cache_spec \<Rightarrow> full_attention_spec option" where
  "full_view (FullAttentionSpec s) = Some s"
| "full_view (TQFullAttentionSpec s) = Some (full_attention_spec.truncate s)"
| "full_view (MLAAttentionSpec s) = Some (full_attention_spec.truncate s)"
| "full_view (SinkFullAttentionSpec s) = Some (full_attention_spec.truncate s)"
| "full_view _ = None"

text \<open>The argument is a Python set; \<open>remdups\<close> of a list stands for building it.\<close>

fun merge_window_sizes :: "int list \<Rightarrow> int option res" where
  "merge_window_sizes [] = Inr None"
| "merge_window_sizes [w] = Inr (Some w)"
| "merge_window_sizes _ = Inl ValueError"

definition full_merge :: "kv_cache_spec list \<Rightarrow> full_attention_spec res" where
  "full_merge specs =
     rbind (py_assert (list_all is_full_attention specs)) (\<lambda>_.
       let views = List.map_filter full_view specs;
           windows = remdups (List.map_filter f_sliding_window views);
           chunks = remdups (List.map_filter f_attention_chunk_size views)
       in rbind (py_assert (\<not> list_ex is_mla_spec specs)) (\<lambda>_.
          case views of
            [] \<Rightarrow> Inl IndexError
          | s0 # _ \<Rightarrow>
              rbind (merge_window_sizes windows) (\<lambda>w.
              rbind (merge_window_sizes chunks) (\<lambda>c.
                let merged = s0\<lparr>f_sliding_window := w, f_attention_chunk_size := c\<rparr>
                in rbind (py_assert (list_all (\<lambda>s. attention_spec.truncate s
                                                    = attention_spec.truncate merged) views)) (\<lambda>_.
                   rbind (py_assert (w = None \<or> c = None)) (\<lambda>_. Inr merged))))))"

fun tq_slots_agree :: "int \<Rightarrow> kv_cache_spec list \<Rightarrow> bool res" where
  "tq_slots_agree n [] = Inr True"
| "tq_slots_agree n (TQFullAttentionSpec s # rest) =
     (if tq_slot_size s = n then tq_slots_agree n rest else Inr False)"
| "tq_slots_agree n (_ # rest) = Inl AttributeError"

definition tq_merge :: "tq_full_attention_spec \<Rightarrow> kv_cache_spec list \<Rightarrow> tq_full_attention_spec res" where
  "tq_merge s0 rest =
     rbind (full_merge (TQFullAttentionSpec s0 # rest)) (\<lambda>m.
     rbind (tq_slots_agree (tq_slot_size s0) rest) (\<lambda>agree.
     rbind (py_assert agree) (\<lambda>_.
       Inr (full_attention_spec.extend m (tq_full_attention_spec.fields (tq_slot_size s0))))))"

definition sink_merge :: "sink_full_attention_spec \<Rightarrow> kv_cache_spec list \<Rightarrow> sink_full_attention_spec res" where
  "sink_merge s0 rest =
     rbind (full_merge (SinkFullAttentionSpec s0 # rest)) (\<lambda>m.
       Inr (full_attention_spec.extend m (sink_full_attention_spec.fields (sink_len s0))))"

definition one_value :: "'a list \<Rightarrow> bool" where
  "one_value xs \<longleftrightarrow> length (remdups xs) = 1"

definition mla_merge :: "(string \<Rightarrow> int) \<Rightarrow> mla_attention_spec list \<Rightarrow> mla_attention_spec res" where
  "mla_merge es specs =
     rbind (py_assert (one_value (map m_cache_dtype_str specs) \<and> one_value (map m_compress_ratio specs) \<and>
                       one_value (map m_model_version specs))) (\<lambda>_.
       let s0 = hd specs
       in Inr (mla_post_init es
            (s0\<lparr>f_head_size_v := a_head_size s0, f_sliding_window := None,
               f_attention_chunk_size := None, m_alignment := None\<rparr>)))"

definition swmla_merge :: "(string \<Rightarrow> int) \<Rightarrow> sliding_window_mla_spec list \<Rightarrow> sliding_window_mla_spec res" where
  "swmla_merge es specs =
     rbind (py_assert (one_value (map w_cache_dtype_str specs) \<and> one_value (map w_compress_ratio specs) \<and>
                       one_value (map w_model_version specs) \<and> one_value (map s_sliding_window specs))) (\<lambda>_.
       swmla_post_init es ((hd specs)\<lparr>a_kv_quant_mode := QUANT_NONE, s_head_size_v := None, w_alignment := None\<rparr>))"

definition base_merge :: "kv_cache_spec list \<Rightarrow> kv_cache_spec res" where
  "base_merge specs =
     (case specs of
        [] \<Rightarrow> Inl IndexError
      | s0 # rest \<Rightarrow> rbind (py_assert (list_all (\<lambda>s. s = s0) rest)) (\<lambda>_. Inr s0))"

definition as_mla :: "kv_cache_spec \<Rightarrow> mla_attention_spec res" where
  "as_mla s = (case s of MLAAttentionSpec x \<Rightarrow> Inr x | _ \<Rightarrow> Inl AssertionError)"

definition as_swmla :: "kv_cache_spec \<Rightarrow> sliding_window_mla_spec res" where
  "as_swmla s = (case s of SlidingWindowMLASpec x \<Rightarrow> Inr x | _ \<Rightarrow> Inl AssertionError)"

text \<open>\<^verbatim>\<open>specs[0].merge(specs)\<close>: the class method of the first spec's class.\<close>

definition spec_merge :: "(string \<Rightarrow> int) \<Rightarrow> kv_cache_spec list \<Rightarrow> kv_cache_spec res" where
  "spec_merge es specs =
     (case specs of
        [] \<Rightarrow> Inl IndexError
      | s0 # rest \<Rightarrow>
          (case s0 of
             FullAttentionSpec _ \<Rightarrow> rbind (full_merge specs) (\<lambda>m. Inr (FullAttentionSpec m))
           | TQFullAttentionSpec s \<Rightarrow> rbind (tq_merge s rest) (\<lambda>m. Inr (TQFullAttentionSpec m))
           | SinkFullAttentionSpec s \<Rightarrow> rbind (sink_merge s rest) (\<lambda>m. Inr (SinkFullAttentionSpec m))
           | MLAAttentionSpec _ \<Rightarrow>
               rbind (rmap as_mla specs) (\<lambda>xs. rbind (mla_merge es xs) (\<lambda>m. Inr (MLAAttentionSpec m)))
           | SlidingWindowMLASpec _ \<Rightarrow>
               rbind (rmap as_swmla specs) (\<lambda>xs. rbind (swmla_merge es xs) (\<lambda>m. Inr (SlidingWindowMLASpec m)))
           | _ \<Rightarrow> base_merge specs))"

section \<open>Uniform types\<close>

definition same_type :: "kv_cache_spec \<Rightarrow> kv_cache_spec \<Rightarrow> bool res" where
  "same_type one s =
     (case one of
        SlidingWindowMLASpec o1 \<Rightarrow>
          Inr (case s of SlidingWindowMLASpec x \<Rightarrow> s_sliding_window x = s_sliding_window o1 | _ \<Rightarrow> False)
      | CrossAttentionSpec _ \<Rightarrow> Inr (case s of CrossAttentionSpec _ \<Rightarrow> True | _ \<Rightarrow> False)
      | SlidingWindowSpec o1 \<Rightarrow> Inr (sliding_window_of s = Some (s_sliding_window o1))
      | ChunkedLocalAttentionSpec o1 \<Rightarrow>
          Inr (case s of ChunkedLocalAttentionSpec x \<Rightarrow> c_attention_chunk_size x = c_attention_chunk_size o1
                       | _ \<Rightarrow> False)
      | MambaSpec o1 \<Rightarrow>
          Inr (case s of MambaSpec x \<Rightarrow> b_num_speculative_blocks x = b_num_speculative_blocks o1 | _ \<Rightarrow> False)
      | _ \<Rightarrow> if is_full_attention one then Inr (is_full_attention s) else Inl NotImplementedError)"

definition is_uniform_type :: "(string \<times> kv_cache_spec) list \<Rightarrow> bool res" where
  "is_uniform_type specs =
     (if 1 < length (remdups (map (spec_block_size \<circ> snd) specs)) then Inr False
      else case specs of
             [] \<Rightarrow> Inl StopIteration
           | (_, one) # _ \<Rightarrow>
               rbind (rmap (\<lambda>(_, s). same_type one s) specs) (\<lambda>bs. Inr (list_all (\<lambda>b. b) bs)))"

definition from_specs :: "(string \<times> kv_cache_spec) list \<Rightarrow> kv_cache_spec option res" where
  "from_specs specs =
     rbind (is_uniform_type specs) (\<lambda>u.
       Inr (if u then Some (UniformTypeKVCacheSpecs (spec_block_size (snd (hd specs))) specs) else None))"

definition get_page_sizes :: "(string \<Rightarrow> int) \<Rightarrow> (string \<times> kv_cache_spec) list \<Rightarrow> int list res" where
  "get_page_sizes es specs =
     rbind (rmap (\<lambda>(_, s). page_size_bytes es s) specs) (\<lambda>ps. Inr (remdups ps))"

definition get_num_layer_tuples :: "(string \<Rightarrow> int) \<Rightarrow> (string \<times> kv_cache_spec) list \<Rightarrow> nat res" where
  "get_num_layer_tuples es specs =
     rbind (rmap (\<lambda>(_, s). page_size_bytes es s) specs) (\<lambda>ps.
       case ps of [] \<Rightarrow> Inl IndexError
       | p # _ \<Rightarrow> Inr (fold max (map (count_list ps) ps) (count_list ps p)))"

definition max_memory_usage_pages ::
  "(string \<Rightarrow> int) \<Rightarrow> memory_config \<Rightarrow> (string \<times> kv_cache_spec) list \<Rightarrow> int res" where
  "max_memory_usage_pages es cfg specs =
     rbind (rmap (\<lambda>p. rbind (max_memory_usage_bytes es cfg (snd p)) (\<lambda>m.
                      rbind (page_size_bytes es (snd p)) (\<lambda>ps. Inr (cdiv m ps)))) specs) py_max"

section \<open>Configuration\<close>

record kv_cache_group_spec =
  layer_names :: "string list"
  group_spec :: kv_cache_spec
  is_eagle_group :: bool

record nelssa_config =
  nelssa_enabled :: bool
  first_n :: int
  last_m :: int
  prompt_length_threshold :: int
  max_num_long_requests :: int

definition nelssa_check :: "nelssa_config \<Rightarrow> int \<Rightarrow> bool" where
  "nelssa_check c n \<longleftrightarrow> nelssa_enabled c \<and> prompt_length_threshold c \<le> n"

definition get_gpu_tokens_count :: "nelssa_config \<Rightarrow> int" where
  "get_gpu_tokens_count c = first_n c + last_m c"

definition get_cpu_buffer_size :: "nelssa_config \<Rightarrow> int \<Rightarrow> int" where
  "get_cpu_buffer_size c seq_len = max 0 (seq_len - get_gpu_tokens_count c)"

record kv_cache_config =
  num_blocks :: int
  kv_cache_tensors :: "(int \<times> string list) list"
  kv_cache_groups :: "kv_cache_group_spec list"
  nelssa_config_of :: "nelssa_config option"

fun is_mamba_spec :: "kv_cache_spec \<Rightarrow> bool" where
  "is_mamba_spec (MambaSpec _) = True"
| "is_mamba_spec _ = False"

definition has_mamba_layers :: "kv_cache_config \<Rightarrow> bool" where
  "has_mamba_layers c \<longleftrightarrow> list_ex (\<lambda>g. is_mamba_spec (group_spec g)) (kv_cache_groups c)"

section \<open>Blocks under a token range\<close>

lemma token_range_blocks:
  assumes "0 < b" "s \<le> e"
  shows "cdiv e b - s div b \<le> cdiv (e - s) b + 1"
proof -
  have "s < (s div b + 1) * b"
    using div_mult_mod_eq [of s b] pos_mod_bound [OF assms(1), of s]
    by (simp only: distrib_right mult_1)
  moreover have "e - s \<le> cdiv (e - s) b * b"
    by (rule cdiv_mult_ge [OF assms(1)])
  ultimately have "e \<le> (s div b + cdiv (e - s) b + 1) * b"
    by (simp add: algebra_simps)
  then show ?thesis
    using cdiv_le_iff [OF assms(1), of e "s div b + cdiv (e - s) b + 1"] by linarith
qed

lemma aligned_range_blocks:
  assumes "0 < b" "b dvd s"
  shows "cdiv e b - s div b \<le> cdiv (e - s) b"
proof -
  have "s = s div b * b" using assms(2) by simp
  moreover have "e - s \<le> cdiv (e - s) b * b"
    by (rule cdiv_mult_ge [OF assms(1)])
  ultimately have "e \<le> (s div b + cdiv (e - s) b) * b"
    by (simp add: algebra_simps)
  then show ?thesis
    using cdiv_le_iff [OF assms(1), of e "s div b + cdiv (e - s) b"] by linarith
qed

section \<open>Memory of a uniform group\<close>

lemma rmap_Inr_nth: "rmap f xs = Inr ys \<Longrightarrow> i < length xs \<Longrightarrow> f (xs ! i) = Inr (ys ! i)"
proof (induction xs arbitrary: ys i)
  case (Cons x xs)
  then show ?case
    by (cases i) (auto simp: rbind_def split: sum.splits)
qed simp

lemma rmap_Inr_set:
  assumes "rmap f xs = Inr ys" "x \<in> set xs"
  obtains y where "f x = Inr y" "y \<in> set ys"
proof -
  obtain i where i: "i < length xs" "xs ! i = x" using assms(2) by (auto simp: in_set_conv_nth)
  have "f x = Inr (ys ! i)" using rmap_Inr_nth [OF assms(1) i(1)] i(2) by simp
  moreover have "ys ! i \<in> set ys" using i(1) rmap_eq_Inr_length [OF assms(1)] by simp
  ultimately show thesis by (rule that)
qed

lemma fold_max_ge: "(x :: int) \<le> fold max xs x" "y \<in> set xs \<Longrightarrow> y \<le> fold max xs x"
proof (induction xs arbitrary: x)
  case (Cons a xs)
  { case 1 show ?case using Cons.IH(1) [of "max a x"] by simp }
  { case 2 then show ?case
      using Cons.IH(1) [of "max a x"] Cons.IH(2) [of "max a x"] by auto }
qed simp_all

lemma py_max_ge: "py_max xs = Inr m \<Longrightarrow> x \<in> set xs \<Longrightarrow> x \<le> m"
  using fold_max_ge by (cases xs) auto

text \<open>The pages of all layers of the group, as the wrapper computes them.\<close>

lemma uniform_memory_cases:
  assumes "max_memory_usage_bytes es cfg (UniformTypeKVCacheSpecs bs specs) = Inr bytes"
  obtains pages sizes n where
    "rmap (\<lambda>p. rbind (max_memory_usage_bytes es cfg (snd p)) (\<lambda>m.
            rbind (page_size_bytes es (snd p)) (\<lambda>ps. Inr (cdiv m ps)))) specs = Inr pages"
    "py_max pages = Inr n" "rmap (\<lambda>p. page_size_bytes es (snd p)) specs = Inr sizes"
    "bytes = n * sum_list sizes"
  using assms by (auto simp: rbind_def split: sum.splits)

text \<open>
  The memory bound of a uniform group covers its layers: it is a number \<open>n\<close> of blocks times the
  joint page size, and every layer's own memory bound fits into \<open>n\<close> of that layer's pages.
\<close>

lemma uniform_group_memory_covers_layers:
  assumes "max_memory_usage_bytes es cfg (UniformTypeKVCacheSpecs bs specs) = Inr bytes"
    and "\<forall>(k, s) \<in> set specs. \<forall>ps. page_size_bytes es s = Inr ps \<longrightarrow> 0 < ps"
  shows "\<exists>n ps. page_size_bytes es (UniformTypeKVCacheSpecs bs specs) = Inr ps \<and> bytes = n * ps \<and>
    (\<forall>(k, s) \<in> set specs. \<exists>m p. max_memory_usage_bytes es cfg s = Inr m \<and>
        page_size_bytes es s = Inr p \<and> m \<le> n * p)"
proof -
  obtain pages sizes n where pages:
    "rmap (\<lambda>p. rbind (max_memory_usage_bytes es cfg (snd p)) (\<lambda>m.
            rbind (page_size_bytes es (snd p)) (\<lambda>ps. Inr (cdiv m ps)))) specs = Inr pages"
    and n: "py_max pages = Inr n"
    and sizes: "rmap (\<lambda>p. page_size_bytes es (snd p)) specs = Inr sizes"
    and bytes: "bytes = n * sum_list sizes"
    by (rule uniform_memory_cases [OF assms(1)])
  have layer: "\<exists>m p. max_memory_usage_bytes es cfg s = Inr m \<and> page_size_bytes es s = Inr p \<and> m \<le> n * p"
    if ks: "(k, s) \<in> set specs" for k s
  proof -
    obtain y where y: "rbind (max_memory_usage_bytes es cfg s) (\<lambda>m.
            rbind (page_size_bytes es s) (\<lambda>ps. Inr (cdiv m ps))) = Inr y" "y \<in> set pages"
      using rmap_Inr_set [OF pages ks] by auto
    then obtain m p where mp: "max_memory_usage_bytes es cfg s = Inr m" "page_size_bytes es s = Inr p"
        "y = cdiv m p"
      by (auto simp: rbind_def split: sum.splits)
    have "0 < p" using assms(2) ks mp(2) by blast
    then show ?thesis
      using mp cdiv_le_iff [of p m n] py_max_ge [OF n y(2)] by blast
  qed
  have "page_size_bytes es (UniformTypeKVCacheSpecs bs specs) = Inr (sum_list sizes)"
    using sizes by simp
  then show ?thesis using bytes layer by blast
qed

definition demo_spec :: "int \<Rightarrow> full_attention_spec" where
  "demo_spec h = \<lparr>a_block_size = 16, a_num_kv_heads = 2, a_head_size = h, a_dtype = ''bfloat16'',
     a_kv_quant_mode = QUANT_NONE, a_page_size_padded = None, f_head_size_v = h,
     f_sliding_window = None, f_attention_chunk_size = None\<rparr>"

definition demo_memory_config :: memory_config where
  "demo_memory_config = \<lparr>max_model_len = 100, decode_context_parallel_size = 1,
     prefill_context_parallel_size = 1, max_num_batched_tokens = 32,
     max_num_encoder_input_tokens = 0, cfg_mamba_cache_mode = ''none''\<rparr>"

definition demo_group :: "(string \<times> kv_cache_spec) list" where
  "demo_group = [(''l0'', FullAttentionSpec (demo_spec 64)), (''l1'', FullAttentionSpec (demo_spec 128))]"

section \<open>Merged layers\<close>

lemma merge_window_sizes_Inr:
  "merge_window_sizes ws = Inr w \<Longrightarrow> x \<in> set ws \<Longrightarrow> w = Some x"
  by (cases ws rule: merge_window_sizes.cases) auto

lemma merged_windows:
  assumes "merge_window_sizes (remdups (List.map_filter f vs)) = Inr w" "v \<in> set vs"
  shows "f v = None \<or> f v = w"
proof (cases "f v")
  case (Some x)
  then have "x \<in> set (remdups (List.map_filter f vs))"
    using assms(2) by (force simp: List.map_filter_def)
  then show ?thesis using merge_window_sizes_Inr [OF assms(1)] Some by simp
qed simp

lemma full_attention_view: "is_full_attention s \<Longrightarrow> \<exists>v. full_view s = Some v"
  by (cases s) auto

text \<open>What a successful merge has checked.\<close>

lemma full_merge_cases:
  assumes "full_merge specs = Inr m"
  obtains s0 rest w c where "list_all is_full_attention specs"
    "List.map_filter full_view specs = s0 # rest"
    "merge_window_sizes (remdups (List.map_filter f_sliding_window (s0 # rest))) = Inr w"
    "merge_window_sizes (remdups (List.map_filter f_attention_chunk_size (s0 # rest))) = Inr c"
    "m = s0\<lparr>f_sliding_window := w, f_attention_chunk_size := c\<rparr>"
    "\<forall>v \<in> set (s0 # rest). attention_spec.truncate v = attention_spec.truncate m"
    "w = None \<or> c = None"
proof (cases "List.map_filter full_view specs")
  case Nil
  then show thesis using assms by (simp add: full_merge_def rbind_def py_assert_def split: if_splits)
next
  case (Cons s0 rest)
  note parts = assms [unfolded full_merge_def Let_def Cons list.case]
  show thesis
    using parts that [OF _ Cons]
    by (auto simp add: rbind_def py_assert_def list_all_iff simp del: set_remdups
        split: if_splits sum.splits)
qed

lemma same_page_size:
  "attention_spec.truncate v = attention_spec.truncate m \<Longrightarrow> f_head_size_v v = f_head_size_v m \<Longrightarrow>
   full_real_page_size es v = full_real_page_size es m"
  by (simp add: full_real_page_size_def attention_spec.truncate_def)

text \<open>
  C27. Merging full-attention layers is sound: every merged layer has the block size, heads, dtype,
  quantisation and padding of the result, a layer's window and chunk size are absent or those of the
  result, which never has both, and layers that agree on the value head size have its page size.
\<close>

theorem full_merge_sound:
  assumes "full_merge specs = Inr m"
  shows "(f_sliding_window m = None \<or> f_attention_chunk_size m = None) \<and>
    (\<forall>s \<in> set specs. \<exists>v. full_view s = Some v \<and>
       attention_spec.truncate v = attention_spec.truncate m \<and>
       f_sliding_window v \<in> {None, f_sliding_window m} \<and>
       f_attention_chunk_size v \<in> {None, f_attention_chunk_size m} \<and>
       (f_head_size_v v = f_head_size_v m \<longrightarrow> full_real_page_size es v = full_real_page_size es m))"
proof -
  obtain s0 rest w c where full: "list_all is_full_attention specs"
    and views: "List.map_filter full_view specs = s0 # rest"
    and w: "merge_window_sizes (remdups (List.map_filter f_sliding_window (s0 # rest))) = Inr w"
    and c: "merge_window_sizes (remdups (List.map_filter f_attention_chunk_size (s0 # rest))) = Inr c"
    and m: "m = s0\<lparr>f_sliding_window := w, f_attention_chunk_size := c\<rparr>"
    and same: "\<forall>v \<in> set (s0 # rest). attention_spec.truncate v = attention_spec.truncate m"
    and one: "w = None \<or> c = None"
    by (rule full_merge_cases [OF assms])
  have layer: "\<exists>v. full_view s = Some v \<and> v \<in> set (s0 # rest)" if "s \<in> set specs" for s
    using full_attention_view [of s] full that views [symmetric]
    by (force simp: list_all_iff List.map_filter_def)
  have windows: "f_sliding_window v \<in> {None, f_sliding_window m}"
      "f_attention_chunk_size v \<in> {None, f_attention_chunk_size m}" if "v \<in> set (s0 # rest)" for v
    using merged_windows [OF w that] merged_windows [OF c that] m by auto
  have "f_sliding_window m = None \<or> f_attention_chunk_size m = None"
    using m one by auto
  then show ?thesis
    using layer windows same same_page_size by meson
qed

theorem full_merge_sound_witness:
  "full_merge [FullAttentionSpec (demo_spec 64),
       FullAttentionSpec (demo_spec 64\<lparr>f_sliding_window := Some 32\<rparr>)]
     = Inr (demo_spec 64\<lparr>f_sliding_window := Some 32\<rparr>) \<and>
   (\<exists>v. full_view (FullAttentionSpec (demo_spec 64)) = Some v \<and>
      full_real_page_size (\<lambda>_. 2) v = full_real_page_size (\<lambda>_. 2) (demo_spec 64\<lparr>f_sliding_window := Some 32\<rparr>))"
proof -
  let ?specs = "[FullAttentionSpec (demo_spec 64),
       FullAttentionSpec (demo_spec 64\<lparr>f_sliding_window := Some 32\<rparr>)]"
  have run: "full_merge ?specs = Inr (demo_spec 64\<lparr>f_sliding_window := Some 32\<rparr>)"
    by code_simp
  show ?thesis
    using run full_merge_sound [OF run, of "\<lambda>_. 2"] by (simp add: demo_spec_def)
qed

text \<open>
  C40. The merge does not compare the value head sizes: any layers that differ from the first in nothing
  else are merged into the spec of the first, and for every layer whose value head is larger, the page of
  the result is smaller than the page of that layer (pages unpadded, head sizes not packed as NVFP4).
\<close>

theorem full_merge_ignores_value_head_size:
  assumes "f_sliding_window s = None \<or> f_attention_chunk_size s = None"
  shows "full_merge (FullAttentionSpec s # map (\<lambda>v. FullAttentionSpec (s\<lparr>f_head_size_v := v\<rparr>)) vs) = Inr s \<and>
   (a_page_size_padded s = None \<longrightarrow> a_kv_quant_mode s \<noteq> NVFP4 \<longrightarrow>
    0 < a_block_size s * a_num_kv_heads s * es (a_dtype s) \<longrightarrow>
    (\<forall>v \<in> set vs. f_head_size_v s < v \<longrightarrow>
       (\<exists>page page'. page_size_bytes es (FullAttentionSpec s) = Inr page \<and>
          page_size_bytes es (FullAttentionSpec (s\<lparr>f_head_size_v := v\<rparr>)) = Inr page' \<and> page < page')))"
proof (intro conjI impI ballI)
  have views: "List.map_filter full_view (FullAttentionSpec s # map (\<lambda>v. FullAttentionSpec (s\<lparr>f_head_size_v := v\<rparr>)) vs)
      = s # map (\<lambda>v. s\<lparr>f_head_size_v := v\<rparr>) vs"
    by (induction vs) (simp_all add: List.map_filter_def)
  have same: "remdups (List.map_filter g (s # map (\<lambda>v. s\<lparr>f_head_size_v := v\<rparr>) vs)) = (case g s of None \<Rightarrow> [] | Some w \<Rightarrow> [w])"
    if "\<And>v. g (s\<lparr>f_head_size_v := v\<rparr>) = g s" for g :: "full_attention_spec \<Rightarrow> int option"
    using that by (induction vs) (auto simp: List.map_filter_def split: option.splits)
  show "full_merge (FullAttentionSpec s # map (\<lambda>v. FullAttentionSpec (s\<lparr>f_head_size_v := v\<rparr>)) vs) = Inr s"
    using assms same [of f_sliding_window] same [of f_attention_chunk_size]
    unfolding full_merge_def views
    by (auto simp: list_all_iff list_ex_iff attention_spec.defs split: option.splits)
next
  fix v assume "a_page_size_padded s = None" "a_kv_quant_mode s \<noteq> NVFP4" "f_head_size_v s < v"
    and pos: "0 < a_block_size s * a_num_kv_heads s * es (a_dtype s)"
  then have "a_block_size s * a_num_kv_heads s * es (a_dtype s) * (a_head_size s + f_head_size_v s)
      < a_block_size s * a_num_kv_heads s * es (a_dtype s) * (a_head_size s + v)"
    by (intro mult_strict_left_mono) auto
  then show "\<exists>page page'. page_size_bytes es (FullAttentionSpec s) = Inr page \<and>
      page_size_bytes es (FullAttentionSpec (s\<lparr>f_head_size_v := v\<rparr>)) = Inr page' \<and> page < page'"
    using \<open>a_page_size_padded s = None\<close> \<open>a_kv_quant_mode s \<noteq> NVFP4\<close>
    by (simp add: attention_page_size_def full_real_page_size_def Let_def mult.assoc mult.commute mult.left_commute)
qed

theorem full_merge_ignores_value_head_size_witness:
  "full_merge [FullAttentionSpec (demo_spec 64), FullAttentionSpec (demo_spec 64\<lparr>f_head_size_v := 128\<rparr>)] = Inr (demo_spec 64) \<and>
   (\<exists>page page'. page_size_bytes (\<lambda>_. 2) (FullAttentionSpec (demo_spec 64)) = Inr page \<and>
      page_size_bytes (\<lambda>_. 2) (FullAttentionSpec (demo_spec 64\<lparr>f_head_size_v := 128\<rparr>)) = Inr page' \<and> page < page')"
  using full_merge_ignores_value_head_size [of "demo_spec 64" "[128]" "\<lambda>_. 2"] by (simp add: demo_spec_def)

end
