(* ===== verification/Single_Type_Manager.thy ===== *)
theory Single_Type_Manager
  imports Block_Pool_Ops KV_Cache_Spec
begin

text \<open>
  The managers of \<^verbatim>\<open>vllm/v1/core/single_type_kv_cache_manager.py\<close>, one per KV cache group.  The
  block pool they share is passed along explicitly.  \<open>manager\<close> has the fields of the base class
  and of every subclass, \<open>mgr_class\<close> selects the methods a subclass overrides; an overridden method
  \<open>f\<close> has its base version in \<open>base_f\<close>.  \<^verbatim>\<open>req_to_blocks\<close> is a \<^verbatim>\<open>defaultdict\<close>, so reading a
  missing request inserts an empty list (\<open>with_req\<close>).
\<close>

section \<open>State\<close>

datatype manager_class =
    FullAttentionManager
  | SlidingWindowManager
  | ChunkedLocalAttentionManager
  | MambaManager
  | CrossAttentionManager
  | SinkFullAttentionManager
  | NELSSACacheManager

record manager =
  mgr_class :: manager_class
  mgr_block_size :: int
  mgr_spec :: kv_cache_spec
  mgr_enable_caching :: bool
  max_admission :: "int option"
  new_block_ids :: "int list"
  req_to_blocks :: "(string \<times> blk list) list"
  num_cached_block :: "(string \<times> int) list"
  kv_cache_group_id :: int
  mgr_null_block :: blk
  sliding_window :: int
  attention_chunk_size :: int
  mamba_cache_mode :: string
  num_speculative_blocks :: int
  cached_blocks_this_step :: "block_key list"
  last_state_block_idx :: "(string \<times> int) list"
  allocated_block_reqs :: "string list"
  sink_blocks :: "blk list"
  nelssa_head_size :: int
  nelssa_tail_size :: int
  long_requests :: "string list"
  nelssa_tail_blocks :: "(string \<times> int) list"
  nelssa_tail_start_pos :: "(string \<times> int) list"

definition blocks_of :: "manager \<Rightarrow> string \<Rightarrow> blk list" where
  "blocks_of m rid = (case map_of (req_to_blocks m) rid of None \<Rightarrow> [] | Some bs \<Rightarrow> bs)"

definition cached_of :: "manager \<Rightarrow> string \<Rightarrow> int" where
  "cached_of m rid = (case map_of (num_cached_block m) rid of None \<Rightarrow> 0 | Some n \<Rightarrow> n)"

definition with_req :: "string \<Rightarrow> manager \<Rightarrow> manager" where
  "with_req rid m =
     (if map_of (req_to_blocks m) rid = None then m\<lparr>req_to_blocks := AList.update rid [] (req_to_blocks m)\<rparr>
      else m)"

definition set_blocks :: "string \<Rightarrow> blk list \<Rightarrow> manager \<Rightarrow> manager" where
  "set_blocks rid bs m = m\<lparr>req_to_blocks := AList.update rid bs (req_to_blocks m)\<rparr>"

definition set_cached :: "string \<Rightarrow> int \<Rightarrow> manager \<Rightarrow> manager" where
  "set_cached rid n m = m\<lparr>num_cached_block := AList.update rid n (num_cached_block m)\<rparr>"

definition is_running :: "manager \<Rightarrow> string \<Rightarrow> bool" where
  "is_running m rid \<longleftrightarrow> map_of (num_cached_block m) rid \<noteq> None"

section \<open>Construction\<close>

definition new_manager ::
  "manager_class \<Rightarrow> kv_cache_spec \<Rightarrow> block_pool \<Rightarrow> bool \<Rightarrow> int \<Rightarrow> int \<Rightarrow> int \<Rightarrow> int option \<Rightarrow> manager" where
  "new_manager cls spec p caching gid dcp pcp cap =
     \<lparr>mgr_class = cls,
      mgr_block_size = (if 1 < dcp * pcp then spec_block_size spec * (dcp * pcp) else spec_block_size spec),
      mgr_spec = spec, mgr_enable_caching = caching, max_admission = cap, new_block_ids = [],
      req_to_blocks = [], num_cached_block = [], kv_cache_group_id = gid,
      mgr_null_block = null_block p, sliding_window = 0, attention_chunk_size = 0,
      mamba_cache_mode = [], num_speculative_blocks = 0, cached_blocks_this_step = [],
      last_state_block_idx = [], allocated_block_reqs = [], sink_blocks = [],
      nelssa_head_size = 0, nelssa_tail_size = 0, long_requests = [],
      nelssa_tail_blocks = [], nelssa_tail_start_pos = []\<rparr>"

definition new_sink_manager ::
  "sink_full_attention_spec \<Rightarrow> block_pool \<Rightarrow> bool \<Rightarrow> int \<Rightarrow> int \<Rightarrow> int \<Rightarrow> (manager \<times> block_pool) res" where
  "new_sink_manager s p caching gid dcp pcp =
     (let m = new_manager SinkFullAttentionManager (SinkFullAttentionSpec s) p caching gid dcp pcp None
      in case sink_len s of
           None \<Rightarrow> Inl AssertionError
         | Some n \<Rightarrow>
             rbind (py_assert (0 < n \<and> n mod mgr_block_size m = 0)) (\<lambda>_.
             rbind (popleft_n (n div mgr_block_size m) p) (\<lambda>(bs, p').
               Inr (m\<lparr>sink_blocks := bs\<rparr>, p'))))"

text \<open>
  The factory function.  A \<^verbatim>\<open>KeyError\<close> is the lookup of a spec class that has no manager.  The
  sink manager's constructor takes no admission cap, which is fine since the factory adds one only
  for sliding-window and chunked-local specs.
\<close>

definition get_manager_for_kv_cache_spec ::
  "kv_cache_spec \<Rightarrow> int \<Rightarrow> int \<Rightarrow> nelssa_config option \<Rightarrow> bool \<Rightarrow> int \<Rightarrow> int \<Rightarrow> int \<Rightarrow> block_pool
     \<Rightarrow> (manager \<times> block_pool) res" where
  "get_manager_for_kv_cache_spec spec batched len nelssa caching gid dcp pcp p =
     (case nelssa of
        Some c \<Rightarrow>
          Inr ((new_manager NELSSACacheManager spec p caching gid dcp pcp None)
                 \<lparr>nelssa_head_size := first_n c, nelssa_tail_size := last_m c\<rparr>, p)
      | None \<Rightarrow>
          (case spec of
             SlidingWindowSpec s \<Rightarrow>
               Inr ((new_manager SlidingWindowManager spec p caching gid dcp pcp
                       (Some (sliding_max_admission s batched len)))\<lparr>sliding_window := s_sliding_window s\<rparr>, p)
           | SlidingWindowMLASpec s \<Rightarrow>
               Inr ((new_manager SlidingWindowManager spec p caching gid dcp pcp
                       (Some (sliding_max_admission s batched len)))\<lparr>sliding_window := s_sliding_window s\<rparr>, p)
           | ChunkedLocalAttentionSpec s \<Rightarrow>
               Inr ((new_manager ChunkedLocalAttentionManager spec p caching gid dcp pcp
                       (Some (chunked_max_admission s batched len)))
                      \<lparr>attention_chunk_size := c_attention_chunk_size s\<rparr>, p)
           | MambaSpec s \<Rightarrow>
               Inr ((new_manager MambaManager spec p caching gid dcp pcp None)
                      \<lparr>mamba_cache_mode := b_mamba_cache_mode s,
                       num_speculative_blocks := b_num_speculative_blocks s\<rparr>, p)
           | CrossAttentionSpec _ \<Rightarrow> Inr (new_manager CrossAttentionManager spec p caching gid dcp pcp None, p)
           | SinkFullAttentionSpec s \<Rightarrow> new_sink_manager s p caching gid dcp pcp
           | EncoderOnlyAttentionSpec _ \<Rightarrow> Inl KeyError
           | UniformTypeKVCacheSpecs _ _ \<Rightarrow> Inl KeyError
           | _ \<Rightarrow> Inr (new_manager FullAttentionManager spec p caching gid dcp pcp None, p)))"

section \<open>Skipped tokens\<close>

definition get_num_skipped_tokens :: "manager \<Rightarrow> int \<Rightarrow> int" where
  "get_num_skipped_tokens m n =
     (case mgr_class m of
        SlidingWindowManager \<Rightarrow> max 0 (n - sliding_window m + 1)
      | ChunkedLocalAttentionManager \<Rightarrow> n div attention_chunk_size m * attention_chunk_size m
      | MambaManager \<Rightarrow> n - 1
      | _ \<Rightarrow> 0)"

section \<open>Number of blocks to allocate\<close>

definition get_num_evictable_blocks :: "blk list \<Rightarrow> block_pool \<Rightarrow> int" where
  "get_num_evictable_blocks bs p = py_len (filter (\<lambda>b. refs p b = 0 \<and> \<not> is_null (heap p b)) bs)"

definition base_get_num_blocks_to_allocate ::
  "string \<Rightarrow> int \<Rightarrow> blk list \<Rightarrow> int \<Rightarrow> manager \<Rightarrow> block_pool \<Rightarrow> int res" where
  "base_get_num_blocks_to_allocate rid tokens hits total_computed m p =
     (let uncapped = cdiv tokens (mgr_block_size m);
          required = (case max_admission m of None \<Rightarrow> uncapped | Some cap \<Rightarrow> min uncapped cap);
          num_req = py_len (blocks_of m rid)
      in if is_running m rid
         then rbind (py_assert (hits = [])) (\<lambda>_. Inr (max (required - num_req) 0))
         else
           let skipped = get_num_skipped_tokens m total_computed div mgr_block_size m;
               local_computed = py_len hits + num_req;
               num_new = max (required - max skipped local_computed) 0;
               skipped_hits = max 0 (skipped - num_req)
           in Inr (num_new + get_num_evictable_blocks (py_from hits skipped_hits) p))"

definition mamba_get_num_blocks_to_allocate ::
  "string \<Rightarrow> int \<Rightarrow> blk list \<Rightarrow> int \<Rightarrow> int \<Rightarrow> manager \<Rightarrow> block_pool \<Rightarrow> (int \<times> manager) res" where
  "mamba_get_num_blocks_to_allocate rid tokens hits total_computed main_tokens m p =
     (if hits \<noteq> [] \<and> (case hash_of (heap p (last hits)) of
                       None \<Rightarrow> False | Some k \<Rightarrow> k \<in> set (cached_blocks_this_step m))
      then Inr (num_gpu_blocks p + 1, m)
      else if mamba_cache_mode m \<noteq> ''align''
      then
        let n = (if 0 < num_speculative_blocks m
                 then tokens + spec_block_size (mgr_spec m) * num_speculative_blocks m
                 else tokens)
        in rbind (base_get_num_blocks_to_allocate rid n hits total_computed m p) (\<lambda>k. Inr (k, m))
      else
        let required = cdiv main_tokens (mgr_block_size m) + num_speculative_blocks m;
            m' = with_req rid m;
            num_new = required - py_len hits - py_len (blocks_of m' rid);
            num_new' = (if 0 < num_new
                        then if rid \<in> set (allocated_block_reqs m) then 1 else 1 + num_speculative_blocks m
                        else num_new)
        in Inr (num_new' + get_num_evictable_blocks hits p, m'))"

definition nelssa_get_num_blocks_to_allocate ::
  "string \<Rightarrow> int \<Rightarrow> blk list \<Rightarrow> int \<Rightarrow> manager \<Rightarrow> block_pool \<Rightarrow> int res" where
  "nelssa_get_num_blocks_to_allocate rid tokens hits total_computed m p =
     (if rid \<in> set (long_requests m)
      then
        let head_blocks = cdiv (nelssa_head_size m) (mgr_block_size m);
            tail_blocks = (case map_of (nelssa_tail_blocks m) rid of
                             None \<Rightarrow> cdiv (nelssa_tail_size m) (mgr_block_size m) | Some n \<Rightarrow> n);
            required = head_blocks + tail_blocks
                       + cdiv (max (tokens - total_computed) 0) (mgr_block_size m)
        in Inr (max (required - py_len (blocks_of m rid)) 0)
      else base_get_num_blocks_to_allocate rid tokens hits total_computed m p)"

definition get_num_blocks_to_allocate ::
  "string \<Rightarrow> int \<Rightarrow> blk list \<Rightarrow> int \<Rightarrow> int \<Rightarrow> manager \<Rightarrow> block_pool \<Rightarrow> (int \<times> manager) res" where
  "get_num_blocks_to_allocate rid tokens hits total_computed main_tokens m p =
     (case mgr_class m of
        MambaManager \<Rightarrow> mamba_get_num_blocks_to_allocate rid tokens hits total_computed main_tokens m p
      | NELSSACacheManager \<Rightarrow>
          rbind (nelssa_get_num_blocks_to_allocate rid tokens hits total_computed m p) (\<lambda>k. Inr (k, m))
      | _ \<Rightarrow> rbind (base_get_num_blocks_to_allocate rid tokens hits total_computed m p) (\<lambda>k. Inr (k, m)))"

section \<open>Allocation\<close>

text \<open>\<^verbatim>\<open>type(self.kv_cache_spec) in (FullAttentionSpec, TQFullAttentionSpec)\<close>, an exact type test.\<close>

definition record_new_ids :: "blk list \<Rightarrow> manager \<Rightarrow> manager" where
  "record_new_ids bs m =
     (case mgr_spec m of
        FullAttentionSpec _ \<Rightarrow> m\<lparr>new_block_ids := new_block_ids m @ map block_id bs\<rparr>
      | TQFullAttentionSpec _ \<Rightarrow> m\<lparr>new_block_ids := new_block_ids m @ map block_id bs\<rparr>
      | _ \<Rightarrow> m)"

definition base_allocate_new_computed_blocks ::
  "string \<Rightarrow> blk list \<Rightarrow> int \<Rightarrow> int \<Rightarrow> manager \<Rightarrow> block_pool \<Rightarrow> (manager \<times> block_pool) res" where
  "base_allocate_new_computed_blocks rid hits num_local num_external m p =
     (if is_running m rid then rbind (py_assert (hits = [])) (\<lambda>_. Inr (m, p))
      else
        let m1 = with_req rid m
        in rbind (py_assert (blocks_of m1 rid = [])) (\<lambda>_.
             let computed = num_local + num_external;
                 skipped_tokens = get_num_skipped_tokens m1 computed;
                 skipped = skipped_tokens div mgr_block_size m1;
                 hits' = (if 0 < skipped then py_from hits skipped else hits);
                 external = (if 0 < skipped then min (computed - skipped_tokens) num_external
                             else num_external)
             in rbind (if mgr_enable_caching m1 then touch hits' p
                       else rbind (py_assert (hits' = [])) (\<lambda>_. Inr p)) (\<lambda>p1.
                  let req_blocks = py_repeat (mgr_null_block m1) skipped @ hits';
                      m2 = set_cached rid (py_len req_blocks) (set_blocks rid req_blocks m1)
                  in if 0 < external
                     then rbind (get_new_blocks (cdiv computed (mgr_block_size m1) - py_len req_blocks) p1)
                            (\<lambda>(new, p2). Inr (record_new_ids new (set_blocks rid (req_blocks @ new) m2), p2))
                     else Inr (m2, p1))))"

definition allocate_new_computed_blocks ::
  "string \<Rightarrow> blk list \<Rightarrow> int \<Rightarrow> int \<Rightarrow> manager \<Rightarrow> block_pool \<Rightarrow> (manager \<times> block_pool) res" where
  "allocate_new_computed_blocks rid hits num_local num_external m p =
     (case mgr_class m of
        CrossAttentionManager \<Rightarrow> rbind (py_assert (hits = [])) (\<lambda>_. Inr (m, p))
      | _ \<Rightarrow> base_allocate_new_computed_blocks rid hits num_local num_external m p)"

definition base_allocate_new_blocks ::
  "string \<Rightarrow> int \<Rightarrow> manager \<Rightarrow> block_pool \<Rightarrow> (blk list \<times> manager \<times> block_pool) res" where
  "base_allocate_new_blocks rid tokens m p =
     (let m1 = with_req rid m;
          req_blocks = blocks_of m1 rid;
          num_new = cdiv tokens (mgr_block_size m1) - py_len req_blocks
      in if num_new \<le> 0 then Inr ([], m1, p)
         else rbind (get_new_blocks num_new p) (\<lambda>(new, p').
                Inr (new, record_new_ids new (set_blocks rid (req_blocks @ new) m1), p')))"

text \<open>
  Mamba in \<^verbatim>\<open>align\<close> mode keeps one running-state block and the speculative blocks at the end of the
  request's table: the blocks in between are null, and the speculative blocks of the previous step
  move to the new end.
\<close>

fun reuse_spec_blocks :: "blk \<Rightarrow> int \<Rightarrow> int list \<Rightarrow> blk list \<Rightarrow> blk list res" where
  "reuse_spec_blocks nb skipped [] bs = Inr bs"
| "reuse_spec_blocks nb skipped (i # is) bs =
     (if i < skipped
      then rbind (py_get bs i) (\<lambda>b. rbind (py_set (bs @ [b]) i nb) (reuse_spec_blocks nb skipped is))
      else Inr bs)"

definition mamba_align_allocate ::
  "string \<Rightarrow> int \<Rightarrow> manager \<Rightarrow> block_pool \<Rightarrow> (blk list \<times> manager \<times> block_pool) res" where
  "mamba_align_allocate rid tokens m p =
     (let m1 = with_req rid m;
          req_blocks = blocks_of m1 rid;
          required = cdiv tokens (mgr_block_size m1) + num_speculative_blocks m1;
          prev_len = py_len req_blocks
      in if required = prev_len then Inr ([], m1, p)
         else rbind (py_assert (prev_len < required)) (\<lambda>_.
           let allocated = rid \<in> set (allocated_block_reqs m1);
               m2 = (if allocated
                     then m1\<lparr>last_state_block_idx := AList.update rid (prev_len - 1 - num_speculative_blocks m1)
                              (last_state_block_idx m1)\<rparr>
                     else if 0 < prev_len
                     then m1\<lparr>last_state_block_idx := AList.update rid (prev_len - 1) (last_state_block_idx m1)\<rparr>
                     else m1);
               skipped = required - num_speculative_blocks m1 - 1;
               padded = req_blocks @ py_repeat (mgr_null_block m1) (skipped - prev_len)
           in rbind (if allocated
                     then reuse_spec_blocks (mgr_null_block m1) skipped
                            [prev_len - num_speculative_blocks m1..prev_len - 1] padded
                     else Inr padded) (\<lambda>moved.
                let num_new = required - py_len moved
                in rbind (py_assert (num_new \<le> (if allocated then 1 else num_speculative_blocks m1 + 1))) (\<lambda>_.
                   rbind (get_new_blocks num_new p) (\<lambda>(new, p').
                     Inr (py_from (moved @ new) prev_len,
                          (set_blocks rid (moved @ new) m2)
                            \<lparr>allocated_block_reqs := List.insert rid (allocated_block_reqs m2)\<rparr>,
                          p'))))))"

definition allocate_new_blocks ::
  "string \<Rightarrow> int \<Rightarrow> int \<Rightarrow> manager \<Rightarrow> block_pool \<Rightarrow> (blk list \<times> manager \<times> block_pool) res" where
  "allocate_new_blocks rid tokens main_tokens m p =
     (case mgr_class m of
        MambaManager \<Rightarrow>
          if mamba_cache_mode m \<noteq> ''align''
          then base_allocate_new_blocks rid
                 (if 0 < num_speculative_blocks m then tokens + mgr_block_size m * num_speculative_blocks m
                  else tokens) m p
          else mamba_align_allocate rid main_tokens m p
      | _ \<Rightarrow> base_allocate_new_blocks rid tokens m p)"

definition take_new_block_ids :: "manager \<Rightarrow> int list \<times> manager" where
  "take_new_block_ids m = (new_block_ids m, m\<lparr>new_block_ids := []\<rparr>)"

section \<open>Caching\<close>

definition base_cache_blocks ::
  "hash_env \<Rightarrow> request \<Rightarrow> int \<Rightarrow> manager \<Rightarrow> block_pool \<Rightarrow> (request \<times> manager \<times> block_pool) res" where
  "base_cache_blocks env r tokens m p =
     (let rid = request_id r;
          num_cached = cached_of m rid;
          num_full = tokens div mgr_block_size m
      in if num_full \<le> num_cached then Inr (r, m, p)
         else
           let m1 = with_req rid m
           in rbind (cache_full_blocks env r (blocks_of m1 rid) num_cached num_full
                       (mgr_block_size m1) (kv_cache_group_id m1) p) (\<lambda>(r', p').
                Inr (r', set_cached rid num_full m1, p')))"

fun collect_keys :: "heap \<Rightarrow> blk list \<Rightarrow> block_key list \<Rightarrow> block_key list res" where
  "collect_keys h [] ks = Inr ks"
| "collect_keys h (b # bs) ks =
     (if is_null (h b) then collect_keys h bs ks
      else case hash_of (h b) of
             None \<Rightarrow> Inl AssertionError
           | Some k \<Rightarrow> collect_keys h bs (List.insert k ks))"

definition mamba_cache_blocks ::
  "hash_env \<Rightarrow> request \<Rightarrow> int \<Rightarrow> manager \<Rightarrow> block_pool \<Rightarrow> (request \<times> manager \<times> block_pool) res" where
  "mamba_cache_blocks env r tokens m p =
     (let before = cached_of m (request_id r)
      in rbind (base_cache_blocks env r tokens m p) (\<lambda>(r', m', p').
           let after = cached_of m' (request_id r)
           in if before < after
              then let m'' = with_req (request_id r) m'
                   in rbind (collect_keys (heap p') (py_slice (blocks_of m'' (request_id r)) before after)
                               (cached_blocks_this_step m'')) (\<lambda>ks.
                        Inr (r', m''\<lparr>cached_blocks_this_step := ks\<rparr>, p'))
              else Inr (r', m', p')))"

definition cache_blocks ::
  "hash_env \<Rightarrow> request \<Rightarrow> int \<Rightarrow> manager \<Rightarrow> block_pool \<Rightarrow> (request \<times> manager \<times> block_pool) res" where
  "cache_blocks env r tokens m p =
     (case mgr_class m of
        MambaManager \<Rightarrow> mamba_cache_blocks env r tokens m p
      | CrossAttentionManager \<Rightarrow> Inl ValueError
      | _ \<Rightarrow> base_cache_blocks env r tokens m p)"

definition new_step_starts :: "manager \<Rightarrow> manager" where
  "new_step_starts m =
     (case mgr_class m of MambaManager \<Rightarrow> m\<lparr>cached_blocks_this_step := []\<rparr> | _ \<Rightarrow> m)"

section \<open>Release\<close>

definition base_free :: "string \<Rightarrow> manager \<Rightarrow> block_pool \<Rightarrow> (manager \<times> block_pool) res" where
  "base_free rid m p =
     rbind (free_blocks (rev (blocks_of m rid)) p) (\<lambda>p'.
       Inr (m\<lparr>req_to_blocks := AList.delete rid (req_to_blocks m),
              num_cached_block := AList.delete rid (num_cached_block m)\<rparr>, p'))"

definition mgr_free :: "string \<Rightarrow> manager \<Rightarrow> block_pool \<Rightarrow> (manager \<times> block_pool) res" where
  "mgr_free rid m p =
     (let m1 = (if mgr_class m = MambaManager \<and> mamba_cache_mode m = ''align''
                then m\<lparr>allocated_block_reqs := removeAll rid (allocated_block_reqs m),
                       last_state_block_idx := AList.delete rid (last_state_block_idx m)\<rparr>
                else m)
      in base_free rid m1 p)"

text \<open>The loop counts the index down from the last skipped block and stops at a null block.\<close>

fun remove_loop :: "blk \<Rightarrow> nat \<Rightarrow> blk list \<Rightarrow> blk list \<times> blk list" where
  "remove_loop nb 0 bs = ([], bs)"
| "remove_loop nb (Suc i) bs =
     (if bs ! i = nb then ([], bs)
      else let (removed, bs') = remove_loop nb i (bs[i := nb]) in (bs ! i # removed, bs'))"

definition base_remove_skipped_blocks ::
  "string \<Rightarrow> int \<Rightarrow> manager \<Rightarrow> block_pool \<Rightarrow> (manager \<times> block_pool) res" where
  "base_remove_skipped_blocks rid computed m p =
     (let skipped_tokens = get_num_skipped_tokens m computed
      in if skipped_tokens \<le> 0 then Inr (m, p)
         else
           let m1 = with_req rid m;
               bs = blocks_of m1 rid;
               skipped = min (skipped_tokens div mgr_block_size m1) (py_len bs);
               (removed, bs') = remove_loop (mgr_null_block m1) (nat skipped) bs
           in rbind (free_blocks removed p) (\<lambda>p'. Inr (set_blocks rid bs' m1, p')))"

definition mamba_remove_skipped_blocks ::
  "string \<Rightarrow> int \<Rightarrow> manager \<Rightarrow> block_pool \<Rightarrow> (manager \<times> block_pool) res" where
  "mamba_remove_skipped_blocks rid num_computed m p =
     (let computed = max 0 (num_computed - num_speculative_blocks m)
      in rbind (base_remove_skipped_blocks rid computed m p) (\<lambda>(m1, p1).
           if mamba_cache_mode m1 \<noteq> ''align'' then Inr (m1, p1)
           else case map_of (last_state_block_idx m1) rid of
                  None \<Rightarrow> Inr (m1, p1)
                | Some idx \<Rightarrow>
                    if \<not> idx < cdiv computed (mgr_block_size m1) - 1 then Inr (m1, p1)
                    else
                      let m2 = with_req rid m1; bs = blocks_of m2 rid
                      in rbind (py_get bs idx) (\<lambda>b.
                           if b = mgr_null_block m2 then Inr (m2, p1)
                           else rbind (free_blocks [b] p1) (\<lambda>p2.
                                rbind (py_set bs idx (mgr_null_block m2)) (\<lambda>bs'.
                                  Inr (set_blocks rid bs' m2, p2))))))"

definition remove_skipped_blocks ::
  "string \<Rightarrow> int \<Rightarrow> manager \<Rightarrow> block_pool \<Rightarrow> (manager \<times> block_pool) res" where
  "remove_skipped_blocks rid computed m p =
     (case mgr_class m of
        MambaManager \<Rightarrow> mamba_remove_skipped_blocks rid computed m p
      | _ \<Rightarrow> base_remove_skipped_blocks rid computed m p)"

section \<open>Common prefix\<close>

definition get_num_common_prefix_blocks :: "string \<Rightarrow> manager \<Rightarrow> block_pool \<Rightarrow> int \<times> manager" where
  "get_num_common_prefix_blocks rid m p =
     (if mgr_class m \<in> {FullAttentionManager, SinkFullAttentionManager, NELSSACacheManager}
      then let m1 = with_req rid m
           in (py_len (takeWhile (\<lambda>b. refs p b = py_len (req_to_blocks m1)) (blocks_of m1 rid)), m1)
      else (0, m))"

section \<open>NELSSA\<close>

definition compute_tail_layout :: "manager \<Rightarrow> int \<Rightarrow> int \<times> int" where
  "compute_tail_layout m prompt_len =
     (let bs = mgr_block_size m;
          start = max (prompt_len - nelssa_tail_size m) 0;
          start' = start div bs * bs;
          tail_tokens = max (prompt_len - start') 0
      in ((tail_tokens + bs - 1) div bs, start'))"

definition mark_long_request :: "string \<Rightarrow> int \<Rightarrow> manager \<Rightarrow> manager" where
  "mark_long_request rid prompt_len m =
     (let (tail_blocks, start) = compute_tail_layout m prompt_len
      in m\<lparr>long_requests := List.insert rid (long_requests m),
           nelssa_tail_blocks := AList.update rid tail_blocks (nelssa_tail_blocks m),
           nelssa_tail_start_pos := AList.update rid start (nelssa_tail_start_pos m)\<rparr>)"

definition nelssa_long_mask :: "string \<Rightarrow> manager \<Rightarrow> bool" where
  "nelssa_long_mask rid m \<longleftrightarrow> rid \<in> set (long_requests m)"

text \<open>
  \<^verbatim>\<open>range(middle_start_idx, middle_end_idx)\<close> can hold negative indices only when the head size is
  negative; the lookup then follows Python's rule for them.
\<close>

definition free_middle_blocks :: "string \<Rightarrow> manager \<Rightarrow> block_pool \<Rightarrow> (manager \<times> block_pool) res" where
  "free_middle_blocks rid m p =
     (if rid \<notin> set (long_requests m) then Inr (m, p)
      else case map_of (req_to_blocks m) rid of
        None \<Rightarrow> Inr (m, p)
      | Some bs \<Rightarrow>
          let bsz = mgr_block_size m;
              head_blocks = (nelssa_head_size m + bsz - 1) div bsz;
              tail_blocks = (case map_of (nelssa_tail_blocks m) rid of
                               None \<Rightarrow> (nelssa_tail_size m + bsz - 1) div bsz | Some n \<Rightarrow> n);
              middle_end = (if 0 < tail_blocks then py_len bs - tail_blocks else py_len bs)
          in if middle_end - head_blocks \<le> 0 then Inr (m, p)
             else
               rbind (rmap (\<lambda>i. rbind (py_get bs i) (\<lambda>b. Inr (i, b))) [head_blocks..middle_end - 1]) (\<lambda>cands.
                 let chosen = filter (\<lambda>(i, b). b \<noteq> mgr_null_block m \<and> 0 \<le> block_id b \<and> 0 < refs p b) cands
                 in if chosen = [] then Inr (m, p)
                    else rbind (free_blocks (map snd chosen) p) (\<lambda>p'.
                         rbind (rfold (\<lambda>(i, b) bs'. py_set bs' i (mgr_null_block m)) chosen bs) (\<lambda>bs'.
                           Inr (set_blocks rid bs' m, p')))))"

definition free_request_resources :: "string \<Rightarrow> manager \<Rightarrow> manager" where
  "free_request_resources rid m =
     m\<lparr>long_requests := removeAll rid (long_requests m),
       nelssa_tail_blocks := AList.delete rid (nelssa_tail_blocks m),
       nelssa_tail_start_pos := AList.delete rid (nelssa_tail_start_pos m)\<rparr>"

end
