(* ===== verification/Cache_Hit.thy ===== *)
theory Cache_Hit
  imports Single_Type_Manager
begin

text \<open>
  \<^verbatim>\<open>find_longest_cache_hit\<close> of the manager classes in
  \<^verbatim>\<open>vllm/v1/core/single_type_kv_cache_manager.py\<close>.  The result has one block list per KV cache group;
  all of them have the same length.  \<open>Cache_Hit_Props\<close> and \<open>Hit_Sound\<close> prove what a hit is.
\<close>

section \<open>Lookup and block lists per group\<close>

text \<open>The \<^verbatim>\<open>if cached_block := ...\<close> test also takes an empty list, the answer for no groups, as a miss.\<close>

definition cached_block :: "bytes \<Rightarrow> int list \<Rightarrow> block_pool \<Rightarrow> blk list option res" where
  "cached_block h gids p =
     rbind (get_cached_block h gids p) (\<lambda>r. Inr (if r = Some [] then None else r))"

text \<open>
  \<^verbatim>\<open>zip(computed_blocks, cached_block)\<close>: both have one entry per group.
\<close>

definition append_each :: "blk list list \<Rightarrow> blk list \<Rightarrow> blk list list" where
  "append_each cs bs = map2 (\<lambda>c b. c @ [b]) cs bs"

definition pop_each :: "blk list list \<Rightarrow> blk list list res" where
  "pop_each cs = rmap (\<lambda>c. if c = [] then Inl IndexError else Inr (butlast c)) cs"

definition eagle_pop :: "bool \<Rightarrow> blk list list \<Rightarrow> blk list list res" where
  "eagle_pop use_eagle cs =
     (if use_eagle then rbind (py_get cs 0) (\<lambda>c. if c = [] then Inr cs else pop_each cs) else Inr cs)"

lemma pop_each_Cons:
  "pop_each (c # cs) = Inr ds \<Longrightarrow> c \<noteq> [] \<and> (\<exists>es. pop_each cs = Inr es \<and> ds = butlast c # es)"
  by (auto simp: pop_each_def rbind_eq_Inr split: if_splits)

text \<open>The loop that shortens the hit until its number of tokens is a multiple of \<^verbatim>\<open>alignment_tokens\<close>.\<close>

function align_loop :: "int \<Rightarrow> int \<Rightarrow> blk list list \<Rightarrow> blk list list res" where
  "align_loop bs al cs =
     (if bs = al then Inr cs
      else case cs of
             [] \<Rightarrow> Inl IndexError
           | c # _ \<Rightarrow>
               if (py_len c * bs) mod al \<noteq> 0 then rbind (pop_each cs) (align_loop bs al) else Inr cs)"
  by pat_completeness auto

termination
proof (relation "measure (\<lambda>(bs, al, cs). length (hd cs))", goal_cases)
  case (2 bs al cs c rest ds)
  then have "c \<noteq> []" "hd ds = butlast c" using pop_each_Cons [of c rest ds] by auto
  then show ?case using 2 by (simp add: Suc_leI)
qed simp

declare align_loop.simps [simp del]

section \<open>Full attention\<close>

fun is_chunked_spec :: "kv_cache_spec \<Rightarrow> bool" where
  "is_chunked_spec (ChunkedLocalAttentionSpec _) = True"
| "is_chunked_spec _ = False"

fun full_hit_loop :: "int list \<Rightarrow> block_pool \<Rightarrow> bytes list \<Rightarrow> blk list list \<Rightarrow> blk list list res" where
  "full_hit_loop gids p [] cs = Inr cs"
| "full_hit_loop gids p (h # hs) cs =
     rbind (cached_block h gids p) (\<lambda>r.
       case r of None \<Rightarrow> Inr cs | Some bs \<Rightarrow> full_hit_loop gids p hs (append_each cs bs))"

text \<open>\<^verbatim>\<open>itertools.islice\<close> raises \<^verbatim>\<open>ValueError\<close> for a negative bound.\<close>

definition full_find_longest_cache_hit ::
  "block_hash_list \<Rightarrow> int \<Rightarrow> int list \<Rightarrow> block_pool \<Rightarrow> kv_cache_spec \<Rightarrow> bool \<Rightarrow> int \<Rightarrow> int \<Rightarrow> int
     \<Rightarrow> blk list list res" where
  "full_find_longest_cache_hit hl max_length gids p spec use_eagle alignment dcp pcp =
     rbind (py_assert (is_full_attention spec \<or> is_chunked_spec spec)) (\<lambda>_.
       let bs = (if 1 < dcp * pcp then spec_block_size spec * (dcp * pcp) else spec_block_size spec);
           n = max_length div bs
       in if n < 0 then Inl ValueError
          else rbind (full_hit_loop gids p (take (nat n) (bhl_list hl)) (replicate (length gids) []))
                 (\<lambda>cs. rbind (eagle_pop use_eagle cs) (align_loop bs alignment)))"

section \<open>Sliding window\<close>

text \<open>
  The search runs from the right.  \<open>num\<close> is \<^verbatim>\<open>num_contiguous_blocks\<close> and the flag of the result is
  \<^verbatim>\<open>match_found\<close>.
\<close>

fun sliding_loop ::
  "block_hash_list \<Rightarrow> int list \<Rightarrow> block_pool \<Rightarrow> bool \<Rightarrow> int \<Rightarrow> int \<Rightarrow> int \<Rightarrow> nat \<Rightarrow> int \<Rightarrow> blk list list
     \<Rightarrow> (bool \<times> int \<times> blk list list) res" where
  "sliding_loop hl gids p use_eagle bs al need 0 num cs = Inr (False, num, cs)"
| "sliding_loop hl gids p use_eagle bs al need (Suc i) num cs =
     rbind (bhl_value_at hl (int i)) (\<lambda>h.
     rbind (cached_block h gids p) (\<lambda>r.
       case r of
         None \<Rightarrow> sliding_loop hl gids p use_eagle bs al need i 0 cs
       | Some hits \<Rightarrow>
           if num = 0 \<and> bs \<noteq> al \<and> ((if use_eagle then int i else int i + 1) * bs) mod al \<noteq> 0
           then sliding_loop hl gids p use_eagle bs al need i num cs
           else
             let cs' = map2 (\<lambda>c b. c[i := b]) cs hits
             in if need \<le> num + 1
                then Inr (True, num + 1, map (\<lambda>c. py_upto c (int i + (num + 1))) cs')
                else sliding_loop hl gids p use_eagle bs al need i (num + 1) cs'))"

definition sliding_find_longest_cache_hit ::
  "block_hash_list \<Rightarrow> int \<Rightarrow> int list \<Rightarrow> block_pool \<Rightarrow> kv_cache_spec \<Rightarrow> bool \<Rightarrow> int \<Rightarrow> int \<Rightarrow> int
     \<Rightarrow> blk list list res" where
  "sliding_find_longest_cache_hit hl max_length gids p spec use_eagle alignment dcp pcp =
     (case sliding_window_of spec of
        None \<Rightarrow> Inl AssertionError
      | Some window \<Rightarrow>
          rbind (py_assert (dcp = 1 \<and> pcp = 1)) (\<lambda>_.
            let bs = spec_block_size spec;
                need = cdiv (window - 1) bs + (if use_eagle then 1 else 0);
                n = max_length div bs
            in rbind (sliding_loop hl gids p use_eagle bs alignment need (nat n) 0
                        (replicate (length gids) (py_repeat (null_block p) n))) (\<lambda>(found, num, cs).
               rbind (if found then Inr cs else align_loop bs alignment (map (\<lambda>c. py_upto c num) cs)) (\<lambda>cs'.
                 if use_eagle
                 then rbind (py_get cs' 0) (\<lambda>c.
                        if c = [] then Inr cs' else rbind (pop_each cs') (align_loop bs alignment))
                 else Inr cs'))))"

section \<open>Chunked local attention\<close>

fun chunked_loop :: "block_hash_list \<Rightarrow> int list \<Rightarrow> block_pool \<Rightarrow> int list \<Rightarrow> blk list list \<Rightarrow> blk list list res" where
  "chunked_loop hl gids p [] cs = Inr cs"
| "chunked_loop hl gids p (i # is) cs =
     rbind (bhl_value_at hl i) (\<lambda>h.
     rbind (cached_block h gids p) (\<lambda>r.
       case r of None \<Rightarrow> Inr cs | Some bs \<Rightarrow> chunked_loop hl gids p is (append_each cs bs)))"

definition chunked_find_longest_cache_hit ::
  "block_hash_list \<Rightarrow> int \<Rightarrow> int list \<Rightarrow> block_pool \<Rightarrow> kv_cache_spec \<Rightarrow> bool \<Rightarrow> int \<Rightarrow> int \<Rightarrow> int
     \<Rightarrow> blk list list res" where
  "chunked_find_longest_cache_hit hl max_length gids p spec use_eagle alignment dcp pcp =
     (case spec of
        ChunkedLocalAttentionSpec s \<Rightarrow>
          rbind (py_assert (\<not> use_eagle \<and> dcp = 1 \<and> pcp = 1 \<and> a_block_size s = alignment)) (\<lambda>_.
            let bs = a_block_size s; chunk = c_attention_chunk_size s;
                n = max_length div bs;
                start = (if 0 < max_length then max_length div chunk * chunk else 0);
                start_block = start div bs
            in chunked_loop hl gids p [start_block..n - 1]
                 (replicate (length gids) (py_repeat (null_block p) start_block)))
      | _ \<Rightarrow> Inl AssertionError)"

section \<open>Mamba\<close>

fun mamba_loop :: "block_hash_list \<Rightarrow> int list \<Rightarrow> block_pool \<Rightarrow> int \<Rightarrow> int \<Rightarrow> nat \<Rightarrow> blk list list \<Rightarrow> blk list list res" where
  "mamba_loop hl gids p bs al 0 cs = Inr cs"
| "mamba_loop hl gids p bs al (Suc i) cs =
     rbind (bhl_value_at hl (int i)) (\<lambda>h.
     rbind (cached_block h gids p) (\<lambda>r.
       case r of
         None \<Rightarrow> mamba_loop hl gids p bs al i cs
       | Some hits \<Rightarrow>
           if bs \<noteq> al \<and> ((int i + 1) * bs) mod al \<noteq> 0 then mamba_loop hl gids p bs al i cs
           else Inr (map2 (\<lambda>c b. (c @ py_repeat (null_block p) (int i)) @ [b]) cs hits)))"

definition mamba_find_longest_cache_hit ::
  "block_hash_list \<Rightarrow> int \<Rightarrow> int list \<Rightarrow> block_pool \<Rightarrow> kv_cache_spec \<Rightarrow> int \<Rightarrow> int \<Rightarrow> int
     \<Rightarrow> blk list list res" where
  "mamba_find_longest_cache_hit hl max_length gids p spec alignment dcp pcp =
     rbind (py_assert (is_mamba_spec spec \<and> dcp = 1 \<and> pcp = 1)) (\<lambda>_.
       let bs = spec_block_size spec
       in mamba_loop hl gids p bs alignment (nat (max_length div bs)) (replicate (length gids) []))"

section \<open>Cross attention and dispatch\<close>

definition cross_find_longest_cache_hit :: "kv_cache_spec \<Rightarrow> blk list list res" where
  "cross_find_longest_cache_hit spec =
     (case spec of CrossAttentionSpec _ \<Rightarrow> Inl NotImplementedError | _ \<Rightarrow> Inl AssertionError)"

definition find_longest_cache_hit ::
  "manager_class \<Rightarrow> block_hash_list \<Rightarrow> int \<Rightarrow> int list \<Rightarrow> block_pool \<Rightarrow> kv_cache_spec \<Rightarrow> bool \<Rightarrow> int \<Rightarrow> int \<Rightarrow> int
     \<Rightarrow> blk list list res" where
  "find_longest_cache_hit cls hl max_length gids p spec use_eagle alignment dcp pcp =
     (case cls of
        SlidingWindowManager \<Rightarrow>
          sliding_find_longest_cache_hit hl max_length gids p spec use_eagle alignment dcp pcp
      | ChunkedLocalAttentionManager \<Rightarrow>
          chunked_find_longest_cache_hit hl max_length gids p spec use_eagle alignment dcp pcp
      | MambaManager \<Rightarrow> mamba_find_longest_cache_hit hl max_length gids p spec alignment dcp pcp
      | CrossAttentionManager \<Rightarrow> cross_find_longest_cache_hit spec
      | _ \<Rightarrow> full_find_longest_cache_hit hl max_length gids p spec use_eagle alignment dcp pcp)"

end
