(* ===== verification/KV_Coordinator.thy ===== *)
theory KV_Coordinator
  imports Cache_Hit
begin

text \<open>
  \<^verbatim>\<open>vllm/v1/core/kv_cache_coordinator.py\<close>: the coordinator of the managers of all KV cache groups.
  \<open>coordinator\<close> has the fields of the base class and of the subclasses; \<open>co_class\<close> selects the
  subclass.  The block pool is passed along.  Sets of group ids are lists without order.  An
  exception ends the call, so the state of managers that were already visited is not returned.
\<close>

section \<open>State\<close>

datatype coordinator_class =
    KVCacheCoordinatorNoPrefixCache | UnitaryKVCacheCoordinator | HybridKVCacheCoordinator

type_synonym attention_group = "kv_cache_spec \<times> int list \<times> manager_class"

record coordinator =
  co_class :: coordinator_class
  co_config :: kv_cache_config
  co_enable_caching :: bool
  eagle_group_ids :: "int list"
  single_type_managers :: "manager list"
  co_block_size :: int
  co_dcp :: int
  co_pcp :: int
  co_hash_block_size :: int
  attention_groups :: "attention_group list"
  lcm_block_size :: int
  eagle_attn_group_indices :: "nat list"

text \<open>The loop over the managers, with a state that the calls thread.\<close>

fun each_manager ::
  "(nat \<Rightarrow> manager \<Rightarrow> 's \<Rightarrow> (manager \<times> 's) res) \<Rightarrow> nat \<Rightarrow> manager list \<Rightarrow> 's \<Rightarrow> (manager list \<times> 's) res" where
  "each_manager f i [] s = Inr ([], s)"
| "each_manager f i (m # ms) s =
     rbind (f i m s) (\<lambda>(m', s').
     rbind (each_manager f (Suc i) ms s') (\<lambda>(ms', s''). Inr (m' # ms', s'')))"

definition with_managers :: "coordinator \<Rightarrow> manager list \<Rightarrow> coordinator" where
  "with_managers co ms = co\<lparr>single_type_managers := ms\<rparr>"

section \<open>Construction\<close>

fun build_managers ::
  "kv_cache_group_spec list \<Rightarrow> int \<Rightarrow> int \<Rightarrow> int \<Rightarrow> nelssa_config option \<Rightarrow> bool \<Rightarrow> int \<Rightarrow> int \<Rightarrow> block_pool
     \<Rightarrow> (manager list \<times> block_pool) res" where
  "build_managers [] i batched len nelssa caching dcp pcp p = Inr ([], p)"
| "build_managers (g # gs) i batched len nelssa caching dcp pcp p =
     rbind (get_manager_for_kv_cache_spec (group_spec g) batched len nelssa caching i dcp pcp p) (\<lambda>(m, p').
     rbind (build_managers gs (i + 1) batched len nelssa caching dcp pcp p') (\<lambda>(ms, p''). Inr (m # ms, p'')))"

definition flagged_groups :: "kv_cache_group_spec list \<Rightarrow> bool \<Rightarrow> int list" where
  "flagged_groups gs use_eagle =
     (let flagged = map (int \<circ> fst) (filter (\<lambda>(i, g). is_eagle_group g) (List.enumerate 0 gs))
      in if use_eagle \<and> flagged = [] then map int [0..<length gs] else flagged)"

definition base_coordinator ::
  "coordinator_class \<Rightarrow> kv_cache_config \<Rightarrow> int \<Rightarrow> int \<Rightarrow> bool \<Rightarrow> bool \<Rightarrow> bool \<Rightarrow> int \<Rightarrow> int \<Rightarrow> int
     \<Rightarrow> metrics_call list option \<Rightarrow> bool \<Rightarrow> (coordinator \<times> block_pool) res" where
  "base_coordinator cls cfg len batched use_eagle caching evs dcp pcp hash_bs metrics int_hashes =
     rbind (pool_init (num_blocks cfg) caching hash_bs evs metrics int_hashes) (\<lambda>p.
     rbind (build_managers (kv_cache_groups cfg) 0 batched len (nelssa_config_of cfg) caching dcp pcp p)
       (\<lambda>(ms, p').
         Inr (\<lparr>co_class = cls, co_config = cfg, co_enable_caching = caching,
               eagle_group_ids = flagged_groups (kv_cache_groups cfg) use_eagle,
               single_type_managers = ms, co_block_size = 0, co_dcp = dcp, co_pcp = pcp,
               co_hash_block_size = hash_bs, attention_groups = [], lcm_block_size = 0,
               eagle_attn_group_indices = []\<rparr>, p')))"

definition unitary_init ::
  "kv_cache_config \<Rightarrow> int \<Rightarrow> int \<Rightarrow> bool \<Rightarrow> bool \<Rightarrow> bool \<Rightarrow> int \<Rightarrow> int \<Rightarrow> int
     \<Rightarrow> metrics_call list option \<Rightarrow> bool \<Rightarrow> (coordinator \<times> block_pool) res" where
  "unitary_init cfg len batched use_eagle caching evs dcp pcp hash_bs metrics int_hashes =
     rbind (base_coordinator UnitaryKVCacheCoordinator cfg len batched use_eagle caching evs dcp pcp hash_bs
              metrics int_hashes) (\<lambda>(co, p).
     rbind (py_get (kv_cache_groups cfg) 0) (\<lambda>g.
       let bs0 = spec_block_size (group_spec g);
           bs1 = (if 1 < dcp then bs0 * dcp else bs0);
           bs = (if 1 < pcp then bs1 * pcp else bs1)
       in rbind (py_assert (\<not> caching \<or> hash_bs = bs)) (\<lambda>_.
          rbind (py_assert (length (kv_cache_groups cfg) = 1)) (\<lambda>_.
            Inr (co\<lparr>co_block_size := bs\<rparr>, p)))))"

text \<open>Adding a group to the first attention group with the same spec, or as a new one at the end.\<close>

fun add_to_attention_groups ::
  "int \<Rightarrow> kv_cache_spec \<Rightarrow> manager_class \<Rightarrow> attention_group list \<Rightarrow> attention_group list res" where
  "add_to_attention_groups i spec cls [] = Inr [(spec, [i], cls)]"
| "add_to_attention_groups i spec cls ((s, ids, c) # ags) =
     (if s = spec then rbind (py_assert (cls = c)) (\<lambda>_. Inr ((s, ids @ [i], c) # ags))
      else rbind (add_to_attention_groups i spec cls ags) (\<lambda>ags'. Inr ((s, ids, c) # ags')))"

definition split_groups :: "kv_cache_group_spec list \<Rightarrow> manager list \<Rightarrow> attention_group list res" where
  "split_groups gs ms =
     rfold (\<lambda>(i, g) ags.
       rbind (py_get ms (int i)) (\<lambda>m. add_to_attention_groups (int i) (group_spec g) (mgr_class m) ags))
       (List.enumerate 0 gs) []"

text \<open>\<^verbatim>\<open>sorted\<close> is stable: the full-attention groups come first and the order is kept otherwise.\<close>

definition full_first :: "attention_group list \<Rightarrow> attention_group list" where
  "full_first ags = filter (is_full_attention \<circ> fst) ags @ filter (\<lambda>ag. \<not> is_full_attention (fst ag)) ags"

definition verify_and_split_kv_cache_groups :: "coordinator \<Rightarrow> coordinator res" where
  "verify_and_split_kv_cache_groups co =
     rbind (split_groups (kv_cache_groups (co_config co)) (single_type_managers co)) (\<lambda>ags.
     rbind (py_assert (1 < length ags)) (\<lambda>_.
       let ags' = full_first ags
       in Inr (co\<lparr>attention_groups := ags',
                  lcm_block_size := fold lcm (map (spec_block_size \<circ> fst) ags) 1,
                  eagle_attn_group_indices :=
                    map fst (filter (\<lambda>(i, (_, ids, _)). list_ex (\<lambda>g. g \<in> set (eagle_group_ids co)) ids)
                               (List.enumerate 0 ags'))\<rparr>)))"

definition hybrid_init ::
  "kv_cache_config \<Rightarrow> int \<Rightarrow> int \<Rightarrow> bool \<Rightarrow> bool \<Rightarrow> bool \<Rightarrow> int \<Rightarrow> int \<Rightarrow> int
     \<Rightarrow> metrics_call list option \<Rightarrow> bool \<Rightarrow> (coordinator \<times> block_pool) res" where
  "hybrid_init cfg len batched use_eagle caching evs dcp pcp hash_bs metrics int_hashes =
     rbind (base_coordinator HybridKVCacheCoordinator cfg len batched use_eagle caching evs dcp pcp hash_bs
              metrics int_hashes) (\<lambda>(co, p).
     rbind (py_assert (list_all (\<lambda>g. spec_block_size (group_spec g) mod hash_bs = 0) (kv_cache_groups cfg)
                       \<and> dcp = 1 \<and> pcp = 1)) (\<lambda>_.
     rbind (verify_and_split_kv_cache_groups co) (\<lambda>co'. Inr (co', p))))"

definition get_kv_cache_coordinator ::
  "kv_cache_config \<Rightarrow> int \<Rightarrow> int \<Rightarrow> bool \<Rightarrow> bool \<Rightarrow> bool \<Rightarrow> int \<Rightarrow> int \<Rightarrow> int
     \<Rightarrow> metrics_call list option \<Rightarrow> bool \<Rightarrow> (coordinator \<times> block_pool) res" where
  "get_kv_cache_coordinator cfg len batched use_eagle caching evs dcp pcp hash_bs metrics int_hashes =
     (if \<not> caching
      then base_coordinator KVCacheCoordinatorNoPrefixCache cfg len batched use_eagle False evs dcp pcp hash_bs
             metrics int_hashes
      else if length (kv_cache_groups cfg) = 1
      then unitary_init cfg len batched use_eagle caching evs dcp pcp hash_bs metrics int_hashes
      else hybrid_init cfg len batched use_eagle caching evs dcp pcp hash_bs metrics int_hashes)"

section \<open>Operations on all managers\<close>

definition is_cross :: "manager \<Rightarrow> bool" where
  "is_cross m \<longleftrightarrow> mgr_class m = CrossAttentionManager"

definition co_get_num_blocks_to_allocate ::
  "string \<Rightarrow> int \<Rightarrow> blk list list \<Rightarrow> int \<Rightarrow> int \<Rightarrow> int \<Rightarrow> coordinator \<Rightarrow> block_pool \<Rightarrow> (int \<times> coordinator) res" where
  "co_get_num_blocks_to_allocate rid tokens hits encoder computed main co p =
     rbind (each_manager (\<lambda>i m n.
              rbind (if is_cross m then get_num_blocks_to_allocate rid encoder [] 0 encoder m p
                     else rbind (py_get hits (int i)) (\<lambda>h. get_num_blocks_to_allocate rid tokens h computed main m p))
                (\<lambda>(k, m'). Inr (m', n + k))) 0 (single_type_managers co) 0)
       (\<lambda>(ms, n). Inr (n, with_managers co ms))"

definition co_allocate_new_computed_blocks ::
  "string \<Rightarrow> blk list list \<Rightarrow> int \<Rightarrow> int \<Rightarrow> coordinator \<Rightarrow> block_pool \<Rightarrow> (coordinator \<times> block_pool) res" where
  "co_allocate_new_computed_blocks rid hits nl ne co p =
     rbind (each_manager (\<lambda>i m q. rbind (py_get hits (int i)) (\<lambda>h. allocate_new_computed_blocks rid h nl ne m q))
              0 (single_type_managers co) p)
       (\<lambda>(ms, p'). Inr (with_managers co ms, p'))"

definition co_allocate_new_blocks ::
  "string \<Rightarrow> int \<Rightarrow> int \<Rightarrow> int \<Rightarrow> coordinator \<Rightarrow> block_pool \<Rightarrow> (blk list list \<times> coordinator \<times> block_pool) res" where
  "co_allocate_new_blocks rid tokens main encoder co p =
     rbind (each_manager (\<lambda>i m (new, q).
              rbind (allocate_new_blocks rid (if is_cross m then encoder else tokens) main m q)
                (\<lambda>(bs, m', q'). Inr (m', (new @ [bs], q')))) 0 (single_type_managers co) ([], p))
       (\<lambda>(ms, (new, p')). Inr (new, with_managers co ms, p'))"

definition co_cache_blocks ::
  "hash_env \<Rightarrow> request \<Rightarrow> int \<Rightarrow> coordinator \<Rightarrow> block_pool \<Rightarrow> (request \<times> coordinator \<times> block_pool) res" where
  "co_cache_blocks env r computed co p =
     rbind (each_manager (\<lambda>i m (r, q).
              rbind (cache_blocks env r computed m q) (\<lambda>(r', m', q'). Inr (m', (r', q'))))
              0 (single_type_managers co) (r, p))
       (\<lambda>(ms, (r', p')). Inr (r', with_managers co ms, p'))"

definition co_free :: "string \<Rightarrow> coordinator \<Rightarrow> block_pool \<Rightarrow> (coordinator \<times> block_pool) res" where
  "co_free rid co p =
     rbind (each_manager (\<lambda>i. mgr_free rid) 0 (single_type_managers co) p)
       (\<lambda>(ms, p'). Inr (with_managers co ms, p'))"

definition co_get_num_common_prefix_blocks :: "string \<Rightarrow> coordinator \<Rightarrow> block_pool \<Rightarrow> int list \<times> coordinator" where
  "co_get_num_common_prefix_blocks rid co p =
     (if co_class co = KVCacheCoordinatorNoPrefixCache
      then (replicate (length (single_type_managers co)) 0, co)
      else let rs = map (\<lambda>m. get_num_common_prefix_blocks rid m p) (single_type_managers co)
           in (map fst rs, with_managers co (map snd rs)))"

definition co_remove_skipped_blocks :: "string \<Rightarrow> int \<Rightarrow> coordinator \<Rightarrow> block_pool \<Rightarrow> (coordinator \<times> block_pool) res" where
  "co_remove_skipped_blocks rid computed co p =
     rbind (each_manager (\<lambda>i. remove_skipped_blocks rid computed) 0 (single_type_managers co) p)
       (\<lambda>(ms, p'). Inr (with_managers co ms, p'))"

definition co_get_blocks :: "string \<Rightarrow> coordinator \<Rightarrow> blk list list" where
  "co_get_blocks rid co = map (\<lambda>m. blocks_of m rid) (single_type_managers co)"

definition co_new_step_starts :: "coordinator \<Rightarrow> coordinator" where
  "co_new_step_starts co = with_managers co (map new_step_starts (single_type_managers co))"

section \<open>The longest cache hit\<close>

definition unitary_find_longest_cache_hit ::
  "bytes list \<Rightarrow> int \<Rightarrow> coordinator \<Rightarrow> block_pool \<Rightarrow> (blk list list \<times> int) res" where
  "unitary_find_longest_cache_hit bhs max_length co p =
     rbind (py_get (single_type_managers co) 0) (\<lambda>m.
     rbind (py_get (kv_cache_groups (co_config co)) 0) (\<lambda>g.
     rbind (find_longest_cache_hit (mgr_class m) (Plain bhs) max_length [0] p (group_spec g)
              (0 \<in> set (eagle_group_ids co)) (co_block_size co) (co_dcp co) (co_pcp co)) (\<lambda>cs.
     rbind (py_get cs 0) (\<lambda>c. Inr (cs, py_len c * co_block_size co)))))"

text \<open>
  The hybrid search.  Its state is the current length, the blocks found so far for each group and
  the attention groups whose EAGLE drop is verified.
\<close>

type_synonym hit_state = "int \<times> blk list option list \<times> nat list"

definition hashes_for_spec :: "bytes list \<Rightarrow> coordinator \<Rightarrow> kv_cache_spec \<Rightarrow> block_hash_list res" where
  "hashes_for_spec bhs co spec =
     (if spec_block_size spec = co_hash_block_size co then Inr (Plain bhs)
      else BlockHashListWithBlockSize bhs (co_hash_block_size co) (spec_block_size spec))"

definition set_groups :: "int list \<Rightarrow> blk list list \<Rightarrow> blk list option list \<Rightarrow> blk list option list" where
  "set_groups ids cs found = fold (\<lambda>(g, c) fs. fs[nat g := Some c]) (zip ids cs) found"

definition check_group ::
  "bytes list \<Rightarrow> int \<Rightarrow> coordinator \<Rightarrow> block_pool \<Rightarrow> nat \<times> attention_group \<Rightarrow> hit_state \<Rightarrow> hit_state res" where
  "check_group bhs max_length co p = (\<lambda>(idx, spec, ids, cls) (cur, found, verified).
     rbind (py_get ids 0) (\<lambda>g0.
     rbind (py_get found g0) (\<lambda>cached.
       let bs = spec_block_size spec
       in if is_full_attention spec \<and> cached \<noteq> None then Inr (cur div bs * bs, found, verified)
          else
            let use_eagle = idx \<in> set (eagle_attn_group_indices co) \<and> idx \<notin> set verified;
                limit = (if use_eagle then min (cur + bs) max_length else cur)
            in rbind (hashes_for_spec bhs co spec) (\<lambda>hl.
               rbind (find_longest_cache_hit cls hl limit ids p spec use_eagle (lcm_block_size co) 1 1) (\<lambda>cs.
               rbind (py_get cs 0) (\<lambda>c.
                 let new_length = py_len c * bs;
                     verified' = (if use_eagle then List.insert idx verified
                                  else if new_length < cur then [] else verified)
                 in Inr (new_length, set_groups ids cs found, verified')))))))"

partial_function (option) hit_loop ::
  "bytes list \<Rightarrow> int \<Rightarrow> coordinator \<Rightarrow> block_pool \<Rightarrow> bool \<Rightarrow> hit_state \<Rightarrow> hit_state res option" where
  "hit_loop bhs max_length co p simple st =
     (case rfold (check_group bhs max_length co p) (List.enumerate 0 (attention_groups co)) st of
        Inl e \<Rightarrow> Some (Inl e)
      | Inr (cur, found, verified) \<Rightarrow>
          if fst st \<le> cur then Some (Inr (fst st, found, verified))
          else if simple then Some (Inr (cur, found, verified))
          else hit_loop bhs max_length co p simple (cur, found, verified))"

definition is_simple_hybrid :: "coordinator \<Rightarrow> bool" where
  "is_simple_hybrid co \<longleftrightarrow>
     length (attention_groups co) = 2 \<and> is_full_attention (fst (attention_groups co ! 0))"

text \<open>The full-attention lists of the first attention group are cut to the final length.\<close>

definition trim_full :: "coordinator \<Rightarrow> int \<Rightarrow> blk list option list \<Rightarrow> blk list option list res" where
  "trim_full co len found =
     rbind (py_get (attention_groups co) 0) (\<lambda>(spec, ids, _).
       if is_full_attention spec
       then Inr (fold (\<lambda>g fs. fs[nat g := map_option (\<lambda>c. py_upto c (len div spec_block_size spec)) (fs ! nat g)])
                   ids found)
       else Inr found)"

definition hybrid_find_longest_cache_hit ::
  "bytes list \<Rightarrow> int \<Rightarrow> coordinator \<Rightarrow> block_pool \<Rightarrow> (blk list list \<times> int) res option" where
  "hybrid_find_longest_cache_hit bhs max_length co p =
     map_option (\<lambda>r.
       rbind r (\<lambda>(len, found, _).
       rbind (trim_full co len found) (\<lambda>found'.
         Inr (map (\<lambda>c. case c of None \<Rightarrow> [] | Some bs \<Rightarrow> bs) found', len))))
       (hit_loop bhs max_length co p (is_simple_hybrid co)
          (max_length, replicate (length (kv_cache_groups (co_config co))) None, []))"

definition co_find_longest_cache_hit ::
  "bytes list \<Rightarrow> int \<Rightarrow> coordinator \<Rightarrow> block_pool \<Rightarrow> (blk list list \<times> int) res option" where
  "co_find_longest_cache_hit bhs max_length co p =
     (case co_class co of
        KVCacheCoordinatorNoPrefixCache \<Rightarrow> Some (Inr (replicate (length (single_type_managers co)) [], 0))
      | UnitaryKVCacheCoordinator \<Rightarrow> Some (unitary_find_longest_cache_hit bhs max_length co p)
      | HybridKVCacheCoordinator \<Rightarrow> hybrid_find_longest_cache_hit bhs max_length co p)"

end
