(* ===== verification/KV_Manager.thy ===== *)
theory KV_Manager
  imports KV_Coordinator
begin

text \<open>
  \<^verbatim>\<open>vllm/v1/core/kv_cache_manager.py\<close>: the interface of the KV cache to the scheduler.  The record
  holds the coordinator and the block pool it shares with the managers.  \<open>kv_cache_blocks\<close> carries
  a flag for the one pre-built empty instance, because \<^verbatim>\<open>allocate_slots\<close> compares with it by identity.
\<close>

section \<open>Allocation results\<close>

record kv_cache_blocks =
  group_blocks :: "blk list list"
  shared_empty :: bool

definition kv_blocks :: "blk list list \<Rightarrow> kv_cache_blocks" where
  "kv_blocks bs = \<lparr>group_blocks = bs, shared_empty = False\<rparr>"

definition kv_blocks_add :: "kv_cache_blocks \<Rightarrow> kv_cache_blocks \<Rightarrow> kv_cache_blocks" where
  "kv_blocks_add a b = kv_blocks (map2 (@) (group_blocks a) (group_blocks b))"

definition kb_get_block_ids :: "bool \<Rightarrow> kv_cache_blocks \<Rightarrow> int list list option" where
  "kb_get_block_ids allow_none b =
     (if allow_none \<and> list_all (\<lambda>g. g = []) (group_blocks b) then None
      else Some (map (map block_id) (group_blocks b)))"

definition get_unhashed_block_ids :: "block_pool \<Rightarrow> kv_cache_blocks \<Rightarrow> int list res" where
  "get_unhashed_block_ids p b =
     rbind (py_assert (length (group_blocks b) = 1)) (\<lambda>_.
       Inr (map block_id (filter (\<lambda>x. hash_of (heap p x) = None) (group_blocks b ! 0))))"

definition get_unhashed_block_ids_all_groups :: "block_pool \<Rightarrow> kv_cache_blocks \<Rightarrow> int list list" where
  "get_unhashed_block_ids_all_groups p b =
     map (\<lambda>g. map block_id (filter (\<lambda>x. hash_of (heap p x) = None \<and> \<not> is_null (heap p x)) g)) (group_blocks b)"

definition new_empty :: "kv_cache_blocks \<Rightarrow> kv_cache_blocks" where
  "new_empty b = kv_blocks (replicate (length (group_blocks b)) [])"

section \<open>State\<close>

record prefix_cache_stats =
  stats_reset :: bool
  stats_requests :: int
  stats_queries :: int
  stats_hits :: int
  preempted_requests :: int
  preempted_queries :: int
  preempted_hits :: int

definition new_prefix_cache_stats :: prefix_cache_stats where
  "new_prefix_cache_stats =
     \<lparr>stats_reset = False, stats_requests = 0, stats_queries = 0, stats_hits = 0,
      preempted_requests = 0, preempted_queries = 0, preempted_hits = 0\<rparr>"

definition record_stats :: "int \<Rightarrow> int \<Rightarrow> bool \<Rightarrow> prefix_cache_stats \<Rightarrow> prefix_cache_stats" where
  "record_stats tokens hits preempted s =
     (if preempted
      then s\<lparr>preempted_requests := preempted_requests s + 1,
             preempted_queries := preempted_queries s + tokens,
             preempted_hits := preempted_hits s + hits\<rparr>
      else s\<lparr>stats_requests := stats_requests s + 1, stats_queries := stats_queries s + tokens,
             stats_hits := stats_hits s + hits\<rparr>)"

record kv_manager =
  km_max_model_len :: int
  km_enable_caching :: bool
  km_log_stats :: bool
  km_stats :: "prefix_cache_stats option"
  km_coordinator :: coordinator
  km_pool :: block_pool
  km_num_groups :: nat

definition kv_manager_init ::
  "kv_cache_config \<Rightarrow> int \<Rightarrow> int \<Rightarrow> int option \<Rightarrow> bool \<Rightarrow> bool \<Rightarrow> bool \<Rightarrow> bool \<Rightarrow> int \<Rightarrow> int
     \<Rightarrow> metrics_call list option \<Rightarrow> bool \<Rightarrow> kv_manager res" where
  "kv_manager_init cfg len hash_bs batched caching use_eagle log_stats evs dcp pcp metrics int_hashes =
     (let tokens = (case batched of None \<Rightarrow> len | Some n \<Rightarrow> n)
      in rbind (get_kv_cache_coordinator cfg len tokens use_eagle caching evs dcp pcp hash_bs metrics int_hashes)
           (\<lambda>(co, p).
             Inr \<lparr>km_max_model_len = len, km_enable_caching = caching, km_log_stats = log_stats,
                  km_stats = (if log_stats then Some new_prefix_cache_stats else None),
                  km_coordinator = co, km_pool = p, km_num_groups = length (kv_cache_groups cfg)\<rparr>))"

definition km_update :: "kv_manager \<Rightarrow> coordinator \<Rightarrow> block_pool \<Rightarrow> kv_manager" where
  "km_update km co p = km\<lparr>km_coordinator := co, km_pool := p\<rparr>"

definition empty_kv_cache_blocks :: "kv_manager \<Rightarrow> kv_cache_blocks" where
  "empty_kv_cache_blocks km = \<lparr>group_blocks = replicate (km_num_groups km) [], shared_empty = True\<rparr>"

definition create_kv_cache_blocks :: "kv_manager \<Rightarrow> blk list list \<Rightarrow> kv_cache_blocks" where
  "create_kv_cache_blocks km bs =
     (if list_ex (\<lambda>g. g \<noteq> []) bs then kv_blocks bs else empty_kv_cache_blocks km)"

definition blocks_or_empty :: "kv_manager \<Rightarrow> kv_cache_blocks option \<Rightarrow> kv_cache_blocks" where
  "blocks_or_empty km b = (case b of None \<Rightarrow> empty_kv_cache_blocks km | Some x \<Rightarrow> x)"

section \<open>Operations\<close>

definition km_usage :: "kv_manager \<Rightarrow> rat" where
  "km_usage km = get_usage (km_pool km)"

definition make_prefix_cache_stats :: "kv_manager \<Rightarrow> prefix_cache_stats option \<times> kv_manager" where
  "make_prefix_cache_stats km =
     (if \<not> km_log_stats km then (None, km)
      else (km_stats km, km\<lparr>km_stats := Some new_prefix_cache_stats\<rparr>))"

definition log_hit :: "request \<Rightarrow> int \<Rightarrow> kv_manager \<Rightarrow> kv_manager res" where
  "log_hit r hits km =
     (if km_log_stats km
      then case km_stats km of
             None \<Rightarrow> Inl AssertionError
           | Some s \<Rightarrow> Inr (km\<lparr>km_stats := Some (record_stats (num_tokens r) hits (0 < num_preemptions r) s)\<rparr>)
      else Inr km)"

definition get_computed_blocks :: "request \<Rightarrow> kv_manager \<Rightarrow> ((kv_cache_blocks \<times> int) \<times> kv_manager) res option" where
  "get_computed_blocks r km =
     (if \<not> km_enable_caching km \<or> skip_reading_prefix_cache r
      then Some (Inr ((empty_kv_cache_blocks km, 0), km))
      else map_option (\<lambda>res.
             rbind res (\<lambda>(bs, n).
             rbind (log_hit r n km) (\<lambda>km'. Inr ((create_kv_cache_blocks km bs, n), km'))))
             (co_find_longest_cache_hit (block_hashes r) (num_tokens r - 1) (km_coordinator km) (km_pool km)))"

definition can_fit_full_sequence ::
  "request \<Rightarrow> int \<Rightarrow> kv_cache_blocks option \<Rightarrow> int \<Rightarrow> int \<Rightarrow> kv_manager \<Rightarrow> (bool \<times> kv_manager) res" where
  "can_fit_full_sequence r new_computed hits external encoder km =
     (let total_computed = min (num_computed_tokens r + new_computed + external) (km_max_model_len km);
          full = min (num_tokens r) (km_max_model_len km)
      in rbind (co_get_num_blocks_to_allocate (request_id r) full (group_blocks (blocks_or_empty km hits)) encoder
                  total_computed full (km_coordinator km) (km_pool km)) (\<lambda>(n, co).
           Inr (n \<le> get_num_free_blocks (km_pool km), km_update km co (km_pool km))))"

text \<open>\<^verbatim>\<open>hasattr(mgr, ...)\<close> holds for the NELSSA managers only.\<close>

definition km_mark_long_request :: "string \<Rightarrow> int \<Rightarrow> coordinator \<Rightarrow> coordinator" where
  "km_mark_long_request rid len co =
     with_managers co (map (\<lambda>m. if mgr_class m = NELSSACacheManager then mark_long_request rid len m else m)
                         (single_type_managers co))"

definition allocate_slots ::
  "hash_env \<Rightarrow> request \<Rightarrow> int \<Rightarrow> int \<Rightarrow> kv_cache_blocks option \<Rightarrow> int \<Rightarrow> int \<Rightarrow> bool \<Rightarrow> int \<Rightarrow> kv_manager
     \<Rightarrow> (kv_cache_blocks option \<times> request \<times> kv_manager) res" where
  "allocate_slots env r num_new new_computed hits lookahead external delay encoder km =
     (if num_new = 0 \<and> external = 0 then Inl ValueError
      else
        let rid = request_id r;
            hit_blocks = blocks_or_empty km hits;
            local_computed = num_computed_tokens r + new_computed;
            total_computed = min (local_computed + external) (km_max_model_len km);
            main = total_computed + num_new;
            need_slot = min (main + lookahead) (km_max_model_len km)
        in rbind (co_remove_skipped_blocks rid total_computed (km_coordinator km) (km_pool km)) (\<lambda>(co1, p1).
           let co2 = (if request.nelssa_long_mask r then km_mark_long_request rid (num_tokens r) co1 else co1)
           in rbind (co_get_num_blocks_to_allocate rid need_slot (group_blocks hit_blocks) encoder
                       (local_computed + external) main co2 p1) (\<lambda>(needed, co3).
              if get_num_free_blocks p1 < needed then Inr (None, r, km_update km co3 p1)
              else
                rbind (if \<not> shared_empty hit_blocks \<or> 0 < external
                       then co_allocate_new_computed_blocks rid (group_blocks hit_blocks) local_computed external co3 p1
                       else Inr (co3, p1)) (\<lambda>(co4, p4).
                rbind (co_allocate_new_blocks rid need_slot main encoder co4 p4) (\<lambda>(new, co5, p5).
                  if \<not> km_enable_caching km \<or> delay
                  then Inr (Some (create_kv_cache_blocks km new), r, km_update km co5 p5)
                  else
                    rbind (co_cache_blocks env r (min (total_computed + num_new) (num_tokens r)) co5 p5)
                      (\<lambda>(r', co6, p6).
                        Inr (Some (create_kv_cache_blocks km new), r', km_update km co6 p6)))))))"

definition km_free :: "request \<Rightarrow> kv_manager \<Rightarrow> kv_manager res" where
  "km_free r km =
     rbind (co_free (request_id r) (km_coordinator km) (km_pool km)) (\<lambda>(co, p). Inr (km_update km co p))"

definition km_remove_skipped_blocks :: "string \<Rightarrow> int \<Rightarrow> kv_manager \<Rightarrow> kv_manager res" where
  "km_remove_skipped_blocks rid computed km =
     rbind (co_remove_skipped_blocks rid computed (km_coordinator km) (km_pool km)) (\<lambda>(co, p).
       Inr (km_update km co p))"

definition km_evict_blocks :: "int list \<Rightarrow> kv_manager \<Rightarrow> kv_manager res" where
  "km_evict_blocks bids km =
     rbind (evict_blocks bids (km_pool km)) (\<lambda>p. Inr (km_update km (km_coordinator km) p))"

definition km_reset_prefix_cache :: "kv_manager \<Rightarrow> (bool \<times> kv_manager) res" where
  "km_reset_prefix_cache km =
     (let (ok, p) = pool_reset_prefix_cache (km_pool km);
          km' = km_update km (km_coordinator km) p
      in if \<not> ok then Inr (False, km')
         else if km_log_stats km
         then case km_stats km of
                None \<Rightarrow> Inl AssertionError
              | Some s \<Rightarrow> Inr (True, km'\<lparr>km_stats := Some (s\<lparr>stats_reset := True\<rparr>)\<rparr>)
         else Inr (True, km'))"

definition km_get_num_common_prefix_blocks :: "string \<Rightarrow> kv_manager \<Rightarrow> int list \<times> kv_manager" where
  "km_get_num_common_prefix_blocks rid km =
     (let (ns, co) = co_get_num_common_prefix_blocks rid (km_coordinator km) (km_pool km)
      in (ns, km_update km co (km_pool km)))"

definition km_take_events :: "kv_manager \<Rightarrow> kv_event list \<times> kv_manager" where
  "km_take_events km =
     (let (evs, p) = pool_take_events (km_pool km) in (evs, km_update km (km_coordinator km) p))"

definition km_get_blocks :: "string \<Rightarrow> kv_manager \<Rightarrow> kv_cache_blocks" where
  "km_get_blocks rid km = create_kv_cache_blocks km (co_get_blocks rid (km_coordinator km))"

definition km_get_block_ids :: "string \<Rightarrow> kv_manager \<Rightarrow> int list list" where
  "km_get_block_ids rid km = map (map block_id) (group_blocks (km_get_blocks rid km))"

definition km_cache_blocks :: "hash_env \<Rightarrow> request \<Rightarrow> int \<Rightarrow> kv_manager \<Rightarrow> (request \<times> kv_manager) res" where
  "km_cache_blocks env r computed km =
     (if km_enable_caching km
      then rbind (co_cache_blocks env r computed (km_coordinator km) (km_pool km)) (\<lambda>(r', co, p).
             Inr (r', km_update km co p))
      else Inr (r, km))"

definition free_sparse_kv :: "string \<Rightarrow> kv_manager \<Rightarrow> kv_manager res" where
  "free_sparse_kv rid km =
     rbind (each_manager (\<lambda>i m q. if mgr_class m = NELSSACacheManager then free_middle_blocks rid m q else Inr (m, q))
              0 (single_type_managers (km_coordinator km)) (km_pool km)) (\<lambda>(ms, p).
       Inr (km_update km (with_managers (km_coordinator km) ms) p))"

definition km_take_new_block_ids :: "kv_manager \<Rightarrow> int list \<times> kv_manager" where
  "km_take_new_block_ids km =
     (let rs = map take_new_block_ids (single_type_managers (km_coordinator km))
      in (concat (map fst rs), km\<lparr>km_coordinator := with_managers (km_coordinator km) (map snd rs)\<rparr>))"

definition km_new_step_starts :: "kv_manager \<Rightarrow> kv_manager" where
  "km_new_step_starts km = km\<lparr>km_coordinator := co_new_step_starts (km_coordinator km)\<rparr>"

end
