(* ===== verification/Block_Pool_Props.thy ===== *)
theory Block_Pool_Props
  imports Block_Pool_Ops
begin

text \<open>
  The properties of the block pool: a step relation over its operations and the invariant of every
  reachable state, allocation, prefix-cache lookup, registration, release and reset.
\<close>

section \<open>Steps\<close>

definition cacheable ::
  "block_pool \<Rightarrow> request \<Rightarrow> blk list \<Rightarrow> int \<Rightarrow> int \<Rightarrow> int \<Rightarrow> int \<Rightarrow> bool" where
  "cacheable p r blks nc nf bs gid \<longleftrightarrow>
     0 \<le> gid \<and> gid < 2 ^ 32 \<and> 0 \<le> nc \<and> 0 \<le> nf \<and> nf \<le> py_len blks \<and> set blks \<subseteq> set (blocks p) \<and>
     0 < bs \<and> 0 < hash_block_size p \<and> bs mod hash_block_size p = 0 \<and> nf \<le> py_len (block_hashes r) \<and>
     nf \<le> bhl_len (hash_list_for bs (hash_block_size p) (block_hashes r)) \<and>
     distinct (filter (\<lambda>b. b \<noteq> null_block p) (py_slice blks nc nf)) \<and>
     list_all (\<lambda>b. hashes p b = None) (py_slice blks nc nf)"

inductive pool_step :: "hash_env \<Rightarrow> block_pool \<Rightarrow> block_pool \<Rightarrow> bool" for env where
  step_new: "0 \<le> n \<Longrightarrow> get_new_blocks n p = Inr (bs, p') \<Longrightarrow> pool_step env p p'"
| step_touch: "set bs \<subseteq> set (blocks p) \<Longrightarrow> touch bs p = Inr p' \<Longrightarrow> pool_step env p p'"
| step_free: "releasable p bs \<Longrightarrow> free_blocks bs p = Inr p' \<Longrightarrow> pool_step env p p'"
| step_evict: "list_all (\<lambda>i. 0 \<le> i \<and> i < num_gpu_blocks p) bids \<Longrightarrow> evict_blocks bids p = Inr p' \<Longrightarrow>
    pool_step env p p'"
| step_cache: "cacheable p r blks nc nf bs gid \<Longrightarrow>
    cache_full_blocks env r blks nc nf bs gid p = Inr (r', p') \<Longrightarrow> pool_step env p p'"
| step_reset: "pool_reset_prefix_cache p = (ok, p') \<Longrightarrow> pool_step env p p'"
| step_events: "pool_take_events p = (es, p') \<Longrightarrow> pool_step env p p'"

inductive pool_reach :: "hash_env \<Rightarrow> block_pool \<Rightarrow> bool" for env where
  reach_init: "pool_init n caching hbs evs mets ih = Inr p \<Longrightarrow> pool_reach env p"
| reach_step: "pool_reach env p \<Longrightarrow> pool_step env p p' \<Longrightarrow> pool_reach env p'"

lemma pool_init_inv: "pool_init n caching hbs evs mets ih = Inr p \<Longrightarrow> \<exists>xs. pool_inv p xs"
proof -
  assume i: "pool_init n caching hbs evs mets ih = Inr p"
  then have "0 < n" by (auto simp: pool_init_def py_assert_def rbind_def split: if_splits)
  from pool_init_state [OF this, of caching hbs evs mets ih] i show ?thesis by auto
qed

lemma cacheable_state:
  assumes "pool_inv p xs" "cacheable p r blks nc nf bs gid"
  shows "\<exists>r' p' g. cache_full_blocks env r blks nc nf bs gid p = Inr (r', p') \<and> same_but_embeds r r'
           \<and> pool_inv p' xs \<and> (\<forall>c. refs p' c = refs p c) \<and> pool_const p' = pool_const p
           \<and> to_bytes4 gid = Inr g
           \<and> hashes p' = hashes p ++ map_of (cache_keys g (null_block p) (py_slice blks nc nf)
                (drop (nat nc) (bhl_list (hash_list_for bs (hash_block_size p) (block_hashes r)))))"
proof -
  obtain g where g: "to_bytes4 gid = Inr g"
    using assms(2) to_bytes4_eq_Inr_iff [of gid] by (auto simp: cacheable_def)
  show ?thesis
    using cache_full_blocks_state [OF assms(1) g _ _ _ _ _ _ refl _ _ refl, of nc nf blks bs r env] assms(2) g
    by (auto simp: cacheable_def)
qed

lemma pool_step_inv:
  assumes "pool_step env p p'" "pool_inv p xs"
  shows "\<exists>xs'. pool_inv p' xs' \<and> pool_const p' = pool_const p"
  using assms(1)
proof (cases rule: pool_step.cases)
  case (step_new n bs)
  then show ?thesis
    using get_new_blocks_state [OF assms(2), of n] get_new_blocks_error [OF assms(2), of n]
    by (cases "n \<le> py_len xs") auto
next
  case (step_touch bs)
  then show ?thesis using touch_state [OF assms(2), of bs] by auto
next
  case (step_free bs)
  then show ?thesis using free_blocks_state [OF assms(2), of bs] by auto
next
  case (step_evict bids)
  then show ?thesis using evict_blocks_state [OF assms(2), of bids] by auto
next
  case (step_cache r blks nc nf bs gid r')
  then show ?thesis using cacheable_state [OF assms(2), of r blks nc nf bs gid env] by auto
next
  case (step_reset ok)
  then show ?thesis
    using pool_reset_state [OF assms(2)] pool_reset_fails [OF assms(2)] assms(2)
    by (cases "py_len xs = num_gpu_blocks p - 1") auto
next
  case (step_events es)
  then have "p' = p \<or> p' = p\<lparr>kv_event_queue := []\<rparr>" by (auto simp: pool_take_events_def split: if_splits)
  then show ?thesis
    using assms(2) pool_state_cong(1) [of "p\<lparr>kv_event_queue := []\<rparr>" p xs "[]"] by auto
qed

lemma pool_reach_inv: "pool_reach env p \<Longrightarrow> \<exists>xs. pool_inv p xs"
proof (induction rule: pool_reach.induct)
  case (reach_init n caching hbs evs mets ih p)
  then show ?case by (rule pool_init_inv)
next
  case (reach_step p p')
  then show ?case using pool_step_inv by blast
qed

section \<open>Lookup\<close>

lemma get_cached_block_cases:
  assumes "pool_inv p xs" "list_all (\<lambda>g. 0 \<le> g \<and> g < 2 ^ 32) gids"
  shows "\<exists>res. get_cached_block h gids p = Inr res \<and>
           (case res of
              None \<Rightarrow> \<exists>g\<in>set gids. \<exists>key. make_block_hash_with_group_id h g = Inr key \<and> (\<forall>b. hashes p b \<noteq> Some key)
            | Some bs \<Rightarrow> list_all2 (\<lambda>g b. usable p b \<and> make_block_hash_with_group_id h g = Inr (the (hashes p b))
                                         \<and> hashes p b \<noteq> None) gids bs)"
  using assms(2)
proof (induction gids)
  case (Cons g gs)
  have cw: "bmap_ok (cached_block_hash_to_block p)"
    "hash_agrees (bmap_blocks (cached_block_hash_to_block p)) (hashes p)"
    "\<And>b. hashes p b \<noteq> None \<Longrightarrow> usable p b" "pool_wf p"
    using assms(1) by (auto simp: pool_state_def cache_wf_def)
  obtain key where key: "make_block_hash_with_group_id h g = Inr key"
    using Cons.prems to_bytes4_eq_Inr_iff [of g] by (auto simp: make_block_hash_with_group_id_def)
  obtain r where r: "get_one_block (cached_block_hash_to_block p) key = Inr r"
    "case r of None \<Rightarrow> \<forall>b. real_blk b \<longrightarrow> hashes p b \<noteq> Some key
             | Some b \<Rightarrow> real_blk b \<and> hashes p b = Some key"
    using bc.get_agrees [OF cw(1,2), of key] by blast
  show ?case
  proof (cases r)
    case None
    then have "\<forall>b. hashes p b \<noteq> Some key"
      using r(2) cw(3,4) usable_real by fastforce
    then show ?thesis using key r(1) None by auto
  next
    case (Some b)
    have b: "hashes p b = Some key" "usable p b" using r(2) Some cw(3) by auto
    obtain res where res: "get_cached_block h gs p = Inr res"
      "case res of
              None \<Rightarrow> \<exists>g\<in>set gs. \<exists>key. make_block_hash_with_group_id h g = Inr key \<and> (\<forall>b. hashes p b \<noteq> Some key)
            | Some bs \<Rightarrow> list_all2 (\<lambda>g b. usable p b \<and> make_block_hash_with_group_id h g = Inr (the (hashes p b))
                                         \<and> hashes p b \<noteq> None) gs bs"
      using Cons by auto
    then show ?thesis using key r(1) Some b by (cases res) auto
  qed
qed simp

lemma cache_keys_nth:
  assumes "j < length bs" "length bs \<le> length hs" "distinct (filter (\<lambda>b. b \<noteq> nb) bs)" "bs ! j \<noteq> nb"
  shows "map_of (cache_keys g nb bs hs) (bs ! j) = Some (hs ! j @ g)"
  using assms
proof (induction bs arbitrary: hs j)
  case (Cons b bs)
  obtain h hs' where hs: "hs = h # hs'" using Cons.prems(2) by (cases hs) auto
  show ?case
  proof (cases j)
    case 0
    then show ?thesis using Cons.prems hs by (simp add: cache_keys_Cons)
  next
    case (Suc k)
    then have "map_of (cache_keys g nb bs hs') (bs ! k) = Some (hs' ! k @ g)"
      using Cons.prems hs by (intro Cons.IH) (auto split: if_splits)
    moreover have "bs ! k \<noteq> b \<or> b = nb" using Cons.prems Suc by (auto split: if_splits)
    ultimately show ?thesis using Suc hs Cons.prems(4) by (auto simp: cache_keys_Cons)
  qed
qed simp

text \<open>A concrete pool on which the properties are applied.\<close>

definition demo_pool :: block_pool where
  "demo_pool = (case pool_init 5 True 2 False None False of Inr p \<Rightarrow> p | Inl _ \<Rightarrow> undefined)"

lemma demo_pool_init: "pool_init 5 True 2 False None False = Inr demo_pool"
  using pool_init_state [of 5 True 2 False None False] by (auto simp: demo_pool_def)

lemma demo_pool_inv:
  "pool_inv demo_pool [Blk 1, Blk 2, Blk 3, Blk 4]" "num_gpu_blocks demo_pool = 5"
  "hash_block_size demo_pool = 2" "enable_caching demo_pool" "hashes demo_pool = (\<lambda>_. None)"
  "refs demo_pool b = 0" "blocks demo_pool = [Blk 0, Blk 1, Blk 2, Blk 3, Blk 4]"
  "null_block demo_pool = Blk 0"
proof -
  have p: "pool_inv demo_pool (map Blk [1..<nat 5]) \<and> num_gpu_blocks demo_pool = 5 \<and>
      enable_caching demo_pool \<and> hash_block_size demo_pool = 2 \<and> (\<forall>b. refs demo_pool b = 0) \<and>
      hashes demo_pool = (\<lambda>_. None)"
    using pool_init_state [of 5 True 2 False None False] demo_pool_init by auto
  have n: "[1..<nat 5] = [1, 2, 3, 4]" "[0..<nat 5] = [0, 1, 2, 3, 4]" by (simp_all add: upt_rec)
  show "pool_inv demo_pool [Blk 1, Blk 2, Blk 3, Blk 4]" "num_gpu_blocks demo_pool = 5"
    "hash_block_size demo_pool = 2" "enable_caching demo_pool" "hashes demo_pool = (\<lambda>_. None)"
    "refs demo_pool b = 0"
    using p unfolding n(1) by simp_all
  have "pool_wf demo_pool" using p by (simp add: pool_state_def)
  then show "blocks demo_pool = [Blk 0, Blk 1, Blk 2, Blk 3, Blk 4]" "null_block demo_pool = Blk 0"
    using p n(2) by (auto simp: pool_wf_def)
qed

section \<open>Properties\<close>

text \<open>
  C9. In every state the pool can reach through its operations, the free queue is a well-formed
  list without repetition, it holds exactly the non-null blocks with reference count zero and its
  counter is its length, no reference count of a usable block is negative, and the prefix cache
  lists a block under a key exactly when the block stores that key as its hash.
\<close>

theorem pool_reachable_invariant:
  assumes "pool_reach env p"
  shows "\<exists>xs. get_all_free_blocks p = Some (Inr xs) \<and> distinct xs \<and> get_num_free_blocks p = py_len xs
          \<and> (\<forall>b. b \<in> set xs \<longleftrightarrow> usable p b \<and> refs p b = 0)
          \<and> (\<forall>b. usable p b \<longrightarrow> 0 \<le> refs p b)
          \<and> (\<forall>k b. b \<in> set (bmap_blocks (cached_block_hash_to_block p) k) \<longleftrightarrow> hashes p b = Some k)"
proof -
  obtain xs where xs: "pool_inv p xs" using pool_reach_inv [OF assms] by blast
  then have st: "pool_wf p" "queue_rel p xs" "cache_wf p" "distinct xs"
    by (simp_all add: pool_state_def)
  have "hashes p b = Some k \<Longrightarrow> real_blk b" for k b
    using st(1,3) usable_real by (fastforce simp: cache_wf_def)
  then have "b \<in> set (bmap_blocks (cached_block_hash_to_block p) k) \<longleftrightarrow> hashes p b = Some k" for k b
    using st(3) unfolding cache_wf_def hash_agrees_def by blast
  then show ?thesis
    using xs st(4) fq.all_free_rel [OF st(2)] fq.rel_wf [OF st(2)]
    by (intro exI [of _ xs]) (auto simp: pool_state_def get_num_free_blocks_def)
qed

theorem pool_reachable_invariant_witness:
  "\<exists>bs q xs. get_new_blocks 2 demo_pool = Inr (bs, q) \<and> pool_reach demo_env q
      \<and> get_all_free_blocks q = Some (Inr xs) \<and> distinct xs \<and> get_num_free_blocks q = py_len xs
      \<and> (\<forall>b. b \<in> set xs \<longleftrightarrow> usable q b \<and> refs q b = 0)"
proof -
  obtain q where q: "get_new_blocks 2 demo_pool = Inr ([Blk 1, Blk 2], q)"
    using get_new_blocks_state [OF demo_pool_inv(1), of 2] by (auto simp: py_len_def)
  have "pool_reach demo_env demo_pool" by (rule reach_init [OF demo_pool_init])
  then have "pool_reach demo_env q" by (rule reach_step) (rule step_new [OF _ q], simp)
  then show ?thesis using pool_reachable_invariant [of demo_env q] q by blast
qed

text \<open>
  C16. \<^verbatim>\<open>get_new_blocks\<close> hands out the first blocks of the eviction order, each with reference
  count one and, when caching is enabled, removed from the prefix cache; every other block keeps
  its count and hash.  Asking for more blocks than are free raises \<^verbatim>\<open>ValueError\<close>.
\<close>

theorem get_new_blocks_spec:
  assumes "pool_inv p xs" "0 \<le> n"
  shows "if n \<le> py_len xs
         then \<exists>p'. get_new_blocks n p = Inr (take (nat n) xs, p') \<and> pool_inv p' (drop (nat n) xs)
                \<and> (\<forall>b. refs p' b = (if b \<in> set (take (nat n) xs) then 1 else refs p b))
                \<and> (\<forall>b. hashes p' b = (if enable_caching p \<and> b \<in> set (take (nat n) xs) then None
                                       else hashes p b))
         else get_new_blocks n p = Inl ValueError"
  using get_new_blocks_state [OF assms] get_new_blocks_error [OF assms(1)] by auto

theorem get_new_blocks_spec_witness:
  "(\<exists>p'. get_new_blocks 3 demo_pool = Inr ([Blk 1, Blk 2, Blk 3], p') \<and> pool_inv p' [Blk 4]
       \<and> refs p' (Blk 2) = 1 \<and> refs p' (Blk 4) = 0)
   \<and> get_new_blocks 5 demo_pool = Inl ValueError"
  using get_new_blocks_spec [OF demo_pool_inv(1), of 3] get_new_blocks_spec [OF demo_pool_inv(1), of 5]
  by (auto simp: py_len_def demo_pool_inv numeral_3_eq_3)

text \<open>
  C17. Prefix-cache lookup is sound and complete: \<^verbatim>\<open>get_cached_block\<close> returns, for each group, a
  usable block that stores exactly the key made of the hash and the group id, and it reports a
  miss only if for some group no block stores that key.
\<close>

theorem get_cached_block_sound_complete:
  assumes "pool_inv p xs" "list_all (\<lambda>g. 0 \<le> g \<and> g < 2 ^ 32) gids"
  shows "\<exists>res. get_cached_block h gids p = Inr res \<and>
           (case res of
              None \<Rightarrow> \<exists>g key. g \<in> set gids \<and> make_block_hash_with_group_id h g = Inr key
                            \<and> (\<forall>b. hashes p b \<noteq> Some key)
            | Some bs \<Rightarrow> list_all2 (\<lambda>g b. usable p b \<and> hashes p b \<noteq> None
                            \<and> make_block_hash_with_group_id h g = Inr (the (hashes p b))) gids bs)"
  using get_cached_block_cases [OF assms, of h]
  by (fastforce split: option.splits elim: list_all2_mono)

theorem get_cached_block_sound_complete_witness:
  "get_cached_block [1, 2] [0] demo_pool = Inr None"
  using get_cached_block_sound_complete [OF demo_pool_inv(1), of "[0]" "[1, 2]"]
  by (auto simp: list_all2_Cons1 demo_pool_inv(5) split: option.splits)

text \<open>
  C18. What is registered is found: \<^verbatim>\<open>cache_full_blocks\<close> succeeds on the full blocks of a request
  that are not yet registered, changes no reference count and no free block, and afterwards
  \<^verbatim>\<open>get_cached_block\<close> with the hash of any of these blocks hits a block that stores the same key.
\<close>

theorem cached_blocks_are_found:
  assumes "pool_inv p xs" "cacheable p r blks nc nf bs gid"
    and "nc \<le> j" "j < nf" "blks ! nat j \<noteq> null_block p"
  shows "\<exists>r' p' h b. cache_full_blocks env r blks nc nf bs gid p = Inr (r', p') \<and> pool_inv p' xs
           \<and> (\<forall>c. refs p' c = refs p c)
           \<and> h = bhl_list (hash_list_for bs (hash_block_size p) (block_hashes r)) ! nat j
           \<and> get_cached_block h [gid] p' = Inr (Some [b]) \<and> hashes p' b = hashes p' (blks ! nat j)
           \<and> make_block_hash_with_group_id h gid = Inr (the (hashes p' b))"
proof -
  let ?l = "hash_list_for bs (hash_block_size p) (block_hashes r)" and ?new = "py_slice blks nc nf"
  obtain r' p' g where c: "cache_full_blocks env r blks nc nf bs gid p = Inr (r', p')" "pool_inv p' xs"
    "\<forall>c. refs p' c = refs p c" "to_bytes4 gid = Inr g"
    "hashes p' = hashes p ++ map_of (cache_keys g (null_block p) ?new (drop (nat nc) (bhl_list ?l)))"
    using cacheable_state [OF assms(1,2), of env] by blast
  note d = assms(2) [unfolded cacheable_def]
  define i where "i = nat j - nat nc"
  have len: "py_len (bhl_list ?l) = bhl_len ?l" by (rule bhl_len_list(1) [OF refl]) (use d in auto)
  have slice: "?new = take (nat nf - nat nc) (drop (nat nc) blks)" using d by (simp add: idx_simps)
  have ij: "nat nc + i = nat j" "i < length ?new" "nat nf \<le> length blks" "nat nf \<le> length (bhl_list ?l)"
    using assms(3,4) d len unfolding slice by (auto simp: i_def py_len_def)
  have "?new ! i = blks ! nat j" using ij assms(4) unfolding slice by simp
  moreover have "length ?new \<le> length (drop (nat nc) (bhl_list ?l))"
    using diff_le_mono [OF ij(4), of "nat nc"] unfolding slice by (simp add: min.coboundedI2)
  moreover have "drop (nat nc) (bhl_list ?l) ! i = bhl_list ?l ! nat j" using ij assms(4) d by simp
  ultimately have h: "hashes p' (blks ! nat j) = Some (bhl_list ?l ! nat j @ g)"
    using cache_keys_nth [of i ?new "drop (nat nc) (bhl_list ?l)" "null_block p" g] ij(2) d assms(5) c(5)
    by simp
  have key: "make_block_hash_with_group_id (bhl_list ?l ! nat j) gid = Inr (bhl_list ?l ! nat j @ g)"
    using c(4) by (simp add: make_block_hash_with_group_id_def)
  obtain res where res: "get_cached_block (bhl_list ?l ! nat j) [gid] p' = Inr res"
    "case res of
       None \<Rightarrow> \<exists>g\<in>set [gid]. \<exists>key. make_block_hash_with_group_id (bhl_list ?l ! nat j) g = Inr key
                  \<and> (\<forall>b. hashes p' b \<noteq> Some key)
     | Some bs \<Rightarrow> list_all2 (\<lambda>g b. usable p' b \<and>
         make_block_hash_with_group_id (bhl_list ?l ! nat j) g = Inr (the (hashes p' b)) \<and> hashes p' b \<noteq> None) [gid] bs"
    using get_cached_block_cases [OF c(2), of "[gid]" "bhl_list ?l ! nat j"] d by auto
  then obtain b where "res = Some [b]" "hashes p' b = Some (bhl_list ?l ! nat j @ g)"
    using key h by (cases res) (auto simp: list_all2_Cons1)
  then show ?thesis using c(1-3) res(1) h key by auto
qed

theorem cached_blocks_are_found_witness:
  "\<exists>q r r' p' h b. get_new_blocks 2 demo_pool = Inr ([Blk 1, Blk 2], q) \<and> all_token_ids r = [1, 2, 3, 4]
     \<and> cache_full_blocks demo_env r [Blk 1, Blk 2] 0 2 2 0 q = Inr (r', p')
     \<and> h = block_hashes r ! 1 \<and> get_cached_block h [0] p' = Inr (Some [b])
     \<and> hashes p' b = hashes p' (Blk 2)"
proof -
  obtain q where q: "get_new_blocks 2 demo_pool = Inr ([Blk 1, Blk 2], q)" "pool_inv q [Blk 3, Blk 4]"
    "pool_const q = pool_const demo_pool" "\<And>b. hashes q b = None"
    using get_new_blocks_state [OF demo_pool_inv(1), of 2] by (auto simp: py_len_def demo_pool_inv)
  obtain r where r: "hashes_ok demo_env 2 r" "all_token_ids r = [1, 2, 3, 4]"
    using demo_requests [of "[1, 2, 3, 4]" "[]" "[]"] by auto
  have len: "length (block_hashes r) = 2"
    using r by (simp add: hashes_ok_def full_blocks_def num_tokens_def)
  have f: "blocks q = [Blk 0, Blk 1, Blk 2, Blk 3, Blk 4]" "null_block q = Blk 0" "hash_block_size q = 2"
    using pool_const_eqD [OF q(3)] by (simp_all add: demo_pool_inv)
  have "cacheable q r [Blk 1, Blk 2] 0 2 2 0"
    using len q(4) by (simp add: cacheable_def f hash_list_for_def py_len_def idx_simps)
  from cached_blocks_are_found [OF q(2) this, of 1 demo_env] show ?thesis
    using q(1) r(2) by (auto simp: f hash_list_for_def)
qed

text \<open>
  Touching and releasing are inverse: touching blocks that a request hits and releasing them
  in reverse order, as the managers do, gives back every reference count and every hash and the
  same set of free blocks; the blocks that were free before move to the end of the eviction order.
\<close>

lemma touch_free_roundtrip:
  assumes "pool_inv p xs" "distinct bs" "list_all (usable p) bs"
  shows "\<exists>p1 p2. touch bs p = Inr p1 \<and> free_blocks (rev bs) p1 = Inr p2
           \<and> pool_inv p2 (filter (\<lambda>b. b \<notin> set bs) xs @ filter (\<lambda>b. b \<in> set xs) (rev bs))
           \<and> (\<forall>b. refs p2 b = refs p b) \<and> hashes p2 = hashes p"
proof -
  have sub: "set bs \<subseteq> set (blocks p)" and nn: "null_block p \<notin> set bs"
    using assms(3) by (auto simp: list_all_iff usable_def)
  obtain p1 where p1: "touch bs p = Inr p1" "pool_inv p1 (filter (\<lambda>b. b \<notin> set bs) xs)"
    "hashes p1 = hashes p" "\<And>c. refs p1 c = refs p c + int (count_list bs c)" "pool_const p1 = pool_const p"
    using touch_state [OF assms(1) sub] by blast
  note k = pool_const_eqD [OF p1(5)]
  have cnt: "count_list bs c = (if c \<in> set bs then 1 else 0)" "count_list (rev bs) c = count_list bs c" for c
    using count_list_mem_distinct [OF assms(2)] by simp_all
  have pos: "c \<in> set bs \<Longrightarrow> 0 \<le> refs p c" for c
    using assms(1,3) by (auto simp: pool_state_def list_all_iff)
  have "releasable p1 (rev bs)"
    using assms(2) sub pos by (auto simp: releasable_def k list_all_iff p1(4) cnt)
  from free_blocks_state [OF p1(2) this] obtain p2 where p2: "free_blocks (rev bs) p1 = Inr p2"
    "pool_inv p2 (filter (\<lambda>b. b \<notin> set bs) xs @ filter (\<lambda>b. b \<noteq> null_block p1 \<and> refs p1 b = 1) (rev bs))"
    "hashes p2 = hashes p1" "\<And>c. refs p2 c = refs p1 c - int (count_list (rev bs) c)"
    by blast
  have "filter (\<lambda>b. b \<noteq> null_block p1 \<and> refs p1 b = 1) (rev bs) = filter (\<lambda>b. b \<in> set xs) (rev bs)"
  proof (rule filter_cong [OF refl])
    fix b assume "b \<in> set (rev bs)"
    then show "(b \<noteq> null_block p1 \<and> refs p1 b = 1) = (b \<in> set xs)"
      using nn pool_inv_free_iff [OF assms(1), of b] assms(3) by (auto simp: k p1(4) cnt list_all_iff)
  qed
  then show ?thesis using p1(1,3,4) p2 cnt by auto
qed

text \<open>
  C22. \<^verbatim>\<open>reset_prefix_cache\<close> succeeds exactly when every block but the null block is free; then no
  block stores a hash any more, and the free list and all reference counts are unchanged.
  Otherwise it reports failure and changes nothing.
\<close>

theorem reset_prefix_cache_spec:
  assumes "pool_inv p xs"
  shows "(fst (pool_reset_prefix_cache p) \<longleftrightarrow> (\<forall>b. usable p b \<longrightarrow> refs p b = 0))
         \<and> (if fst (pool_reset_prefix_cache p)
            then pool_inv (snd (pool_reset_prefix_cache p)) xs
                 \<and> hashes (snd (pool_reset_prefix_cache p)) = (\<lambda>_. None)
                 \<and> (\<forall>b. refs (snd (pool_reset_prefix_cache p)) b = refs p b)
            else snd (pool_reset_prefix_cache p) = p)"
proof -
  have "distinct xs" and xs: "\<And>b. b \<in> set xs \<longleftrightarrow> usable p b \<and> refs p b = 0"
    using assms by (auto simp: pool_state_def)
  have all: "py_len xs = num_gpu_blocks p - 1 \<longleftrightarrow> (\<forall>b. usable p b \<longrightarrow> refs p b = 0)"
  proof -
    have u: "{b. usable p b} = Blk ` {1..<nat (num_gpu_blocks p)}" and n: "0 < num_gpu_blocks p"
      using assms by (auto simp: pool_state_def pool_wf_def usable_def)
    have card: "card {b. usable p b} = nat (num_gpu_blocks p) - 1" "finite {b. usable p b}"
      unfolding u by (simp_all add: card_image inj_on_def)
    have "set xs \<subseteq> {b. usable p b}" using xs by auto
    then have "card (set xs) = card {b. usable p b} \<longleftrightarrow> set xs = {b. usable p b}"
      using card_subset_eq [OF card(2)] by auto
    moreover have "card (set xs) = length xs" using \<open>distinct xs\<close> by (rule distinct_card)
    moreover have "set xs = {b. usable p b} \<longleftrightarrow> (\<forall>b. usable p b \<longrightarrow> refs p b = 0)" using xs by auto
    ultimately show ?thesis using n card(1) by (auto simp: py_len_def)
  qed
  show ?thesis
    using pool_reset_state [OF assms] pool_reset_fails [OF assms] all
    by (cases "py_len xs = num_gpu_blocks p - 1") auto
qed

theorem reset_prefix_cache_spec_witness:
  "fst (pool_reset_prefix_cache demo_pool)
   \<and> (\<exists>bs q. get_new_blocks 1 demo_pool = Inr (bs, q) \<and> \<not> fst (pool_reset_prefix_cache q))"
proof -
  obtain q where q: "get_new_blocks 1 demo_pool = Inr ([Blk 1], q)" "pool_inv q [Blk 2, Blk 3, Blk 4]"
    "refs q (Blk 1) = 1" "pool_const q = pool_const demo_pool"
    using get_new_blocks_state [OF demo_pool_inv(1), of 1] by (auto simp: py_len_def)
  have "usable q (Blk 1)" using pool_const_eqD(5) [OF q(4)] by (simp add: usable_def demo_pool_inv)
  then show ?thesis
    using reset_prefix_cache_spec [OF demo_pool_inv(1)] reset_prefix_cache_spec [OF q(2)] q
    by (auto simp: demo_pool_inv intro!: exI [of _ q])
qed

text \<open>
  Blocks are conserved: in a state satisfying the invariant, the null block, the free blocks
  and the blocks in use add up to all blocks, and the usage ratio is the share of usable blocks in
  use, between zero and one.
\<close>

lemma pool_blocks_conserved:
  assumes "pool_inv p xs"
  shows "num_gpu_blocks p = 1 + get_num_free_blocks p + int (card {b. usable p b \<and> 0 < refs p b})
         \<and> 0 \<le> get_usage p \<and> get_usage p \<le> 1
         \<and> get_usage p * of_int (num_gpu_blocks p - 1) = of_nat (card {b. usable p b \<and> 0 < refs p b})"
proof -
  have d: "distinct xs" and xs: "set xs = {b. usable p b \<and> refs p b = 0}" and q: "queue_rel p xs"
    and pos: "\<And>b. usable p b \<Longrightarrow> 0 \<le> refs p b"
    using assms by (auto simp: pool_state_def)
  have u: "{b. usable p b} = Blk ` {1..<nat (num_gpu_blocks p)}" and n: "0 < num_gpu_blocks p"
    using assms by (auto simp: pool_state_def pool_wf_def usable_def)
  let ?used = "{b. usable p b \<and> 0 < refs p b}"
  have fin: "finite {b. usable p b}" unfolding u by simp
  have split: "{b. usable p b} = set xs \<union> ?used" "set xs \<inter> ?used = {}"
    using pos by (auto simp: xs less_le)
  have "card {b. usable p b} = card (set xs) + card ?used"
    unfolding split(1) by (rule card_Un_disjoint) (use fin split(2) in auto)
  moreover have "card {b. usable p b} = nat (num_gpu_blocks p) - 1"
    unfolding u by (simp add: card_image inj_on_def)
  moreover have "get_num_free_blocks p = int (card (set xs))"
    using fq.rel_wf [OF q] distinct_card [OF d] by (simp add: get_num_free_blocks_def py_len_def)
  ultimately have sum: "num_gpu_blocks p = 1 + get_num_free_blocks p + int (card ?used)" "0 \<le> get_num_free_blocks p"
    using n by auto
  then have "get_usage p * of_int (num_gpu_blocks p - 1) = of_nat (card ?used)"
    by (cases "num_gpu_blocks p = 1") (auto simp: get_usage_def Let_def field_simps)
  moreover have "0 \<le> get_usage p" "get_usage p \<le> 1"
    using sum by (auto simp: get_usage_def Let_def field_simps)
  ultimately show ?thesis using sum(1) by blast
qed

end
