(* ===== verification/Manager_Invariant.thy ===== *)
theory Manager_Invariant
  imports Single_Type_Manager Block_Pool_Props
begin

text \<open>
  The invariant of a single-type manager and the block pool it shares with other clients.  Every
  block's reference count is the number of references \<open>oth\<close> held by the other clients plus those in
  the manager's own tables; the blocks of a request past its cached prefix are unregistered and
  referenced once.  Every operation keeps the invariant, and it leaves the unregistered blocks of
  the other clients alone (\<open>keeps\<close>).
\<close>

section \<open>Tables\<close>

definition held :: "manager \<Rightarrow> blk \<Rightarrow> int" where
  "held m b = sum_list (map (\<lambda>(_, bs). int (count_list bs b)) (req_to_blocks m))"

lemma blocks_of_upd [simp]:
  "blocks_of (set_blocks rid bs m) r = (if r = rid then bs else blocks_of m r)"
  "blocks_of (set_cached rid n m) r = blocks_of m r"
  "blocks_of (with_req rid m) r = blocks_of m r"
  "blocks_of (record_new_ids bs m) r = blocks_of m r"
  by (auto simp: blocks_of_def set_blocks_def set_cached_def with_req_def record_new_ids_def
      update_conv' split: kv_cache_spec.split)

lemma cached_of_upd [simp]:
  "cached_of (set_cached rid n m) r = (if r = rid then n else cached_of m r)"
  "cached_of (set_blocks rid bs m) r = cached_of m r"
  "cached_of (with_req rid m) r = cached_of m r"
  "cached_of (record_new_ids bs m) r = cached_of m r"
  by (auto simp: cached_of_def set_blocks_def set_cached_def with_req_def record_new_ids_def
      update_conv' split: kv_cache_spec.split)

lemma is_running_upd [simp]:
  "is_running (set_cached rid n m) r \<longleftrightarrow> r = rid \<or> is_running m r"
  "is_running (set_blocks rid bs m) r = is_running m r"
  "is_running (with_req rid m) r = is_running m r"
  "is_running (record_new_ids bs m) r = is_running m r"
  by (auto simp: is_running_def set_blocks_def set_cached_def with_req_def record_new_ids_def
      update_conv' split: kv_cache_spec.split)

text \<open>The fields no table update changes.\<close>

definition mgr_const ::
  "manager \<Rightarrow> (manager_class \<times> int \<times> kv_cache_spec \<times> bool \<times> int option \<times> int \<times> blk) \<times>
              (int \<times> int \<times> string \<times> int \<times> int \<times> int)" where
  "mgr_const m = ((mgr_class m, mgr_block_size m, mgr_spec m, mgr_enable_caching m, max_admission m,
      kv_cache_group_id m, mgr_null_block m),
     (sliding_window m, attention_chunk_size m, mamba_cache_mode m, num_speculative_blocks m,
      nelssa_head_size m, nelssa_tail_size m))"

lemma mgr_const_upd [simp]:
  "mgr_const (set_cached rid n m) = mgr_const m"
  "mgr_const (set_blocks rid bs m) = mgr_const m"
  "mgr_const (with_req rid m) = mgr_const m"
  "mgr_const (record_new_ids bs m) = mgr_const m"
  by (auto simp: mgr_const_def set_blocks_def set_cached_def with_req_def record_new_ids_def
      split: kv_cache_spec.split)

lemma mgr_field_upd [simp]:
  "mgr_block_size (with_req rid m) = mgr_block_size m" "mgr_null_block (with_req rid m) = mgr_null_block m"
  "mgr_enable_caching (with_req rid m) = mgr_enable_caching m"
  "kv_cache_group_id (with_req rid m) = kv_cache_group_id m" "mgr_class (with_req rid m) = mgr_class m"
  "get_num_skipped_tokens (with_req rid m) n = get_num_skipped_tokens m n"
  by (auto simp: with_req_def get_num_skipped_tokens_def split: manager_class.split)

lemma mgr_constD:
  assumes "mgr_const m' = mgr_const m"
  shows "mgr_class m' = mgr_class m" "mgr_block_size m' = mgr_block_size m" "mgr_spec m' = mgr_spec m"
    "mgr_enable_caching m' = mgr_enable_caching m" "max_admission m' = max_admission m"
    "kv_cache_group_id m' = kv_cache_group_id m" "mgr_null_block m' = mgr_null_block m"
    "num_speculative_blocks m' = num_speculative_blocks m" "nelssa_head_size m' = nelssa_head_size m"
    "nelssa_tail_size m' = nelssa_tail_size m" "get_num_skipped_tokens m' n = get_num_skipped_tokens m n"
  using assms by (simp_all add: mgr_const_def get_num_skipped_tokens_def split: manager_class.split)

definition req_ids :: "manager \<Rightarrow> string list" where
  "req_ids m = map fst (req_to_blocks m)"

lemma map_of_req_ids: "map_of (req_to_blocks m) rid = None \<longleftrightarrow> rid \<notin> set (req_ids m)"
  by (simp add: req_ids_def map_of_eq_None_iff)

lemma keys_update: "set (map fst (AList.update k v al)) = insert k (set (map fst al))"
  by (induction al) auto

lemma req_ids_upd [simp]:
  "set (req_ids (set_blocks rid bs m)) = insert rid (set (req_ids m))"
  "req_ids (set_cached rid n m) = req_ids m"
  "set (req_ids (with_req rid m)) = insert rid (set (req_ids m))"
  "req_ids (record_new_ids bs m) = req_ids m"
  "distinct (req_ids m) \<Longrightarrow> distinct (req_ids (set_blocks rid bs m))"
  "distinct (req_ids m) \<Longrightarrow> distinct (req_ids (with_req rid m))"
  using keys_update [of rid _ "req_to_blocks m"] map_of_eq_None_iff [of "req_to_blocks m" rid]
  by (auto simp: req_ids_def set_blocks_def set_cached_def with_req_def record_new_ids_def
      distinct_update split: kv_cache_spec.split)

lemma held_sum:
  assumes "distinct (req_ids m)"
  shows "held m b = (\<Sum>r \<in> set (req_ids m). int (count_list (blocks_of m r) b))"
proof -
  have "held m b = sum_list (map (\<lambda>r. int (count_list (blocks_of m r) b)) (req_ids m))"
    using assms unfolding held_def req_ids_def map_map
    by (intro arg_cong [of _ _ sum_list] map_cong refl) (auto simp: blocks_of_def map_of_eq_Some_iff)
  then show ?thesis using assms by (simp add: sum_list_distinct_conv_sum_set)
qed

lemma blocks_of_absent: "rid \<notin> set (req_ids m) \<Longrightarrow> blocks_of m rid = []"
  by (simp add: blocks_of_def flip: map_of_req_ids split: option.split)

lemma held_nonneg: "distinct (req_ids m) \<Longrightarrow> 0 \<le> held m b"
  by (simp add: held_sum sum_nonneg)

lemma held_ge_count:
  assumes "distinct (req_ids m)"
  shows "int (count_list (blocks_of m r) b) \<le> held m b"
proof (cases "r \<in> set (req_ids m)")
  case True
  then show ?thesis unfolding held_sum [OF assms]
    by (intro member_le_sum) simp_all
qed (simp add: blocks_of_absent held_nonneg [OF assms])

lemma held_ge_two:
  assumes "distinct (req_ids m)" "r \<noteq> s"
  shows "int (count_list (blocks_of m r) b) + int (count_list (blocks_of m s) b) \<le> held m b"
proof (cases "r \<in> set (req_ids m) \<and> s \<in> set (req_ids m)")
  case True
  have "(\<Sum>t \<in> {r, s}. int (count_list (blocks_of m t) b)) \<le> held m b"
    unfolding held_sum [OF assms(1)] using True by (intro sum_mono2) auto
  then show ?thesis using assms(2) by simp
qed (use blocks_of_absent held_ge_count [OF assms(1)] in force)

lemma held_over:
  assumes "distinct (req_ids m)" "finite A" "set (req_ids m) \<subseteq> A"
  shows "held m b = (\<Sum>r \<in> A. int (count_list (blocks_of m r) b))"
  unfolding held_sum [OF assms(1)]
  by (rule sum.mono_neutral_left [OF assms(2,3)]) (simp add: blocks_of_absent)

lemma held_change:
  assumes "distinct (req_ids m)" "distinct (req_ids m')"
    "\<And>r. blocks_of m' r = (if r = rid then bs else blocks_of m r)"
  shows "held m' b = held m b - int (count_list (blocks_of m rid) b) + int (count_list bs b)"
proof -
  let ?A = "set (req_ids m) \<union> set (req_ids m')"
  let ?f = "\<lambda>m r. int (count_list (blocks_of m r) b)"
  have "held m b = ?f m rid + sum (?f m) (?A - {rid})" "held m' b = ?f m' rid + sum (?f m') (?A - {rid})"
    using held_over [OF assms(1), of "insert rid ?A"] held_over [OF assms(2), of "insert rid ?A"]
    by (auto simp: sum.insert_remove)
  moreover have "sum (?f m) (?A - {rid}) = sum (?f m') (?A - {rid})"
    by (rule sum.cong) (auto simp: assms(3))
  ultimately show ?thesis using assms(3) [of rid] by simp
qed

section \<open>The invariant\<close>

definition req_ok :: "block_pool \<Rightarrow> blk list \<Rightarrow> int \<Rightarrow> bool" where
  "req_ok p bs nc \<longleftrightarrow> set bs \<subseteq> set (blocks p) \<and> distinct (filter (\<lambda>b. b \<noteq> null_block p) bs) \<and>
     0 \<le> nc \<and> nc \<le> py_len bs \<and>
     (\<forall>b \<in> set (drop (nat nc) bs). b \<noteq> null_block p \<longrightarrow> hashes p b = None \<and> refs p b = 1)"

definition mgr_wf :: "block_pool \<Rightarrow> manager \<Rightarrow> bool" where
  "mgr_wf p m \<longleftrightarrow> mgr_null_block m = null_block p \<and> 0 < mgr_block_size m \<and>
     mgr_enable_caching m = enable_caching p \<and> distinct (req_ids m) \<and>
     (\<forall>r. is_running m r \<longrightarrow> r \<in> set (req_ids m)) \<and> (\<forall>r. req_ok p (blocks_of m r) (cached_of m r))"

text \<open>Without prefix caching no block is ever registered.\<close>

definition caching_ok :: "block_pool \<Rightarrow> bool" where
  "caching_ok p \<longleftrightarrow> enable_caching p \<or> (\<forall>b. hashes p b = None)"

definition mgr_inv :: "(blk \<Rightarrow> int) \<Rightarrow> manager \<Rightarrow> block_pool \<Rightarrow> blk list \<Rightarrow> bool" where
  "mgr_inv oth m p xs \<longleftrightarrow> pool_inv p xs \<and> caching_ok p \<and> mgr_wf p m \<and> (\<forall>b. 0 \<le> oth b) \<and>
     (\<forall>b. usable p b \<longrightarrow> refs p b = oth b + held m b)"

definition keeps :: "manager \<Rightarrow> block_pool \<Rightarrow> block_pool \<Rightarrow> bool" where
  "keeps m p p' \<longleftrightarrow> pool_const p' = pool_const p \<and>
     (\<forall>b. usable p b \<and> 0 < refs p b \<and> hashes p b = None \<and> held m b = 0 \<longrightarrow>
        refs p' b = refs p b \<and> hashes p' b = None)"

lemma mgr_invD:
  assumes "mgr_inv oth m p xs"
  shows "pool_inv p xs" "caching_ok p" "mgr_wf p m" "0 \<le> oth b"
    "usable p b \<Longrightarrow> refs p b = oth b + held m b" "distinct (req_ids m)"
    "mgr_null_block m = null_block p" "0 < mgr_block_size m" "mgr_enable_caching m = enable_caching p"
    "req_ok p (blocks_of m r) (cached_of m r)" "is_running m r \<Longrightarrow> r \<in> set (req_ids m)"
  using assms by (simp_all add: mgr_inv_def mgr_wf_def)

lemma req_ok_count:
  assumes "req_ok p bs nc" "b \<noteq> null_block p"
  shows "count_list bs b = (if b \<in> set bs then 1 else 0)"
proof -
  have "count_list bs b = count_list (filter (\<lambda>b. b \<noteq> null_block p) bs) b"
    using assms(2) by (induction bs) auto
  then show ?thesis using assms by (auto simp: req_ok_def count_list_mem_distinct)
qed

lemma req_ok_Nil [simp]: "req_ok p [] 0"
  by (simp add: req_ok_def)

text \<open>A block of a request is usable and referenced, unless it is the null block.\<close>

lemma mgr_inv_block:
  assumes "mgr_inv oth m p xs" "b \<in> set (blocks_of m r)" "b \<noteq> null_block p"
  shows "usable p b" "1 \<le> refs p b"
proof -
  note ok = mgr_invD(10) [OF assms(1), of r]
  show u: "usable p b" using ok assms(2,3) by (auto simp: req_ok_def usable_def)
  have "count_list (blocks_of m r) b = 1" using req_ok_count [OF ok assms(3)] assms(2) by simp
  then show "1 \<le> refs p b"
    using mgr_invD(5) [OF assms(1) u] mgr_invD(4) [OF assms(1), of b]
      held_ge_count [OF mgr_invD(6) [OF assms(1)], of r b] by linarith
qed

lemma mgr_inv_free_not_held:
  assumes "mgr_inv oth m p xs" "b \<in> set xs"
  shows "b \<notin> set (blocks_of m r)"
proof
  assume "b \<in> set (blocks_of m r)"
  then have "1 \<le> refs p b"
    using mgr_inv_block(2) [OF assms(1)] assms(2) pool_inv_null(3) [OF mgr_invD(1) [OF assms(1)]] by blast
  then show False using pool_inv_free_iff [OF mgr_invD(1) [OF assms(1)], of b] assms(2) by simp
qed

text \<open>
  An operation that replaces the table of one request keeps the invariant, when the reference
  counts follow the tables and the blocks it takes were free or registered.
\<close>

lemma mgr_inv_update:
  assumes inv: "mgr_inv oth m p xs" and pool: "pool_inv p' xs'" "pool_const p' = pool_const p"
    and m': "mgr_const m' = mgr_const m" "distinct (req_ids m')"
      "\<And>r. is_running m' r \<Longrightarrow> r \<in> set (req_ids m')"
    and tabs: "\<And>r. blocks_of m' r = (if r = rid then bs else blocks_of m r)"
      "\<And>r. cached_of m' r = (if r = rid then nc else cached_of m r)"
    and refs: "\<And>b. usable p b \<Longrightarrow>
      refs p' b = refs p b - int (count_list (blocks_of m rid) b) + int (count_list bs b)"
    and hash: "\<And>b. usable p b \<Longrightarrow> hashes p b = None \<Longrightarrow> 0 < refs p b \<Longrightarrow> b \<notin> set (blocks_of m rid) \<Longrightarrow>
      hashes p' b = None"
    and taken: "\<And>b. b \<in> set bs \<Longrightarrow>
      b \<in> set (blocks_of m rid) \<or> b = null_block p \<or> refs p b = 0 \<or> hashes p b \<noteq> None"
    and ok: "req_ok p' bs nc" and caching: "caching_ok p'"
  shows "mgr_inv oth m' p' xs' \<and> keeps m p p'"
proof -
  note c = pool_const_eqD [OF pool(2)] and k = mgr_constD [OF m'(1)]
  note dist = mgr_invD(6) [OF inv]
  have own: "refs p' b = refs p b \<and> hashes p' b = None"
    if b: "usable p b" "hashes p b = None" "0 < refs p b" "b \<notin> set (blocks_of m rid)" for b
  proof -
    have "b \<notin> set bs" using taken [of b] b by (auto simp: usable_def)
    then show ?thesis using refs [OF b(1)] hash b by simp
  qed
  have other: "req_ok p' (blocks_of m r) (cached_of m r)" if r: "r \<noteq> rid" for r
  proof -
    note okr = mgr_invD(10) [OF inv, of r]
    have "hashes p' b = None \<and> refs p' b = 1"
      if b: "b \<in> set (drop (nat (cached_of m r)) (blocks_of m r))" "b \<noteq> null_block p" for b
    proof -
      have in_r: "b \<in> set (blocks_of m r)" using b(1) by (rule in_set_dropD)
      have un: "hashes p b = None" "refs p b = 1" using okr b by (auto simp: req_ok_def)
      note u = mgr_inv_block(1) [OF inv in_r b(2)]
      have "int (count_list (blocks_of m r) b) + int (count_list (blocks_of m rid) b) \<le> 1"
        using held_ge_two [OF dist r, of b] mgr_invD(4,5) [OF inv, of b] u un(2) by linarith
      moreover have "count_list (blocks_of m r) b = 1" using req_ok_count [OF okr b(2)] in_r by simp
      ultimately have "count_list (blocks_of m rid) b = 0" by simp
      then have "b \<notin> set (blocks_of m rid)" by (simp add: count_list_0_iff)
      then show ?thesis using own [OF u un(1)] un(2) by simp
    qed
    then show ?thesis using okr c unfolding req_ok_def by simp
  qed
  have wf: "mgr_wf p' m'"
    using mgr_invD(7-9) [OF inv] k c m'(2,3) ok other by (simp add: mgr_wf_def tabs)
  have "refs p' b = oth b + held m' b" if "usable p b" for b
    using refs [OF that] mgr_invD(5) [OF inv that] held_change [OF dist m'(2) tabs(1)] by simp
  then have "mgr_inv oth m' p' xs'"
    using pool(1) wf caching c mgr_invD(4) [OF inv] by (simp add: mgr_inv_def)
  moreover have "keeps m p p'"
    unfolding keeps_def
  proof (intro conjI allI impI pool(2))
    fix b assume b: "usable p b \<and> 0 < refs p b \<and> hashes p b = None \<and> held m b = 0"
    then have "b \<notin> set (blocks_of m rid)"
      using held_ge_count [OF dist, of rid b] by (simp add: count_list_0_iff)
    then show "refs p' b = refs p b" "hashes p' b = None" using own b by auto
  qed
  ultimately show ?thesis ..
qed

section \<open>Operations that keep the pool\<close>

lemma keeps_refl [simp]: "keeps m p p"
  by (simp add: keeps_def)

lemma mgr_inv_same_tables:
  assumes inv: "mgr_inv oth m p xs" and m': "mgr_const m' = mgr_const m" "distinct (req_ids m')"
      "\<And>r. is_running m' r \<Longrightarrow> r \<in> set (req_ids m')"
    and tabs: "\<And>r. blocks_of m' r = blocks_of m r" "\<And>r. cached_of m' r = cached_of m r"
  shows "mgr_inv oth m' p xs"
proof -
  have "mgr_inv oth m' p xs \<and> keeps m p p"
    by (rule mgr_inv_update [OF inv mgr_invD(1) [OF inv] refl m', where rid = "[]"])
      (use mgr_invD [OF inv] tabs in auto)
  then show ?thesis ..
qed

lemma mgr_inv_with_req:
  assumes "mgr_inv oth m p xs"
  shows "mgr_inv oth (with_req rid m) p xs"
  by (rule mgr_inv_same_tables [OF assms]) (use mgr_invD(6,11) [OF assms] in auto)

section \<open>Allocating\<close>

lemma fresh_hash:
  assumes "caching_ok p" "\<And>c. hashes p' c = (if enable_caching p \<and> c \<in> set new then None else hashes p c)"
  shows "b \<in> set new \<Longrightarrow> hashes p' b = None" "hashes p b = None \<Longrightarrow> hashes p' b = None"
    "pool_const p' = pool_const p \<Longrightarrow> caching_ok p'"
  using assms pool_const_eqD(2) [of p' p] by (auto simp: caching_ok_def)

lemma free_taken:
  assumes "pool_inv p xs"
  shows "distinct (take n xs)" "set (take n xs) \<subseteq> set (blocks p)" "null_block p \<notin> set (take n xs)"
    "b \<in> set (take n xs) \<Longrightarrow> refs p b = 0"
  using assms pool_inv_null(3) [OF assms] pool_state_usable [OF assms]
  by (auto simp: pool_state_def usable_def dest!: in_set_takeD)

lemma nonnull_distinct_iff:
  "distinct (filter (\<lambda>b. b \<noteq> nb) bs) \<longleftrightarrow> (\<forall>b. b \<noteq> nb \<longrightarrow> count_list bs b \<le> 1)"
proof (induction bs)
  case (Cons a bs)
  have "(\<forall>b. b \<noteq> nb \<longrightarrow> count_list (a # bs) b \<le> 1) \<longleftrightarrow>
      (a \<noteq> nb \<longrightarrow> a \<notin> set bs) \<and> (\<forall>b. b \<noteq> nb \<longrightarrow> count_list bs b \<le> 1)" (is "?l \<longleftrightarrow> ?r")
  proof
    assume l: ?l
    have "a \<notin> set bs" if "a \<noteq> nb"
    proof -
      have "count_list (a # bs) a \<le> 1" using l that by blast
      then show ?thesis by (simp add: count_list_0_iff)
    qed
    moreover have "count_list bs b \<le> 1" if "b \<noteq> nb" for b
    proof -
      have "count_list bs b \<le> count_list (a # bs) b" by simp
      also have "\<dots> \<le> 1" using l that by blast
      finally show ?thesis .
    qed
    ultimately show ?r by blast
  next
    assume r: ?r
    then show ?l by (auto simp: count_notin)
  qed
  then show ?case using Cons.IH by simp
qed simp

text \<open>
  \<open>moved nb nc bs bs'\<close>: the table \<open>bs'\<close> holds the blocks of \<open>bs\<close>, padded with null blocks and with
  blocks past position \<open>nc\<close> moved.
\<close>

definition moved :: "blk \<Rightarrow> nat \<Rightarrow> blk list \<Rightarrow> blk list \<Rightarrow> bool" where
  "moved nb nc bs bs' \<longleftrightarrow> (\<forall>b. b \<noteq> nb \<longrightarrow> count_list bs' b = count_list bs b) \<and> length bs \<le> length bs' \<and>
     set (drop nc bs') \<subseteq> insert nb (set (drop nc bs)) \<and> set bs' \<subseteq> insert nb (set bs)"

lemma moved_refl [simp]: "moved nb nc bs bs"
  by (auto simp: moved_def)

text \<open>Growing a table by blocks of the free queue.\<close>

lemma table_grow_inv:
  assumes inv: "mgr_inv oth m p xs" and mv: "moved (null_block p) (nat (cached_of m rid)) (blocks_of m rid) bs"
    and n: "0 \<le> n" "n \<le> py_len xs"
    and m': "mgr_const m' = mgr_const m" "distinct (req_ids m')" "\<And>r. is_running m' r \<Longrightarrow> r \<in> set (req_ids m')"
    and tabs: "\<And>r. blocks_of m' r = (if r = rid then bs @ take (nat n) xs else blocks_of m r)"
      "\<And>r. cached_of m' r = cached_of m r"
  shows "\<exists>p'. get_new_blocks n p = Inr (take (nat n) xs, p') \<and> mgr_inv oth m' p' (drop (nat n) xs) \<and> keeps m p p'"
proof -
  note pinv = mgr_invD(1) [OF inv] and ok = mgr_invD(10) [OF inv, of rid]
  define new where "new = take (nat n) xs"
  obtain p' where p': "get_new_blocks n p = Inr (new, p')" "pool_inv p' (drop (nat n) xs)"
    "\<And>c. hashes p' c = (if enable_caching p \<and> c \<in> set new then None else hashes p c)"
    "\<And>c. refs p' c = (if c \<in> set new then 1 else refs p c)" "pool_const p' = pool_const p"
    using get_new_blocks_state [OF pinv n] unfolding new_def by auto
  note fresh = fresh_hash [OF mgr_invD(2) [OF inv] p'(3)] and free = free_taken [OF pinv, where n = "nat n", folded new_def]
  note c = pool_const_eqD [OF p'(5)]
  have nb: "null_block p \<in> set (blocks p)"
    using pinv by (force simp: pool_state_def pool_wf_def)
  have disj: "set bs \<inter> set new = {}"
    using mv mgr_inv_free_not_held [OF inv] free(3)
    by (fastforce simp: new_def moved_def dest: in_set_takeD)
  have cnt: "count_list bs b = count_list (blocks_of m rid) b" if "b \<noteq> null_block p" for b
    using mv that by (simp add: moved_def)
  have dist: "distinct (filter (\<lambda>b. b \<noteq> null_block p) bs)"
    using ok cnt unfolding nonnull_distinct_iff req_ok_def by simp
  have late: "hashes p' b = None \<and> refs p' b = 1"
    if "b \<in> set (drop (nat (cached_of m rid)) bs)" "b \<noteq> null_block p" for b
  proof -
    have "b \<in> set (drop (nat (cached_of m rid)) (blocks_of m rid))" using mv that by (auto simp: moved_def)
    then show ?thesis using ok that(2) fresh(2) by (auto simp: req_ok_def p'(4))
  qed
  have "mgr_inv oth m' p' (drop (nat n) xs) \<and> keeps m p p'"
  proof (rule mgr_inv_update [OF inv p'(2,5) m', where rid = rid and bs = "bs @ new" and nc = "cached_of m rid"])
    show "refs p' b = refs p b - int (count_list (blocks_of m rid) b) + int (count_list (bs @ new) b)"
      if "usable p b" for b
      using that cnt [of b] free(4) [of b] free(1) by (simp add: p'(4) usable_def count_list_mem_distinct)
    have "cached_of m rid \<le> py_len bs" using ok mv by (simp add: req_ok_def moved_def py_len_def)
    then show "req_ok p' (bs @ new) (cached_of m rid)"
      using ok mv free disj fresh(1) dist late nb unfolding req_ok_def moved_def c
      by (auto simp: p'(4) py_len_def dest: in_set_dropD)
    show "caching_ok p'" using fresh(3) p'(5) by blast
    show "b \<in> set (blocks_of m rid) \<or> b = null_block p \<or> refs p b = 0 \<or> hashes p b \<noteq> None"
      if "b \<in> set (bs @ new)" for b using that free(4) mv by (auto simp: moved_def)
  qed (use tabs fresh(2) in \<open>auto simp: new_def\<close>)
  then show ?thesis using p'(1) unfolding new_def by blast
qed

lemma base_allocate_new_blocks_inv:
  assumes inv: "mgr_inv oth m p xs"
    and n: "n = cdiv tokens (mgr_block_size m) - py_len (blocks_of m rid)"
  shows "n \<le> 0 \<Longrightarrow> base_allocate_new_blocks rid tokens m p = Inr ([], with_req rid m, p)"
    "py_len xs < n \<Longrightarrow> 0 < n \<Longrightarrow> base_allocate_new_blocks rid tokens m p = Inl ValueError"
    "0 < n \<Longrightarrow> n \<le> py_len xs \<Longrightarrow> \<exists>m' p'. base_allocate_new_blocks rid tokens m p = Inr (take (nat n) xs, m', p')
       \<and> mgr_inv oth m' p' (drop (nat n) xs) \<and> keeps m p p' \<and> mgr_const m' = mgr_const m
       \<and> (\<forall>r. blocks_of m' r = (if r = rid then blocks_of m rid @ take (nat n) xs else blocks_of m r))
       \<and> (\<forall>r. cached_of m' r = cached_of m r) \<and> (\<forall>r. is_running m' r = is_running m r)"
proof -
  show "n \<le> 0 \<Longrightarrow> base_allocate_new_blocks rid tokens m p = Inr ([], with_req rid m, p)"
    using n by (simp add: base_allocate_new_blocks_def)
  show "py_len xs < n \<Longrightarrow> 0 < n \<Longrightarrow> base_allocate_new_blocks rid tokens m p = Inl ValueError"
    using n get_new_blocks_error [OF mgr_invD(1) [OF inv], of n]
    by (simp add: base_allocate_new_blocks_def)
  assume pos: "0 < n" "n \<le> py_len xs"
  define new where "new = take (nat n) xs"
  define m' where "m' = record_new_ids new (set_blocks rid (blocks_of m rid @ new) (with_req rid m))"
  have tabs: "blocks_of m' r = (if r = rid then blocks_of m rid @ take (nat n) xs else blocks_of m r)"
    "cached_of m' r = cached_of m r" for r
    by (simp_all add: m'_def new_def)
  have "mgr_const m' = mgr_const m" "distinct (req_ids m')" "is_running m' r \<Longrightarrow> r \<in> set (req_ids m')" for r
    using mgr_invD(6,11) [OF inv] by (auto simp: m'_def)
  then obtain p' where p': "get_new_blocks n p = Inr (new, p')" "mgr_inv oth m' p' (drop (nat n) xs)" "keeps m p p'"
    using table_grow_inv [OF inv moved_refl _ pos(2) _ _ _ tabs] pos(1) unfolding new_def by auto
  have "base_allocate_new_blocks rid tokens m p = Inr (new, m', p')"
    using n pos(1) p'(1) by (simp add: base_allocate_new_blocks_def m'_def)
  then show "\<exists>m' p'. base_allocate_new_blocks rid tokens m p = Inr (take (nat n) xs, m', p')
       \<and> mgr_inv oth m' p' (drop (nat n) xs) \<and> keeps m p p' \<and> mgr_const m' = mgr_const m
       \<and> (\<forall>r. blocks_of m' r = (if r = rid then blocks_of m rid @ take (nat n) xs else blocks_of m r))
       \<and> (\<forall>r. cached_of m' r = cached_of m r) \<and> (\<forall>r. is_running m' r = is_running m r)"
    using p'(2,3) unfolding new_def [symmetric] by (intro exI [of _ m'] exI [of _ p']) (simp add: m'_def)
qed

section \<open>Releasing\<close>

lemma mgr_inv_releasable:
  assumes "mgr_inv oth m p xs" "set bs \<subseteq> set (blocks_of m rid)"
    "distinct (filter (\<lambda>b. b \<noteq> null_block p) bs)"
  shows "releasable p bs"
  using assms(2,3) mgr_invD(10) [OF assms(1), of rid] mgr_inv_block(2) [OF assms(1)]
  by (auto simp: releasable_def req_ok_def list_all_iff)

lemma base_free_inv:
  assumes inv: "mgr_inv oth m p xs"
  shows "\<exists>m' p' xs'. base_free rid m p = Inr (m', p') \<and> mgr_inv oth m' p' xs' \<and> keeps m p p'
     \<and> xs' = xs @ filter (\<lambda>b. b \<noteq> null_block p \<and> refs p b = 1) (rev (blocks_of m rid))
     \<and> hashes p' = hashes p \<and> mgr_const m' = mgr_const m
     \<and> (\<forall>r. blocks_of m' r = (if r = rid then [] else blocks_of m r))
     \<and> (\<forall>r. is_running m' r \<longleftrightarrow> r \<noteq> rid \<and> is_running m r)
     \<and> set (req_ids m') = set (req_ids m) - {rid}"
proof -
  let ?bs = "rev (blocks_of m rid)"
  let ?xs = "xs @ filter (\<lambda>b. b \<noteq> null_block p \<and> refs p b = 1) ?bs"
  note ok = mgr_invD(10) [OF inv, of rid]
  have "distinct (filter (\<lambda>b. b \<noteq> null_block p) ?bs)"
    using ok by (simp add: req_ok_def rev_filter [symmetric])
  then obtain p' where p': "free_blocks ?bs p = Inr p'" "pool_inv p' ?xs" "hashes p' = hashes p"
    "\<And>c. refs p' c = refs p c - int (count_list ?bs c)" "pool_const p' = pool_const p"
    using free_blocks_state [OF mgr_invD(1) [OF inv] mgr_inv_releasable [OF inv, of ?bs rid]] by auto
  define m' where "m' = m\<lparr>req_to_blocks := AList.delete rid (req_to_blocks m),
      num_cached_block := AList.delete rid (num_cached_block m)\<rparr>"
  have tabs: "blocks_of m' r = (if r = rid then [] else blocks_of m r)"
    "cached_of m' r = (if r = rid then 0 else cached_of m r)"
    "is_running m' r \<longleftrightarrow> r \<noteq> rid \<and> is_running m r" for r
    by (auto simp: m'_def blocks_of_def cached_of_def is_running_def delete_conv')
  have ids: "set (req_ids m') = set (req_ids m) - {rid}" "distinct (req_ids m')" "mgr_const m' = mgr_const m"
    using mgr_invD(6) [OF inv]
    by (auto simp: m'_def req_ids_def mgr_const_def delete_keys distinct_removeAll)
  have "mgr_inv oth m' p' ?xs \<and> keeps m p p'"
    by (rule mgr_inv_update [OF inv p'(2,5) ids(3,2) _ tabs(1,2)])
      (use mgr_invD(2,11) [OF inv] tabs ids p' pool_const_eqD(2) [OF p'(5)] in
        \<open>auto simp: caching_ok_def count_list_rev\<close>)
  moreover have "base_free rid m p = Inr (m', p')" using p'(1) by (simp add: base_free_def m'_def)
  ultimately show ?thesis using tabs ids p'(3) by (intro exI [of _ m'] exI [of _ p'] exI [of _ ?xs]) simp
qed

text \<open>
  \<open>nulled nb bs bs' fs\<close>: the table \<open>bs'\<close> is \<open>bs\<close> with the entries of \<open>fs\<close> replaced by the null
  block.
\<close>

definition nulled :: "blk \<Rightarrow> blk list \<Rightarrow> blk list \<Rightarrow> blk list \<Rightarrow> bool" where
  "nulled nb bs bs' fs \<longleftrightarrow> length bs' = length bs \<and> (\<forall>i < length bs. bs' ! i = bs ! i \<or> bs' ! i = nb) \<and>
     nb \<notin> set fs \<and> (\<forall>b. b \<noteq> nb \<longrightarrow> count_list bs b = count_list bs' b + count_list fs b)"

lemma nulled_refl [simp]: "nulled nb bs bs []"
  by (simp add: nulled_def)

lemma nulled_trans: "nulled nb bs cs fs \<Longrightarrow> nulled nb cs ds gs \<Longrightarrow> nulled nb bs ds (fs @ gs)"
  by (fastforce simp: nulled_def)

lemma count_list_update:
  "i < length bs \<Longrightarrow> b \<noteq> nb \<Longrightarrow> count_list bs b = count_list (bs[i := nb]) b + (if bs ! i = b then 1 else 0)"
proof (induction bs arbitrary: i)
  case (Cons a bs)
  then show ?case by (cases i) auto
qed simp

lemma nulled_one: "i < length bs \<Longrightarrow> bs ! i \<noteq> nb \<Longrightarrow> nulled nb bs (bs[i := nb]) [bs ! i]"
  using count_list_update [of i bs] by (auto simp: nulled_def nth_list_update)

lemma nulled_set:
  assumes "nulled nb bs bs' fs"
  shows "set bs' \<subseteq> insert nb (set bs)" "set fs \<subseteq> set bs"
    "set (drop n bs') \<subseteq> insert nb (set (drop n bs))"
proof -
  show "set bs' \<subseteq> insert nb (set bs)"
    using assms unfolding nulled_def by (metis in_set_conv_nth insertCI subsetI)
  show "set fs \<subseteq> set bs"
  proof
    fix b assume b: "b \<in> set fs"
    then have "b \<noteq> nb" "0 < count_list fs b" using assms by (auto simp: nulled_def count_list_0_iff intro!: gr0I)
    then have "0 < count_list bs b" using assms by (simp add: nulled_def)
    then show "b \<in> set bs" by (metis count_list_0_iff less_irrefl)
  qed
  have "b \<in> insert nb (set (drop n bs))" if b: "b \<in> set (drop n bs')" for b
  proof -
    obtain i where i: "i < length (drop n bs')" "drop n bs' ! i = b" using b unfolding in_set_conv_nth by blast
    moreover have "n + i < length bs" "length bs' = length bs" using i(1) assms by (auto simp: nulled_def)
    ultimately have "b = nb \<or> b = drop n bs ! i" "i < length (drop n bs)"
      using assms unfolding nulled_def by auto
    then show ?thesis using nth_mem by blast
  qed
  then show "set (drop n bs') \<subseteq> insert nb (set (drop n bs))" by blast
qed

lemma nulled_nonnull_distinct:
  assumes "nulled nb bs bs' fs" "distinct (filter (\<lambda>b. b \<noteq> nb) bs)"
  shows "distinct (filter (\<lambda>b. b \<noteq> nb) bs')" "distinct (filter (\<lambda>b. b \<noteq> nb) fs)"
  using assms unfolding nulled_def nonnull_distinct_iff by (metis add_leE)+

lemma release_inv:
  assumes inv: "mgr_inv oth m p xs" and n: "nulled (null_block p) (blocks_of m rid) bs fs"
    and m': "mgr_const m' = mgr_const m" "distinct (req_ids m')" "\<And>r. is_running m' r \<Longrightarrow> r \<in> set (req_ids m')"
    and tabs: "\<And>r. blocks_of m' r = (if r = rid then bs else blocks_of m r)" "\<And>r. cached_of m' r = cached_of m r"
  shows "\<exists>p'. free_blocks fs p = Inr p'
     \<and> mgr_inv oth m' p' (xs @ filter (\<lambda>b. b \<noteq> null_block p \<and> refs p b = 1) fs)
     \<and> keeps m p p' \<and> hashes p' = hashes p"
proof -
  note ok = mgr_invD(10) [OF inv, of rid] and sub = nulled_set [OF n]
  have dist: "distinct (filter (\<lambda>b. b \<noteq> null_block p) bs)" "distinct (filter (\<lambda>b. b \<noteq> null_block p) fs)"
    using nulled_nonnull_distinct [OF n] ok by (auto simp: req_ok_def)
  obtain p' where p': "free_blocks fs p = Inr p'"
    "pool_inv p' (xs @ filter (\<lambda>b. b \<noteq> null_block p \<and> refs p b = 1) fs)" "hashes p' = hashes p"
    "\<And>c. refs p' c = refs p c - int (count_list fs c)" "pool_const p' = pool_const p"
    using free_blocks_state [OF mgr_invD(1) [OF inv] mgr_inv_releasable [OF inv sub(2) dist(2)]] by auto
  note c = pool_const_eqD [OF p'(5)]
  have cnt: "int (count_list (blocks_of m rid) b) = int (count_list bs b) + int (count_list fs b)"
    if "b \<noteq> null_block p" for b using n that by (simp add: nulled_def)
  have nb: "null_block p \<in> set (blocks p)"
    using mgr_invD(1) [OF inv] by (force simp: pool_state_def pool_wf_def)
  have keep: "hashes p' b = None \<and> refs p' b = 1"
    if b: "b \<in> set (drop (nat (cached_of m rid)) bs)" "b \<noteq> null_block p" for b
  proof -
    have old: "b \<in> set (drop (nat (cached_of m rid)) (blocks_of m rid))" using sub(3) b by blast
    then have "count_list (blocks_of m rid) b = 1"
      using req_ok_count [OF ok b(2)] by (auto dest: in_set_dropD)
    moreover have "count_list bs b \<noteq> 0"
      using in_set_dropD [OF b(1)] by (simp add: count_list_0_iff)
    ultimately have "count_list fs b = 0" using cnt [OF b(2)] by linarith
    then show ?thesis using ok old b(2) p'(3,4) by (auto simp: req_ok_def)
  qed
  have "mgr_inv oth m' p' (xs @ filter (\<lambda>b. b \<noteq> null_block p \<and> refs p b = 1) fs) \<and> keeps m p p'"
  proof (rule mgr_inv_update [OF inv p'(2,5) m', where rid = rid and bs = bs and nc = "cached_of m rid"])
    show "refs p' b = refs p b - int (count_list (blocks_of m rid) b) + int (count_list bs b)" if "usable p b" for b
      using cnt [of b] that by (simp add: p'(4) usable_def)
    show "req_ok p' bs (cached_of m rid)"
      using ok dist(1) sub(1) nb keep n unfolding req_ok_def c by (auto simp: nulled_def py_len_def)
    show "caching_ok p'" using mgr_invD(2) [OF inv] p'(3) c by (simp add: caching_ok_def)
  qed (use tabs sub(1) p'(3) in auto)
  then show ?thesis using p'(1,3) by blast
qed

section \<open>Leaving the attention window\<close>

lemma remove_loop_nulled:
  "n \<le> length bs \<Longrightarrow> remove_loop nb n bs = (fs, bs') \<Longrightarrow> nulled nb bs bs' fs"
proof (induction n arbitrary: bs fs bs')
  case (Suc n)
  show ?case
  proof (cases "bs ! n = nb")
    case False
    then obtain gs where gs: "remove_loop nb n (bs[n := nb]) = (gs, bs')" "fs = bs ! n # gs"
      using Suc.prems(2) by (auto split: prod.splits)
    have "nulled nb (bs[n := nb]) bs' gs" using Suc.IH [OF _ gs(1)] Suc.prems(1) by simp
    then show ?thesis
      using nulled_trans [OF nulled_one [of n bs nb]] False Suc.prems(1) gs(2) by fastforce
  qed (use Suc.prems in auto)
qed simp

text \<open>When the null blocks form a prefix of the table, the loop nulls every skipped block.\<close>

definition null_prefix :: "blk \<Rightarrow> blk list \<Rightarrow> bool" where
  "null_prefix nb bs \<longleftrightarrow> (\<forall>i j. j \<le> i \<longrightarrow> i < length bs \<longrightarrow> bs ! i = nb \<longrightarrow> bs ! j = nb)"

lemma remove_loop_prefix:
  "n \<le> length bs \<Longrightarrow> null_prefix nb (take n bs) \<Longrightarrow>
   remove_loop nb n bs = (rev (filter (\<lambda>b. b \<noteq> nb) (take n bs)), replicate n nb @ drop n bs)"
proof (induction n arbitrary: bs)
  case (Suc n)
  have split: "take (Suc n) bs = take n bs @ [bs ! n]" "drop n bs = bs ! n # drop (Suc n) bs"
    using Suc.prems(1) by (simp_all add: take_Suc_conv_app_nth Cons_nth_drop_Suc)
  show ?case
  proof (cases "bs ! n = nb")
    case True
    have "bs ! j = nb" if "j < Suc n" for j
      using Suc.prems that True unfolding null_prefix_def
      by (metis Suc_leI length_take less_Suc_eq_le min_absorb2 nth_take order_refl lessI)
    then have "take (Suc n) bs = replicate (Suc n) nb"
      using Suc.prems(1) by (intro nth_equalityI) (simp_all add: nth_Cons split: nat.splits)
    then show ?thesis using True append_take_drop_id [of "Suc n" bs] by simp
  next
    case False
    have "null_prefix nb (take n bs)"
      using Suc.prems unfolding null_prefix_def by (simp add: min_def split: if_splits)
    then have "remove_loop nb n (bs[n := nb]) =
        (rev (filter (\<lambda>b. b \<noteq> nb) (take n bs)), replicate n nb @ drop n (bs[n := nb]))"
      using Suc.IH [of "bs[n := nb]"] Suc.prems(1) by simp
    moreover have "drop n (bs[n := nb]) = nb # drop (Suc n) bs"
      using Suc.prems(1) by (simp add: drop_update_swap split(2))
    ultimately show ?thesis
      using False by (simp add: split(1) replicate_append_same [symmetric] del: replicate_append_same)
  qed
qed simp

lemma base_remove_skipped_blocks_eq:
  assumes inv: "mgr_inv oth m p xs" and pos: "0 < get_num_skipped_tokens m computed"
    and loop: "remove_loop (null_block p)
      (nat (min (get_num_skipped_tokens m computed div mgr_block_size m) (py_len (blocks_of m rid)))) (blocks_of m rid)
      = (fs, bs)"
  shows "\<exists>p'. base_remove_skipped_blocks rid computed m p = Inr (set_blocks rid bs (with_req rid m), p')
     \<and> mgr_inv oth (set_blocks rid bs (with_req rid m)) p' (xs @ filter (\<lambda>b. b \<noteq> null_block p \<and> refs p b = 1) fs)
     \<and> keeps m p p' \<and> hashes p' = hashes p \<and> nulled (null_block p) (blocks_of m rid) bs fs"
proof -
  have n: "nulled (null_block p) (blocks_of m rid) bs fs"
    by (rule remove_loop_nulled [OF _ loop]) (simp add: py_len_def nat_le_iff)
  define m' where "m' = set_blocks rid bs (with_req rid m)"
  have tabs: "blocks_of m' r = (if r = rid then bs else blocks_of m r)" "cached_of m' r = cached_of m r" for r
    by (simp_all add: m'_def)
  have const: "mgr_const m' = mgr_const m" and dist: "distinct (req_ids m')"
    and run: "is_running m' r \<Longrightarrow> r \<in> set (req_ids m')" for r
    using mgr_invD(6,11) [OF inv] by (auto simp: m'_def)
  obtain p' where p': "free_blocks fs p = Inr p'" "keeps m p p'" "hashes p' = hashes p"
    "mgr_inv oth m' p' (xs @ filter (\<lambda>b. b \<noteq> null_block p \<and> refs p b = 1) fs)"
    using release_inv [OF inv n const dist run tabs] by blast
  have "base_remove_skipped_blocks rid computed m p = Inr (m', p')"
    using pos loop p'(1) mgr_invD(7) [OF inv] by (simp add: base_remove_skipped_blocks_def m'_def)
  then show ?thesis using p' n unfolding m'_def by blast
qed

lemma base_remove_skipped_blocks_inv:
  assumes inv: "mgr_inv oth m p xs"
  shows "\<exists>m' p' xs'. base_remove_skipped_blocks rid computed m p = Inr (m', p') \<and> mgr_inv oth m' p' xs'
     \<and> keeps m p p' \<and> hashes p' = hashes p \<and> mgr_const m' = mgr_const m
     \<and> (\<exists>fs. nulled (null_block p) (blocks_of m rid) (blocks_of m' rid) fs)
     \<and> (\<forall>r. r \<noteq> rid \<longrightarrow> blocks_of m' r = blocks_of m r) \<and> (\<forall>r. cached_of m' r = cached_of m r)
     \<and> (\<forall>r. is_running m' r = is_running m r) \<and> set (req_ids m') \<subseteq> insert rid (set (req_ids m))"
proof (cases "get_num_skipped_tokens m computed \<le> 0")
  case True
  then have "base_remove_skipped_blocks rid computed m p = Inr (m, p)"
    by (simp add: base_remove_skipped_blocks_def)
  then show ?thesis using inv by (intro exI [of _ m] exI [of _ p] exI [of _ xs]) (auto intro!: exI [of _ "[]"])
next
  case False
  obtain fs bs where loop: "remove_loop (null_block p)
      (nat (min (get_num_skipped_tokens m computed div mgr_block_size m) (py_len (blocks_of m rid)))) (blocks_of m rid)
      = (fs, bs)" by (metis surj_pair)
  define m' where "m' = set_blocks rid bs (with_req rid m)"
  obtain p' where p': "base_remove_skipped_blocks rid computed m p = Inr (m', p')"
    "mgr_inv oth m' p' (xs @ filter (\<lambda>b. b \<noteq> null_block p \<and> refs p b = 1) fs)"
    "keeps m p p'" "hashes p' = hashes p" "nulled (null_block p) (blocks_of m rid) bs fs"
    using base_remove_skipped_blocks_eq [OF inv _ loop] False unfolding m'_def by auto
  then show ?thesis
    by (intro exI [of _ m'] exI [of _ p'] exI conjI [rotated] allI impI) (auto simp: m'_def)
qed

end
