(* ===== verification/Manager_Ops.thy ===== *)
theory Manager_Ops
  imports Manager_Invariant
begin

text \<open>
  The remaining manager operations on states that satisfy the invariant: taking prefix-cache hits,
  registering full blocks, and the variants of the Mamba and NELSSA managers.
\<close>

section \<open>Taking prefix-cache hits\<close>

lemma py_from_Nil [simp]: "py_from [] k = []"
  by (simp add: py_from_def)

text \<open>Prefix-cache hits are registered blocks of the pool, padded with null blocks.\<close>

definition hits_ok :: "block_pool \<Rightarrow> blk list \<Rightarrow> bool" where
  "hits_ok p bs \<longleftrightarrow> set bs \<subseteq> set (blocks p) \<and> distinct (filter (\<lambda>b. b \<noteq> null_block p) bs) \<and>
     list_all (\<lambda>b. b \<noteq> null_block p \<longrightarrow> hashes p b \<noteq> None) bs"

definition computed_skipped :: "manager \<Rightarrow> int \<Rightarrow> int" where
  "computed_skipped m n = get_num_skipped_tokens m n div mgr_block_size m"

definition used_hits :: "manager \<Rightarrow> blk list \<Rightarrow> int \<Rightarrow> blk list" where
  "used_hits m hits n = (if 0 < computed_skipped m n then py_from hits (computed_skipped m n) else hits)"

definition computed_table :: "manager \<Rightarrow> blk list \<Rightarrow> int \<Rightarrow> blk list" where
  "computed_table m hits n = py_repeat (mgr_null_block m) (computed_skipped m n) @ used_hits m hits n"

definition external_blocks :: "manager \<Rightarrow> blk list \<Rightarrow> int \<Rightarrow> int \<Rightarrow> int" where
  "external_blocks m hits num_local num_external =
     (let n = num_local + num_external;
          ext = (if 0 < computed_skipped m n then min (n - get_num_skipped_tokens m n) num_external else num_external)
      in if 0 < ext then cdiv n (mgr_block_size m) - py_len (computed_table m hits n) else 0)"

lemma hits_ok_drop:
  assumes "hits_ok p hits"
  shows "hits_ok p (used_hits m hits n)"
proof -
  have "hits_ok p (drop k hits)" for k
  proof -
    have "distinct (filter (\<lambda>b. b \<noteq> null_block p) (take k hits @ drop k hits))"
      using assms by (simp add: hits_ok_def)
    then show ?thesis using assms unfolding hits_ok_def
      by (auto simp: list_all_iff simp del: append_take_drop_id dest: in_set_dropD)
  qed
  then show ?thesis using assms by (simp add: used_hits_def py_from_def)
qed

lemma computed_table_len: "0 \<le> py_len (computed_table m hits n)"
  by simp

text \<open>
  The call in terms of these quantities: touch the used hits, then take blocks for the external
  tokens.
\<close>

lemma base_allocate_new_computed_blocks_eq:
  assumes "\<not> is_running m rid" "blocks_of m rid = []" "mgr_enable_caching m \<or> hits = []"
  shows "base_allocate_new_computed_blocks rid hits nl ne m p =
    rbind (touch (used_hits m hits (nl + ne)) p) (\<lambda>p1.
      let req = computed_table m hits (nl + ne);
          m2 = set_cached rid (py_len req) (set_blocks rid req (with_req rid m))
      in if 0 < (if 0 < computed_skipped m (nl + ne)
                 then min (nl + ne - get_num_skipped_tokens m (nl + ne)) ne else ne)
         then rbind (get_new_blocks (cdiv (nl + ne) (mgr_block_size m) - py_len req) p1)
                (\<lambda>(new, p2). Inr (record_new_ids new (set_blocks rid (req @ new) m2), p2))
         else Inr (m2, p1))"
  using assms
  by (auto simp: base_allocate_new_computed_blocks_def Let_def used_hits_def computed_skipped_def
      computed_table_def touch_def cong: if_cong)

lemma touch_hits_table:
  assumes inv: "mgr_inv oth m p xs" and hits: "hits_ok p hits"
    and touch: "touch (used_hits m hits n) p = Inr p1" "hashes p1 = hashes p"
      "\<And>c. refs p1 c = refs p c + int (count_list (used_hits m hits n) c)"
  shows "set (computed_table m hits n) \<subseteq> set (blocks p)"
    "distinct (filter (\<lambda>b. b \<noteq> null_block p) (computed_table m hits n))"
    "b \<noteq> null_block p \<Longrightarrow> count_list (computed_table m hits n) b = count_list (used_hits m hits n) b"
    "b \<in> set (computed_table m hits n) \<Longrightarrow> b = null_block p \<or> hashes p b \<noteq> None"
proof -
  note ok = hits_ok_drop [OF hits, of m n] and nb = mgr_invD(7) [OF inv]
  have "null_block p \<in> set (blocks p)"
    using mgr_invD(1) [OF inv] by (force simp: pool_state_def pool_wf_def)
  then show "set (computed_table m hits n) \<subseteq> set (blocks p)"
    using ok nb by (auto simp: computed_table_def hits_ok_def)
  show "distinct (filter (\<lambda>b. b \<noteq> null_block p) (computed_table m hits n))"
    using ok nb by (simp add: computed_table_def hits_ok_def py_repeat_def)
  show "b \<noteq> null_block p \<Longrightarrow> count_list (computed_table m hits n) b = count_list (used_hits m hits n) b"
    using nb by (simp add: computed_table_def py_repeat_def count_notin)
  show "b \<in> set (computed_table m hits n) \<Longrightarrow> b = null_block p \<or> hashes p b \<noteq> None"
    using ok nb by (auto simp: computed_table_def hits_ok_def list_all_iff split: if_splits)
qed

lemma allocate_computed_inv:
  assumes inv: "mgr_inv oth m p xs" and new: "\<not> is_running m rid" "blocks_of m rid = []"
    and hits: "hits_ok p hits" "enable_caching p \<or> hits = []"
    and n: "n = external_blocks m hits nl ne" "0 \<le> n"
    and free: "free = filter (\<lambda>b. b \<notin> set (used_hits m hits (nl + ne))) xs"
  shows "py_len free < n \<Longrightarrow> base_allocate_new_computed_blocks rid hits nl ne m p = Inl ValueError"
    "n \<le> py_len free \<Longrightarrow> \<exists>m' p'. base_allocate_new_computed_blocks rid hits nl ne m p = Inr (m', p')
       \<and> mgr_inv oth m' p' (drop (nat n) free) \<and> keeps m p p' \<and> mgr_const m' = mgr_const m
       \<and> (\<forall>r. blocks_of m' r = (if r = rid then computed_table m hits (nl + ne) @ take (nat n) free
                                 else blocks_of m r))
       \<and> (\<forall>r. cached_of m' r = (if r = rid then py_len (computed_table m hits (nl + ne)) else cached_of m r))
       \<and> (\<forall>r. is_running m' r \<longleftrightarrow> r = rid \<or> is_running m r)"
proof -
  let ?h = "used_hits m hits (nl + ne)" and ?req = "computed_table m hits (nl + ne)"
  define ext where "ext = (if 0 < computed_skipped m (nl + ne)
      then min (nl + ne - get_num_skipped_tokens m (nl + ne)) ne else ne)"
  have n_eq: "n = (if 0 < ext then cdiv (nl + ne) (mgr_block_size m) - py_len ?req else 0)"
    by (simp add: n(1) external_blocks_def ext_def Let_def)
  have "set ?h \<subseteq> set (blocks p)" using hits_ok_drop [OF hits(1)] by (simp add: hits_ok_def)
  then obtain p1 where p1: "touch ?h p = Inr p1" "pool_inv p1 free" "hashes p1 = hashes p"
    "\<And>c. refs p1 c = refs p c + int (count_list ?h c)" "pool_const p1 = pool_const p"
    using touch_state [OF mgr_invD(1) [OF inv]] unfolding free by blast
  note tab = touch_hits_table [OF inv hits(1) p1(1,3,4)]
  note c1 = pool_const_eqD [OF p1(5)]
  have eq: "base_allocate_new_computed_blocks rid hits nl ne m p =
      (let m2 = set_cached rid (py_len ?req) (set_blocks rid ?req (with_req rid m))
       in if 0 < ext
          then rbind (get_new_blocks (cdiv (nl + ne) (mgr_block_size m) - py_len ?req) p1)
                 (\<lambda>(new, p2). Inr (record_new_ids new (set_blocks rid (?req @ new) m2), p2))
          else Inr (m2, p1))"
    using base_allocate_new_computed_blocks_eq [OF new] hits(2) mgr_invD(9) [OF inv] p1(1)
    by (simp add: Let_def ext_def)
  show "py_len free < n \<Longrightarrow> base_allocate_new_computed_blocks rid hits nl ne m p = Inl ValueError"
  proof -
    assume lt: "py_len free < n"
    then have "0 < n" using py_len_simps(6) [of free] by linarith
    then have "0 < ext" "n = cdiv (nl + ne) (mgr_block_size m) - py_len ?req"
      using n_eq by presburger+
    then show ?thesis using eq get_new_blocks_error [OF p1(2) lt] by (simp add: Let_def)
  qed
  assume le: "n \<le> py_len free"
  define new where "new = take (nat n) free"
  obtain p2 where p2: "get_new_blocks n p1 = Inr (new, p2)" "pool_inv p2 (drop (nat n) free)"
    "\<And>c. hashes p2 c = (if enable_caching p1 \<and> c \<in> set new then None else hashes p1 c)"
    "\<And>c. refs p2 c = (if c \<in> set new then 1 else refs p1 c)" "pool_const p2 = pool_const p1"
    using get_new_blocks_state [OF p1(2) n(2) le] unfolding new_def by auto
  define p' where "p' = (if 0 < ext then p2 else p1)"
  define m' where "m' = (if 0 < ext
      then record_new_ids new (set_blocks rid (?req @ new) (set_cached rid (py_len ?req) (set_blocks rid ?req (with_req rid m))))
      else set_cached rid (py_len ?req) (set_blocks rid ?req (with_req rid m)))"
  have res: "base_allocate_new_computed_blocks rid hits nl ne m p = Inr (m', p')"
    using eq p2(1) n_eq by (cases "0 < ext") (simp_all add: m'_def p'_def Let_def)
  have new0: "\<not> 0 < ext \<Longrightarrow> new = [] \<and> n = 0" using n_eq by (simp add: new_def)
  have caching1: "caching_ok p1" using mgr_invD(2) [OF inv] p1(3) c1 by (simp add: caching_ok_def)
  note fresh = fresh_hash [OF caching1 p2(3)] and taken = free_taken [OF p1(2), where n = "nat n", folded new_def]
  have p': "pool_inv p' (drop (nat n) free)" "pool_const p' = pool_const p" "caching_ok p'"
    "\<And>c. refs p' c = (if c \<in> set new then 1 else refs p1 c)"
    "\<And>b. b \<in> set new \<Longrightarrow> hashes p' b = None" "\<And>b. hashes p b = None \<Longrightarrow> hashes p' b = None"
    using p1(2,5) p2(2,4,5) new0 fresh caching1 p1(3) by (auto simp: p'_def)
  note c = pool_const_eqD [OF p'(2)]
  have tabs: "blocks_of m' r = (if r = rid then ?req @ new else blocks_of m r)"
    "cached_of m' r = (if r = rid then py_len ?req else cached_of m r)"
    "is_running m' r \<longleftrightarrow> r = rid \<or> is_running m r" "mgr_const m' = mgr_const m"
    "distinct (req_ids m')" "set (req_ids m') = insert rid (set (req_ids m))" for r
    using new0 mgr_invD(6) [OF inv] by (auto simp: m'_def)
  have disj: "b \<notin> set ?req \<and> refs p b = 0" if "b \<in> set new" for b
  proof -
    have "b \<in> set free" using that by (auto simp: new_def dest: in_set_takeD)
    then have "b \<in> set xs" "b \<notin> set ?h" by (auto simp: free)
    moreover have "b \<noteq> null_block p" using taken(3) that c1 by metis
    ultimately show ?thesis
      using pool_inv_free_iff [OF mgr_invD(1) [OF inv], of b] mgr_invD(7) [OF inv]
      by (auto simp: computed_table_def split: if_splits)
  qed
  have "mgr_inv oth m' p' (drop (nat n) free) \<and> keeps m p p'"
  proof (rule mgr_inv_update [OF inv p'(1,2) tabs(4,5) _ tabs(1,2)])
    show "refs p' b = refs p b - int (count_list (blocks_of m rid) b) + int (count_list (?req @ new) b)"
      if "usable p b" for b
      using that disj [of b] taken(1) tab(3) [of b] p1(4) [of b] new(2)
      by (auto simp: p'(4) usable_def count_list_mem_distinct count_notin)
    show "b \<in> set (blocks_of m rid) \<or> b = null_block p \<or> refs p b = 0 \<or> hashes p b \<noteq> None"
      if "b \<in> set (?req @ new)" for b using that disj tab(4) by auto
    show "req_ok p' (?req @ new) (py_len ?req)"
      using tab(1,2) taken disj p'(4,5) unfolding req_ok_def c by (auto simp: c1)
  qed (use tabs mgr_invD(11) [OF inv] p'(3,6) in auto)
  then show "\<exists>m' p'. base_allocate_new_computed_blocks rid hits nl ne m p = Inr (m', p')
       \<and> mgr_inv oth m' p' (drop (nat n) free) \<and> keeps m p p' \<and> mgr_const m' = mgr_const m
       \<and> (\<forall>r. blocks_of m' r = (if r = rid then ?req @ take (nat n) free else blocks_of m r))
       \<and> (\<forall>r. cached_of m' r = (if r = rid then py_len ?req else cached_of m r))
       \<and> (\<forall>r. is_running m' r \<longleftrightarrow> r = rid \<or> is_running m r)"
    using res tabs unfolding new_def by blast
qed

section \<open>Registering full blocks\<close>

text \<open>What the caller of \<^verbatim>\<open>cache_blocks\<close> provides: slots and hashes for the full blocks.\<close>

definition cache_ready :: "block_pool \<Rightarrow> manager \<Rightarrow> request \<Rightarrow> int \<Rightarrow> bool" where
  "cache_ready p m r tokens \<longleftrightarrow>
     (let bs = mgr_block_size m; nf = tokens div bs
      in 0 \<le> kv_cache_group_id m \<and> kv_cache_group_id m < 2 ^ 32 \<and> nf \<le> py_len (blocks_of m (request_id r)) \<and>
         0 < hash_block_size p \<and> bs mod hash_block_size p = 0 \<and> nf \<le> py_len (block_hashes r) \<and>
         nf \<le> bhl_len (hash_list_for bs (hash_block_size p) (block_hashes r)))"

lemma slice_drop_disjoint:
  assumes "distinct (filter P bs)" "P b" "b \<in> set (take k (drop j bs))" "b \<in> set (drop (j + k) bs)"
  shows False
proof -
  have "bs = take j bs @ take k (drop j bs) @ drop (j + k) bs"
    by (metis append_take_drop_id drop_drop add.commute)
  then have "distinct (filter P (take j bs @ take k (drop j bs) @ drop (j + k) bs))"
    using assms(1) by simp
  then show False using assms(2-4) by (auto simp del: append_take_drop_id)
qed

lemma null_unhashed:
  assumes "pool_state p xs ys"
  shows "hashes p (null_block p) = None"
  using assms by (auto simp: pool_state_def cache_wf_def usable_def)

lemma base_cache_blocks_inv:
  assumes inv: "mgr_inv oth m p xs" and caching: "enable_caching p"
    and rid: "rid = request_id r" and nf: "nf = tokens div mgr_block_size m"
    and ready: "cached_of m rid < nf \<Longrightarrow> cache_ready p m r tokens"
  shows "\<exists>r' m' p'. base_cache_blocks env r tokens m p = Inr (r', m', p') \<and> mgr_inv oth m' p' xs
     \<and> keeps m p p' \<and> same_but_embeds r r' \<and> mgr_const m' = mgr_const m
     \<and> (\<forall>s. blocks_of m' s = blocks_of m s) \<and> (\<forall>c. refs p' c = refs p c)
     \<and> (\<forall>s. cached_of m' s = (if s = rid then max (cached_of m rid) nf else cached_of m s))
     \<and> (\<forall>s. is_running m s \<longrightarrow> is_running m' s) \<and> (\<forall>s. s \<noteq> rid \<longrightarrow> is_running m' s = is_running m s)
     \<and> (\<forall>b. b \<notin> set (py_slice (blocks_of m rid) (cached_of m rid) nf) \<longrightarrow> hashes p' b = hashes p b)
     \<and> (cached_of m rid < nf \<longrightarrow>
          list_all (\<lambda>b. b = null_block p \<or> hashes p' b \<noteq> None) (py_slice (blocks_of m rid) (cached_of m rid) nf))"
proof (cases "nf \<le> cached_of m rid")
  case True
  then have "base_cache_blocks env r tokens m p = Inr (r, m, p)"
    using nf rid by (simp add: base_cache_blocks_def Let_def)
  then show ?thesis using inv True by (auto intro!: exI [of _ r] exI [of _ m] exI [of _ p])
next
  case False
  let ?bs = "blocks_of m rid" and ?nc = "cached_of m rid"
  define new where "new = py_slice ?bs ?nc nf"
  note ok = mgr_invD(10) [OF inv, of rid] and pinv = mgr_invD(1) [OF inv]
  have nc: "0 \<le> ?nc" using ok by (simp add: req_ok_def)
  have nf0: "0 \<le> nf" "nat ?nc + (nat nf - nat ?nc) = nat nf" using False nc by auto
  have new: "new = take (nat nf - nat ?nc) (drop (nat ?nc) ?bs)"
    using nc nf0 by (simp add: new_def py_slice_nonneg)
  have un: "b = null_block p \<or> hashes p b = None" if "b \<in> set new" for b
    using ok that by (auto simp: new req_ok_def dest: in_set_takeD)
  have dnew: "distinct (filter (\<lambda>b. b \<noteq> null_block p) new)"
  proof -
    have "distinct (filter (\<lambda>b. b \<noteq> null_block p) (take (nat ?nc) ?bs @ new @ drop (nat nf) ?bs))"
      using ok nf0(2) unfolding req_ok_def new by (metis append_take_drop_id drop_drop add.commute)
    then show ?thesis by simp
  qed
  have r: "cache_ready p m r tokens" using ready False by simp
  have "cacheable p r ?bs ?nc nf (mgr_block_size m) (kv_cache_group_id m)"
    using r ok nc nf0 mgr_invD(8) [OF inv] dnew un null_unhashed [OF pinv]
    by (auto simp: cacheable_def cache_ready_def Let_def nf [symmetric] rid [symmetric] new_def [symmetric]
        req_ok_def list_all_iff)
  then obtain r' p' g where p': "cache_full_blocks env r ?bs ?nc nf (mgr_block_size m) (kv_cache_group_id m) p
      = Inr (r', p')" "same_but_embeds r r'" "pool_inv p' xs" "\<And>c. refs p' c = refs p c"
    "pool_const p' = pool_const p" "hashes p' = hashes p ++ map_of (cache_keys g (null_block p) new
      (drop (nat ?nc) (bhl_list (hash_list_for (mgr_block_size m) (hash_block_size p) (block_hashes r)))))"
    using cacheable_state [OF pinv, where env = env] unfolding new_def by blast
  have "nf \<le> py_len (bhl_list (hash_list_for (mgr_block_size m) (hash_block_size p) (block_hashes r)))"
    using r bhl_len_list(1) [OF refl, of "hash_block_size p" "mgr_block_size m" "block_hashes r"]
      mgr_invD(8) [OF inv] by (simp add: cache_ready_def Let_def nf [symmetric])
  then have "length new \<le> length (drop (nat ?nc) (bhl_list (hash_list_for (mgr_block_size m) (hash_block_size p) (block_hashes r))))"
    unfolding new length_drop length_take py_len_def by (intro min.coboundedI2 diff_le_mono) simp
  then have registered: "b = null_block p \<or> hashes p' b \<noteq> None" if "b \<in> set new" for b
    using cache_keys_nth [OF _ _ dnew] that p'(6) by (fastforce simp: in_set_conv_nth map_add_def)
  have hash: "hashes p' b = hashes p b" if "b \<notin> set new" for b
    using p'(6) that cache_keys_fst by (auto simp: map_add_def split: option.splits)
  define m' where "m' = set_cached rid nf (with_req rid m)"
  note c = pool_const_eqD [OF p'(5)]
  have tabs: "blocks_of m' s = (if s = rid then ?bs else blocks_of m s)"
    "cached_of m' s = (if s = rid then nf else cached_of m s)" for s
    by (simp_all add: m'_def)
  have sub: "set (drop (nat nf) ?bs) \<subseteq> set (drop (nat ?nc) ?bs)"
    by (rule set_drop_subset_set_drop) (use False in simp)
  have "mgr_inv oth m' p' xs \<and> keeps m p p'"
  proof (rule mgr_inv_update [OF inv p'(3,5) _ _ _ tabs])
    show "hashes p' b = None" if "hashes p b = None" "b \<notin> set ?bs" for b
      using hash [of b] that by (auto simp: new dest: in_set_takeD in_set_dropD)
    have "hashes p' b = None \<and> refs p' b = 1" if b: "b \<in> set (drop (nat nf) ?bs)" "b \<noteq> null_block p" for b
    proof -
      have "b \<notin> set new"
        using slice_drop_disjoint [of "\<lambda>b. b \<noteq> null_block p" ?bs b "nat nf - nat ?nc" "nat ?nc"] ok b nf0(2)
        by (auto simp: new req_ok_def)
      then show ?thesis using ok hash b sub p'(4) by (auto simp: req_ok_def)
    qed
    moreover have "nf \<le> py_len ?bs" using r by (simp add: cache_ready_def Let_def nf rid)
    ultimately show "req_ok p' ?bs nf" using ok nf0 unfolding req_ok_def c by simp
    show "caching_ok p'" using caching c by (simp add: caching_ok_def)
  qed (use mgr_invD(6,11) [OF inv] p'(4) in \<open>auto simp: m'_def\<close>)
  moreover have "base_cache_blocks env r tokens m p = Inr (r', m', p')"
    using False p'(1) nf rid by (simp add: base_cache_blocks_def m'_def Let_def)
  ultimately show ?thesis using p'(2,4) hash False registered
    unfolding new_def [symmetric]
    by (intro exI [of _ r'] exI [of _ m'] exI [of _ p']) (simp add: m'_def list_all_iff)
qed

end
