(* ===== verification/Manager_Variants.thy ===== *)
theory Manager_Variants
  imports Manager_Ops
begin

text \<open>
  The operations that the Mamba and NELSSA managers override: block reuse in Mamba's \<^verbatim>\<open>align\<close> mode,
  Mamba's registration and release, and NELSSA's release of the middle of a long prompt.
\<close>

section \<open>Fields outside the tables\<close>

lemma other_field_upd [simp]:
  "blocks_of (m\<lparr>last_state_block_idx := x\<rparr>) r = blocks_of m r"
  "blocks_of (m\<lparr>allocated_block_reqs := y\<rparr>) r = blocks_of m r"
  "blocks_of (m\<lparr>cached_blocks_this_step := z\<rparr>) r = blocks_of m r"
  "cached_of (m\<lparr>last_state_block_idx := x\<rparr>) r = cached_of m r"
  "cached_of (m\<lparr>allocated_block_reqs := y\<rparr>) r = cached_of m r"
  "cached_of (m\<lparr>cached_blocks_this_step := z\<rparr>) r = cached_of m r"
  "is_running (m\<lparr>last_state_block_idx := x\<rparr>) r = is_running m r"
  "is_running (m\<lparr>allocated_block_reqs := y\<rparr>) r = is_running m r"
  "is_running (m\<lparr>cached_blocks_this_step := z\<rparr>) r = is_running m r"
  "mgr_const (m\<lparr>last_state_block_idx := x\<rparr>) = mgr_const m"
  "mgr_const (m\<lparr>allocated_block_reqs := y\<rparr>) = mgr_const m"
  "mgr_const (m\<lparr>cached_blocks_this_step := z\<rparr>) = mgr_const m"
  "req_ids (m\<lparr>last_state_block_idx := x\<rparr>) = req_ids m"
  "req_ids (m\<lparr>allocated_block_reqs := y\<rparr>) = req_ids m"
  "req_ids (m\<lparr>cached_blocks_this_step := z\<rparr>) = req_ids m"
  by (simp_all add: blocks_of_def cached_of_def is_running_def mgr_const_def req_ids_def)

lemma mamba_field_with_req [simp]:
  "num_speculative_blocks (with_req rid m) = num_speculative_blocks m"
  "allocated_block_reqs (with_req rid m) = allocated_block_reqs m"
  "mamba_cache_mode (with_req rid m) = mamba_cache_mode m"
  "last_state_block_idx (with_req rid m) = last_state_block_idx m"
  by (simp_all add: with_req_def)

section \<open>Mamba allocation in align mode\<close>

lemma moved_trans: "moved nb nc bs cs \<Longrightarrow> moved nb nc cs ds \<Longrightarrow> moved nb nc bs ds"
  unfolding moved_def by (intro conjI allI impI) (simp, simp, blast, blast)

lemma moved_pad: "moved nb nc bs (bs @ replicate k nb)"
  by (auto simp: moved_def count_notin dest: in_set_dropD)

lemma moved_one:
  assumes "nc \<le> i" "i < length bs"
  shows "moved nb nc bs ((bs @ [bs ! i])[i := nb])"
proof -
  let ?c = "(bs @ [bs ! i])[i := nb]"
  have "count_list ?c b = count_list bs b" if "b \<noteq> nb" for b
    using count_list_update [of i "bs @ [bs ! i]" b nb] assms(2) that by (auto simp: nth_append split: if_splits)
  moreover have in_drop: "bs ! i \<in> set (drop nc bs)"
    using assms by (auto simp: in_set_conv_nth intro!: exI [of _ "i - nc"])
  moreover have "set (drop nc ?c) \<subseteq> insert nb (set (drop nc (bs @ [bs ! i])))"
    by (simp only: drop_update_swap [OF assms(1)] set_update_subset_insert)
  moreover have "set ?c \<subseteq> insert nb (set (bs @ [bs ! i]))" by (rule set_update_subset_insert)
  ultimately show ?thesis using assms by (auto simp: moved_def)
qed

lemma reuse_spec_blocks_moved:
  assumes "0 \<le> j" "nc \<le> nat j" "j \<le> e" "e \<le> py_len bs"
  shows "\<exists>bs'. reuse_spec_blocks nb skipped [j..e - 1] bs = Inr bs' \<and> moved nb nc bs bs' \<and>
     py_len bs' = py_len bs + max 0 (min e skipped - j)"
  using assms
proof (induction "nat (e - j)" arbitrary: j bs)
  case 0
  then have "[j..e - 1] = []" by simp
  then show ?case using 0 by simp
next
  case (Suc k)
  then have j: "j < e" by linarith
  then have upto: "[j..e - 1] = j # [j + 1..e - 1]" by (simp add: upto.simps)
  show ?case
  proof (cases "j < skipped")
    case True
    let ?c = "(bs @ [bs ! nat j])[nat j := nb]"
    have jl: "nat j < length bs" using Suc.prems j by (simp add: py_len_def)
    have step: "py_get bs j = Inr (bs ! nat j)" "py_set (bs @ [bs ! nat j]) j nb = Inr ?c"
      using Suc.prems j by (simp_all add: py_get_nonneg py_set_def)
    have len: "py_len ?c = py_len bs + 1" by (simp add: py_len_def)
    obtain bs' where bs': "reuse_spec_blocks nb skipped [j + 1..e - 1] ?c = Inr bs'" "moved nb nc ?c bs'"
      "py_len bs' = py_len ?c + max 0 (min e skipped - (j + 1))"
      using Suc.hyps(1) [of "j + 1" ?c] Suc.hyps(2) Suc.prems j len by force
    have "reuse_spec_blocks nb skipped [j..e - 1] bs = Inr bs'"
      using step bs'(1) True unfolding upto by simp
    then show ?thesis
      using moved_trans [OF moved_one [OF Suc.prems(2) jl] bs'(2)] bs'(3) len True j by auto
  next
    case False
    then show ?thesis unfolding upto by simp
  qed
qed

text \<open>
  A request of an align-mode manager keeps its speculative blocks at the end of its table, past the
  registered prefix.
\<close>

definition spec_room :: "manager \<Rightarrow> string \<Rightarrow> bool" where
  "spec_room m rid \<longleftrightarrow> 0 \<le> num_speculative_blocks m \<and>
     (rid \<in> set (allocated_block_reqs m) \<longrightarrow>
        cached_of m rid + num_speculative_blocks m \<le> py_len (blocks_of m rid))"

definition align_required :: "manager \<Rightarrow> int \<Rightarrow> int" where
  "align_required m tokens = cdiv tokens (mgr_block_size m) + num_speculative_blocks m"

definition align_new :: "manager \<Rightarrow> string \<Rightarrow> int \<Rightarrow> int" where
  "align_new m rid tokens =
     (if rid \<in> set (allocated_block_reqs m) then 1
      else align_required m tokens - max (py_len (blocks_of m rid)) (cdiv tokens (mgr_block_size m) - 1))"

lemma align_required_with_req [simp]: "align_required (with_req rid m) n = align_required m n"
  by (simp add: align_required_def)

lemma align_table:
  assumes room: "spec_room m rid" "0 \<le> cached_of m rid"
    and prev: "prev = py_len (blocks_of m rid)" "prev < align_required m tokens"
    and skipped: "skipped = align_required m tokens - num_speculative_blocks m - 1"
    and padded: "padded = blocks_of m rid @ py_repeat nb (skipped - prev)"
  shows "\<exists>bs. (if rid \<in> set (allocated_block_reqs m)
      then reuse_spec_blocks nb skipped [prev - num_speculative_blocks m..prev - 1] padded else Inr padded) = Inr bs
    \<and> moved nb (nat (cached_of m rid)) (blocks_of m rid) bs
    \<and> align_required m tokens - py_len bs = align_new m rid tokens"
proof (cases "rid \<in> set (allocated_block_reqs m)")
  case True
  have pad: "moved nb (nat (cached_of m rid)) (blocks_of m rid) padded" "py_len padded = max prev skipped"
    using moved_pad prev(1) by (auto simp: padded py_repeat_def py_len_def)
  obtain bs where bs: "reuse_spec_blocks nb skipped [prev - num_speculative_blocks m..prev - 1] padded = Inr bs"
    "moved nb (nat (cached_of m rid)) padded bs"
    "py_len bs = py_len padded + max 0 (min prev skipped - (prev - num_speculative_blocks m))"
    using reuse_spec_blocks_moved [of "prev - num_speculative_blocks m" "nat (cached_of m rid)" prev padded nb skipped]
      room True prev pad(2) by (auto simp: spec_room_def nat_le_iff)
  have "0 \<le> num_speculative_blocks m" using room(1) by (simp add: spec_room_def)
  then have "align_required m tokens - py_len bs = 1"
    using bs(3) pad(2) prev(2) skipped by linarith
  then show ?thesis using True bs(1) moved_trans [OF pad(1) bs(2)] by (simp add: align_new_def)
next
  case False
  have "moved nb (nat (cached_of m rid)) (blocks_of m rid) padded" "py_len padded = max prev skipped"
    using moved_pad prev(1) by (auto simp: padded py_repeat_def py_len_def)
  then show ?thesis using False prev(1) skipped by (simp add: align_new_def align_required_def)
qed

lemma align_new_bounds:
  assumes "spec_room m rid" "py_len (blocks_of m rid) < align_required m tokens"
  shows "0 \<le> align_new m rid tokens"
    "align_new m rid tokens \<le> (if rid \<in> set (allocated_block_reqs m) then 1 else num_speculative_blocks m + 1)"
  using assms by (auto simp: align_new_def align_required_def spec_room_def)

lemma mamba_align_allocate_inv:
  assumes inv: "mgr_inv oth m p xs" and room: "spec_room m rid"
    and less: "py_len (blocks_of m rid) < align_required m tokens"
  shows "py_len xs < align_new m rid tokens \<Longrightarrow> mamba_align_allocate rid tokens m p = Inl ValueError"
    "align_new m rid tokens \<le> py_len xs \<Longrightarrow> \<exists>new m' p'. mamba_align_allocate rid tokens m p = Inr (new, m', p')
       \<and> mgr_inv oth m' p' (drop (nat (align_new m rid tokens)) xs) \<and> keeps m p p' \<and> mgr_const m' = mgr_const m
       \<and> (\<forall>r. r \<noteq> rid \<longrightarrow> blocks_of m' r = blocks_of m r) \<and> (\<forall>r. cached_of m' r = cached_of m r)
       \<and> (\<forall>r. is_running m' r = is_running m r) \<and> py_len (blocks_of m' rid) = align_required m tokens"
proof -
  define prev where "prev = py_len (blocks_of m rid)"
  define skipped where "skipped = align_required m tokens - num_speculative_blocks m - 1"
  define padded where "padded = blocks_of m rid @ py_repeat (null_block p) (skipped - prev)"
  have nc: "0 \<le> cached_of m rid" using mgr_invD(10) [OF inv, of rid] by (simp add: req_ok_def)
  obtain bs where bs: "(if rid \<in> set (allocated_block_reqs m)
      then reuse_spec_blocks (null_block p) skipped [prev - num_speculative_blocks m..prev - 1] padded
      else Inr padded) = Inr bs" "moved (null_block p) (nat (cached_of m rid)) (blocks_of m rid) bs"
    "align_required m tokens - py_len bs = align_new m rid tokens"
    using align_table [OF room nc prev_def less [folded prev_def] skipped_def padded_def] by blast
  define m2 where "m2 = (if rid \<in> set (allocated_block_reqs m)
      then (with_req rid m)\<lparr>last_state_block_idx := AList.update rid (prev - 1 - num_speculative_blocks m)
             (last_state_block_idx m)\<rparr>
      else if 0 < prev then (with_req rid m)\<lparr>last_state_block_idx := AList.update rid (prev - 1) (last_state_block_idx m)\<rparr>
      else with_req rid m)"
  have eq: "mamba_align_allocate rid tokens m p =
      rbind (get_new_blocks (align_new m rid tokens) p) (\<lambda>(new, p').
        Inr (py_from (bs @ new) prev, (set_blocks rid (bs @ new) m2)
               \<lparr>allocated_block_reqs := List.insert rid (allocated_block_reqs m2)\<rparr>, p'))"
    using less bs(1) align_new_bounds(2) [OF room less] mgr_invD(7) [OF inv]
    by (cases "rid \<in> set (allocated_block_reqs m)")
      (simp_all add: mamba_align_allocate_def Let_def bs(3) m2_def flip: align_required_def prev_def skipped_def padded_def)
  show "py_len xs < align_new m rid tokens \<Longrightarrow> mamba_align_allocate rid tokens m p = Inl ValueError"
    using eq get_new_blocks_error [OF mgr_invD(1) [OF inv]] by simp
  assume le: "align_new m rid tokens \<le> py_len xs"
  let ?new = "take (nat (align_new m rid tokens)) xs"
  define m' where "m' = (set_blocks rid (bs @ ?new) m2)\<lparr>allocated_block_reqs := List.insert rid (allocated_block_reqs m2)\<rparr>"
  have tabs: "blocks_of m' r = (if r = rid then bs @ ?new else blocks_of m r)" "cached_of m' r = cached_of m r"
    "is_running m' r = is_running m r" "mgr_const m' = mgr_const m" "distinct (req_ids m')"
    "set (req_ids m') = insert rid (set (req_ids m))" for r
    using mgr_invD(6) [OF inv] by (auto simp: m'_def m2_def)
  obtain p' where p': "get_new_blocks (align_new m rid tokens) p = Inr (?new, p')"
    "mgr_inv oth m' p' (drop (nat (align_new m rid tokens)) xs)" "keeps m p p'"
    using table_grow_inv [OF inv bs(2) align_new_bounds(1) [OF room less] le tabs(4,5) _ tabs(1,2)]
      mgr_invD(11) [OF inv] tabs(3,6) by auto
  have "py_len ?new = align_new m rid tokens"
    using le align_new_bounds(1) [OF room less] by (simp add: py_len_def)
  then have "py_len (blocks_of m' rid) = align_required m tokens"
    using tabs(1) [of rid] bs(3) by simp
  then show "\<exists>new m' p'. mamba_align_allocate rid tokens m p = Inr (new, m', p')
       \<and> mgr_inv oth m' p' (drop (nat (align_new m rid tokens)) xs) \<and> keeps m p p' \<and> mgr_const m' = mgr_const m
       \<and> (\<forall>r. r \<noteq> rid \<longrightarrow> blocks_of m' r = blocks_of m r) \<and> (\<forall>r. cached_of m' r = cached_of m r)
       \<and> (\<forall>r. is_running m' r = is_running m r) \<and> py_len (blocks_of m' rid) = align_required m tokens"
    using eq p' tabs unfolding m'_def [symmetric]
    by (intro exI [of _ "py_from (bs @ ?new) prev"] exI [of _ m'] exI [of _ p']) (simp add: m'_def [symmetric])
qed

section \<open>Mamba release and registration\<close>

lemma mgr_free_inv:
  assumes inv: "mgr_inv oth m p xs"
  shows "\<exists>m' p' xs'. mgr_free rid m p = Inr (m', p') \<and> mgr_inv oth m' p' xs' \<and> keeps m p p'
     \<and> xs' = xs @ filter (\<lambda>b. b \<noteq> null_block p \<and> refs p b = 1) (rev (blocks_of m rid))
     \<and> hashes p' = hashes p \<and> mgr_const m' = mgr_const m
     \<and> (\<forall>r. blocks_of m' r = (if r = rid then [] else blocks_of m r))
     \<and> (\<forall>r. is_running m' r \<longleftrightarrow> r \<noteq> rid \<and> is_running m r)
     \<and> set (req_ids m') = set (req_ids m) - {rid}"
proof -
  define m1 where "m1 = (if mgr_class m = MambaManager \<and> mamba_cache_mode m = ''align''
      then m\<lparr>allocated_block_reqs := removeAll rid (allocated_block_reqs m),
             last_state_block_idx := AList.delete rid (last_state_block_idx m)\<rparr> else m)"
  have tabs: "blocks_of m1 r = blocks_of m r" "cached_of m1 r = cached_of m r" "is_running m1 r = is_running m r"
    "req_ids m1 = req_ids m" "mgr_const m1 = mgr_const m" "held m1 b = held m b" for r b
    by (simp_all add: m1_def held_def)
  have "mgr_inv oth m1 p xs"
    using mgr_invD(6,11) [OF inv] tabs by (intro mgr_inv_same_tables [OF inv]) simp_all
  moreover have "keeps m1 p p' = keeps m p p'" for p' using tabs(6) by (simp add: keeps_def)
  ultimately show ?thesis
    using base_free_inv [of oth m1 p xs rid] tabs unfolding mgr_free_def m1_def [symmetric] Let_def by auto
qed

lemma collect_keys_total:
  assumes "list_all (\<lambda>b. is_null (h b) \<or> hash_of (h b) \<noteq> None) bs"
  shows "\<exists>ks'. collect_keys h bs ks = Inr ks'"
  using assms by (induction bs arbitrary: ks) auto

lemma mamba_cache_blocks_inv:
  assumes inv: "mgr_inv oth m p xs" and caching: "enable_caching p"
    and ready: "cached_of m (request_id r) < tokens div mgr_block_size m \<Longrightarrow> cache_ready p m r tokens"
  shows "\<exists>r' m' p'. mamba_cache_blocks env r tokens m p = Inr (r', m', p') \<and> mgr_inv oth m' p' xs
     \<and> keeps m p p' \<and> same_but_embeds r r' \<and> mgr_const m' = mgr_const m
     \<and> (\<forall>s. blocks_of m' s = blocks_of m s) \<and> (\<forall>c. refs p' c = refs p c)
     \<and> (\<forall>s. cached_of m' s = (if s = request_id r then max (cached_of m s) (tokens div mgr_block_size m)
                              else cached_of m s))"
proof -
  let ?rid = "request_id r" and ?nf = "tokens div mgr_block_size m"
  obtain r' m1 p' where b: "base_cache_blocks env r tokens m p = Inr (r', m1, p')" "mgr_inv oth m1 p' xs"
    "keeps m p p'" "same_but_embeds r r'" "mgr_const m1 = mgr_const m" "\<And>s. blocks_of m1 s = blocks_of m s"
    "\<And>c. refs p' c = refs p c"
    "\<And>s. cached_of m1 s = (if s = ?rid then max (cached_of m ?rid) ?nf else cached_of m s)"
    "cached_of m ?rid < ?nf \<Longrightarrow> list_all (\<lambda>b. b = null_block p \<or> hashes p' b \<noteq> None)
       (py_slice (blocks_of m ?rid) (cached_of m ?rid) ?nf)"
    using base_cache_blocks_inv [OF inv caching refl refl ready, where env = env] by blast
  show ?thesis
  proof (cases "cached_of m ?rid < ?nf")
    case False
    then have "mamba_cache_blocks env r tokens m p = Inr (r', m1, p')"
      using b(1,8) by (simp add: mamba_cache_blocks_def)
    then show ?thesis using b by auto
  next
    case True
    have nb: "is_null (heap p' c) \<longleftrightarrow> c = null_block p" for c
      using pool_inv_null(1) [OF mgr_invD(1) [OF b(2)], of c] b(3) pool_const_eqD(4) [of p' p]
      by (simp add: keeps_def)
    have "list_all (\<lambda>b. is_null (heap p' b) \<or> hash_of (heap p' b) \<noteq> None)
        (py_slice (blocks_of m ?rid) (cached_of m ?rid) ?nf)"
      using b(9) [OF True] nb by (simp add: hashes_def)
    then obtain ks where ks: "collect_keys (heap p') (py_slice (blocks_of m ?rid) (cached_of m ?rid) ?nf)
        (cached_blocks_this_step (with_req ?rid m1)) = Inr ks"
      using collect_keys_total by blast
    define m' where "m' = (with_req ?rid m1)\<lparr>cached_blocks_this_step := ks\<rparr>"
    have "mamba_cache_blocks env r tokens m p = Inr (r', m', p')"
      using True b(1,6,8) ks by (simp add: mamba_cache_blocks_def m'_def Let_def max_absorb2)
    moreover have "mgr_inv oth m' p' xs"
      using mgr_invD(6,11) [OF b(2)] by (intro mgr_inv_same_tables [OF b(2)]) (auto simp: m'_def)
    ultimately show ?thesis using b(3-8) by (auto simp: m'_def)
  qed
qed

text \<open>Mamba's release past the window: the base loop, then the block of the step before last.\<close>

lemma held_nulled:
  assumes inv: "mgr_inv oth m p xs" "mgr_inv oth m' p' xs'" "pool_const p' = pool_const p"
    and n: "nulled (null_block p) (blocks_of m rid) (blocks_of m' rid) fs"
      "\<And>r. r \<noteq> rid \<Longrightarrow> blocks_of m' r = blocks_of m r"
    and b: "held m b = 0" "b \<noteq> null_block p"
  shows "held m' b = 0"
proof -
  have "held m' b = held m b - int (count_list (blocks_of m rid) b) + int (count_list (blocks_of m' rid) b)"
    using n(2) by (intro held_change mgr_invD(6) [OF inv(1)] mgr_invD(6) [OF inv(2)]) auto
  moreover have "count_list (blocks_of m' rid) b \<le> count_list (blocks_of m rid) b"
    using n(1) b(2) by (simp add: nulled_def)
  ultimately show ?thesis using b(1) held_nonneg [OF mgr_invD(6) [OF inv(2)], of b] by simp
qed

lemma py_get_set_index:
  assumes "py_get xs i = Inr x" "py_set xs i y = Inr ys"
  obtains j where "j < length xs" "x = xs ! j" "ys = xs[j := y]"
proof -
  define j where "j = (if i < 0 then py_len xs + i else i)"
  have "0 \<le> j \<and> j < py_len xs" "x = xs ! nat j" "ys = xs[nat j := y]"
    using assms by (auto simp: py_get_def py_set_def Let_def j_def [symmetric] split: if_splits)
  then show thesis using that [of "nat j"] by (auto simp: py_len_def nat_less_iff)
qed

lemma mamba_remove_cases:
  assumes "mamba_remove_skipped_blocks rid computed m p = Inr (m', p')"
    and "base_remove_skipped_blocks rid (max 0 (computed - num_speculative_blocks m)) m p = Inr (m1, p1)"
  obtains (stop) "m' = m1 \<or> m' = with_req rid m1" "p' = p1"
  | (null) idx b bs where "py_get (blocks_of m1 rid) idx = Inr b" "b \<noteq> mgr_null_block m1"
      "free_blocks [b] p1 = Inr p'" "py_set (blocks_of m1 rid) idx (mgr_null_block m1) = Inr bs"
      "m' = set_blocks rid bs (with_req rid m1)"
proof -
  note run = assms(1) [unfolded mamba_remove_skipped_blocks_def Let_def assms(2) rbind_Inr prod.case]
  show thesis
  proof (cases "mamba_cache_mode m1 = ''align''")
    case False
    then show thesis using run stop by simp
  next
    case True
    note run1 = run [unfolded True, simplified]
    show thesis
    proof (cases "map_of (last_state_block_idx m1) rid")
      case None
      then show thesis using run1 stop by simp
    next
      case (Some idx)
      show thesis
      proof (cases "\<not> idx < cdiv (max 0 (computed - num_speculative_blocks m)) (mgr_block_size m1) - 1")
        case True
        then show thesis using run1 Some stop by simp
      next
        case False
        then have "rbind (py_get (blocks_of m1 rid) idx) (\<lambda>b.
            if b = mgr_null_block m1 then Inr (with_req rid m1, p1)
            else rbind (free_blocks [b] p1) (\<lambda>p2.
                 rbind (py_set (blocks_of m1 rid) idx (mgr_null_block m1)) (\<lambda>bs'.
                   Inr (set_blocks rid bs' (with_req rid m1), p2)))) = Inr (m', p')"
          using run1 Some by (simp cong: if_cong)
        then obtain b where b: "py_get (blocks_of m1 rid) idx = Inr b"
          "(if b = mgr_null_block m1 then Inr (with_req rid m1, p1)
            else rbind (free_blocks [b] p1) (\<lambda>p2.
                 rbind (py_set (blocks_of m1 rid) idx (mgr_null_block m1)) (\<lambda>bs'.
                   Inr (set_blocks rid bs' (with_req rid m1), p2)))) = Inr (m', p')"
          unfolding rbind_eq_Inr by blast
        then show thesis using stop null by (cases "b = mgr_null_block m1") (simp_all add: rbind_eq_Inr, blast)
      qed
    qed
  qed
qed

lemma mamba_remove_skipped_blocks_inv:
  assumes inv: "mgr_inv oth m p xs" and run: "mamba_remove_skipped_blocks rid computed m p = Inr (m', p')"
  shows "\<exists>xs'. mgr_inv oth m' p' xs' \<and> keeps m p p' \<and> mgr_const m' = mgr_const m"
proof -
  let ?n = "max 0 (computed - num_speculative_blocks m)"
  obtain m1 p1 xs1 fs where b: "base_remove_skipped_blocks rid ?n m p = Inr (m1, p1)" "mgr_inv oth m1 p1 xs1"
    "keeps m p p1" "mgr_const m1 = mgr_const m" "nulled (null_block p) (blocks_of m rid) (blocks_of m1 rid) fs"
    "\<And>r. r \<noteq> rid \<Longrightarrow> blocks_of m1 r = blocks_of m r"
    using base_remove_skipped_blocks_inv [OF inv, of rid ?n] by blast
  have const: "pool_const p1 = pool_const p" using b(3) by (simp add: keeps_def)
  have nb: "mgr_null_block m1 = null_block p"
    using mgr_constD(7) [OF b(4)] mgr_invD(7) [OF inv] by simp
  from run b(1) show ?thesis
  proof (cases rule: mamba_remove_cases)
    case stop
    then show ?thesis using b(2-4) mgr_inv_with_req [OF b(2)] by auto
  next
    case (null idx b bs')
    note null = null [unfolded nb]
    obtain j where j: "j < length (blocks_of m1 rid)" "b = blocks_of m1 rid ! j" "bs' = (blocks_of m1 rid)[j := null_block p]"
      by (rule py_get_set_index [OF null(1,4)])
    have n1: "nulled (null_block p1) (blocks_of m1 rid) bs' [b]"
      using nulled_one [OF j(1), of "null_block p"] null(2) j const pool_const_eqD(4) by metis
    have tabs: "blocks_of m' r = (if r = rid then bs' else blocks_of m1 r)" "cached_of m' r = cached_of m1 r" for r
      by (simp_all add: null(5))
    have "\<exists>p''. free_blocks [b] p1 = Inr p'' \<and> mgr_inv oth m' p'' (xs1 @ filter (\<lambda>b. b \<noteq> null_block p1 \<and> refs p1 b = 1) [b])
       \<and> keeps m1 p1 p'' \<and> hashes p'' = hashes p1"
      by (rule release_inv [OF b(2) n1 _ _ _ tabs]) (use mgr_invD(6,11) [OF b(2)] null(5) in auto)
    then have r: "mgr_inv oth m' p' (xs1 @ filter (\<lambda>b. b \<noteq> null_block p1 \<and> refs p1 b = 1) [b])" "keeps m1 p1 p'"
      using null(3) by auto
    have "keeps m p p'" unfolding keeps_def
    proof (intro conjI allI impI)
      show "pool_const p' = pool_const p" using r(2) const by (simp add: keeps_def)
      fix c assume c: "usable p c \<and> 0 < refs p c \<and> hashes p c = None \<and> held m c = 0"
      then have c1: "refs p1 c = refs p c" "hashes p1 c = None" "usable p1 c"
        using b(3) pool_const_eqD(5) [OF const] by (auto simp: keeps_def)
      have "held m1 c = 0"
        using held_nulled [OF inv b(2) const b(5,6)] c by (simp add: usable_def)
      then show "refs p' c = refs p c" "hashes p' c = None" using r(2) c c1 by (auto simp: keeps_def)
    qed
    then show ?thesis using r(1) b(4) null(5) by (intro exI) auto
  qed
qed

section \<open>NELSSA: the middle of a long prompt\<close>

lemma rfold_null_out:
  assumes "list_all (\<lambda>(i, b). 0 \<le> i \<and> i < py_len bs \<and> bs ! nat i = b \<and> b \<noteq> nb) ch" "distinct (map fst ch)"
  shows "\<exists>bs'. rfold (\<lambda>(i, b) bs'. py_set bs' i nb) ch bs = Inr bs' \<and> nulled nb bs bs' (map snd ch) \<and>
    (\<forall>j < length bs. bs' ! j = (if int j \<in> fst ` set ch then nb else bs ! j))"
  using assms
proof (induction ch arbitrary: bs)
  case (Cons c ch)
  obtain i b where c: "c = (i, b)" by fastforce
  have i: "nat i < length bs" "bs ! nat i = b" "b \<noteq> nb" "0 \<le> i"
    using Cons.prems(1) by (auto simp: c py_len_def)
  let ?c = "bs[nat i := nb]"
  have other: "nat i \<noteq> nat k" if "(k, d) \<in> set ch" for k d
    using Cons.prems that i(4) by (force simp: c list_all_iff)
  have "list_all (\<lambda>(i, b). 0 \<le> i \<and> i < py_len ?c \<and> ?c ! nat i = b \<and> b \<noteq> nb) ch"
    using Cons.prems(1) other by (auto simp: list_all_iff py_len_def)
  then obtain bs' where bs': "rfold (\<lambda>(i, b) bs'. py_set bs' i nb) ch ?c = Inr bs'"
    "nulled nb ?c bs' (map snd ch)" "\<And>j. j < length bs \<Longrightarrow> bs' ! j = (if int j \<in> fst ` set ch then nb else ?c ! j)"
    using Cons.IH [of ?c] Cons.prems(2) by auto
  have "py_set bs i nb = Inr ?c" using i by (simp add: py_set_def py_len_def)
  moreover have "nulled nb bs bs' (b # map snd ch)"
    using nulled_trans [OF nulled_one [of "nat i" bs nb] bs'(2)] i by simp
  ultimately show ?case using bs'(1,3) i(4) by (auto simp: c nth_list_update)
qed simp

text \<open>The table indices that \<^verbatim>\<open>free_middle_blocks\<close> releases.\<close>

definition middle_start :: "manager \<Rightarrow> int" where
  "middle_start m = (nelssa_head_size m + mgr_block_size m - 1) div mgr_block_size m"

definition middle_tail :: "manager \<Rightarrow> string \<Rightarrow> int" where
  "middle_tail m rid = (case map_of (nelssa_tail_blocks m) rid of
     None \<Rightarrow> (nelssa_tail_size m + mgr_block_size m - 1) div mgr_block_size m | Some n \<Rightarrow> n)"

definition middle_end :: "manager \<Rightarrow> string \<Rightarrow> int" where
  "middle_end m rid = py_len (blocks_of m rid) - max 0 (middle_tail m rid)"

lemma free_middle_blocks_eq:
  assumes "rid \<in> set (long_requests m)" "map_of (req_to_blocks m) rid = Some bs"
  shows "free_middle_blocks rid m p =
    (if middle_end m rid \<le> middle_start m then Inr (m, p)
     else rbind (rmap (\<lambda>i. rbind (py_get bs i) (\<lambda>b. Inr (i, b))) [middle_start m..middle_end m rid - 1]) (\<lambda>cands.
       let chosen = filter (\<lambda>(i, b). b \<noteq> mgr_null_block m \<and> 0 \<le> block_id b \<and> 0 < refs p b) cands
       in if chosen = [] then Inr (m, p)
          else rbind (free_blocks (map snd chosen) p) (\<lambda>p'.
               rbind (rfold (\<lambda>(i, b) bs'. py_set bs' i (mgr_null_block m)) chosen bs) (\<lambda>bs'.
                 Inr (set_blocks rid bs' m, p')))))"
proof -
  have "(if 0 < middle_tail m rid then py_len bs - middle_tail m rid else py_len bs) = middle_end m rid"
    using assms(2) by (simp add: middle_end_def blocks_of_def)
  then show ?thesis
    using assms unfolding free_middle_blocks_def Let_def middle_tail_def [symmetric] middle_start_def [symmetric]
    by simp
qed

definition middle_blocks :: "blk \<Rightarrow> manager \<Rightarrow> string \<Rightarrow> (int \<times> blk) list" where
  "middle_blocks nb m rid = filter (\<lambda>(i, b). b \<noteq> nb)
     (map (\<lambda>i. (i, blocks_of m rid ! nat i)) [middle_start m..middle_end m rid - 1])"

definition middle_nulled :: "blk \<Rightarrow> manager \<Rightarrow> string \<Rightarrow> blk list" where
  "middle_nulled nb m rid = map (\<lambda>j. if middle_start m \<le> int j \<and> int j < middle_end m rid then nb
     else blocks_of m rid ! j) [0..<length (blocks_of m rid)]"

lemma middle_range:
  assumes "0 < mgr_block_size m" "0 \<le> nelssa_head_size m"
  shows "0 \<le> middle_start m" "middle_end m rid \<le> py_len (blocks_of m rid)"
  using assms by (simp_all add: middle_start_def middle_end_def pos_imp_zdiv_nonneg_iff)

lemma middle_blocks_null_out:
  assumes "0 < mgr_block_size m" "0 \<le> nelssa_head_size m"
  shows "rfold (\<lambda>(i, b) bs'. py_set bs' i nb) (middle_blocks nb m rid) (blocks_of m rid) = Inr (middle_nulled nb m rid)"
    "nulled nb (blocks_of m rid) (middle_nulled nb m rid) (map snd (middle_blocks nb m rid))"
proof -
  let ?bs = "blocks_of m rid" and ?ch = "middle_blocks nb m rid"
  note range = middle_range(1) [OF assms] middle_range(2) [OF assms, of rid]
  have "list_all (\<lambda>(i, b). 0 \<le> i \<and> i < py_len ?bs \<and> ?bs ! nat i = b \<and> b \<noteq> nb) ?ch"
    using range by (auto simp: middle_blocks_def list_all_iff)
  moreover have "distinct (map fst ?ch)"
    unfolding middle_blocks_def by (rule distinct_map_filter) (simp add: comp_def)
  ultimately obtain bs2 where bs2: "rfold (\<lambda>(i, b) bs'. py_set bs' i nb) ?ch ?bs = Inr bs2"
    "nulled nb ?bs bs2 (map snd ?ch)"
    "\<And>j. j < length ?bs \<Longrightarrow> bs2 ! j = (if int j \<in> fst ` set ?ch then nb else ?bs ! j)"
    using rfold_null_out by blast
  have "bs2 = middle_nulled nb m rid"
  proof (rule nth_equalityI)
    show "length bs2 = length (middle_nulled nb m rid)" using bs2(2) by (simp add: nulled_def middle_nulled_def)
    show "bs2 ! j = middle_nulled nb m rid ! j" if "j < length bs2" for j
    proof -
      have j: "j < length ?bs" using that bs2(2) by (simp add: nulled_def)
      then show ?thesis using bs2(3) [OF j] by (force simp: middle_nulled_def middle_blocks_def)
    qed
  qed
  then show "rfold (\<lambda>(i, b) bs'. py_set bs' i nb) ?ch ?bs = Inr (middle_nulled nb m rid)"
    "nulled nb ?bs (middle_nulled nb m rid) (map snd ?ch)" using bs2 by auto
qed

lemma middle_blocks_chosen:
  assumes inv: "mgr_inv oth m p xs" and head: "0 \<le> nelssa_head_size m" and less: "middle_start m < middle_end m rid"
  obtains cands where
    "rmap (\<lambda>i. rbind (py_get (blocks_of m rid) i) (\<lambda>b. Inr (i, b))) [middle_start m..middle_end m rid - 1] = Inr cands"
    "filter (\<lambda>(i, b). b \<noteq> null_block p \<and> 0 \<le> block_id b \<and> 0 < refs p b) cands = middle_blocks (null_block p) m rid"
proof
  let ?bs = "blocks_of m rid"
  let ?cands = "map (\<lambda>i. (i, ?bs ! nat i)) [middle_start m..middle_end m rid - 1]"
  note range = middle_range(1) [OF mgr_invD(8) [OF inv] head] middle_range(2) [OF mgr_invD(8) [OF inv] head, of rid]
  show "rmap (\<lambda>i. rbind (py_get ?bs i) (\<lambda>b. Inr (i, b))) [middle_start m..middle_end m rid - 1] = Inr ?cands"
    using range by (intro rmap_all_Inr) (simp add: py_get_nonneg)
  have held: "0 \<le> block_id b \<and> 0 < refs p b" if "b \<in> set ?bs" "b \<noteq> null_block p" for b
    using mgr_inv_block [OF inv, of b rid] usable_real [of p b] mgr_invD(1) [OF inv] that
    by (cases b) (auto simp: pool_state_def real_blk_def)
  have "?bs ! nat i \<in> set ?bs" if "i \<in> set [middle_start m..middle_end m rid - 1]" for i
    using that range by (intro nth_mem) (auto simp: py_len_def)
  then show "filter (\<lambda>(i, b). b \<noteq> null_block p \<and> 0 \<le> block_id b \<and> 0 < refs p b) ?cands
      = middle_blocks (null_block p) m rid"
    unfolding middle_blocks_def using held by (intro filter_cong refl) auto
qed

text \<open>
  \<^verbatim>\<open>free_middle_blocks\<close> on a long request releases the middle of its table and keeps head and tail.
\<close>

lemma free_middle_blocks_exact:
  assumes inv: "mgr_inv oth m p xs" and long: "rid \<in> set (long_requests m)" and head: "0 \<le> nelssa_head_size m"
  shows "\<exists>m' p'. free_middle_blocks rid m p = Inr (m', p') \<and> keeps m p p' \<and> mgr_const m' = mgr_const m
     \<and> mgr_inv oth m' p' (xs @ filter (\<lambda>b. b \<noteq> null_block p \<and> refs p b = 1)
          (map snd (middle_blocks (null_block p) m rid)))
     \<and> (\<forall>r. blocks_of m' r = (if r = rid then middle_nulled (null_block p) m rid else blocks_of m r))
     \<and> (\<forall>r. cached_of m' r = cached_of m r) \<and> (\<forall>r. is_running m' r = is_running m r)
     \<and> long_requests m' = long_requests m \<and> nelssa_tail_blocks m' = nelssa_tail_blocks m"
proof -
  let ?ch = "middle_blocks (null_block p) m rid" and ?bs2 = "middle_nulled (null_block p) m rid"
  note out = middle_blocks_null_out [OF mgr_invD(8) [OF inv] head, where nb = "null_block p" and rid = rid]
  have same: "?bs2 = blocks_of m rid" if "?ch = []" using out(1) that by simp
  have skip: ?thesis if "?ch = []" "free_middle_blocks rid m p = Inr (m, p)"
    using that same inv by (intro exI [of _ m] exI [of _ p]) auto
  have none: "?ch = []" if "middle_end m rid \<le> middle_start m" using that by (simp add: middle_blocks_def)
  show ?thesis
  proof (cases "map_of (req_to_blocks m) rid")
    case None
    then have "middle_end m rid \<le> middle_start m"
      using middle_range(1) [OF mgr_invD(8) [OF inv] head] by (simp add: middle_end_def blocks_of_def)
    then show ?thesis using skip none None by (simp add: free_middle_blocks_def)
  next
    case (Some bs)
    note eq = free_middle_blocks_eq [OF long Some, of p]
    have bs: "blocks_of m rid = bs" using Some by (simp add: blocks_of_def)
    show ?thesis
    proof (cases "middle_end m rid \<le> middle_start m")
      case True
      then show ?thesis using skip none eq by simp
    next
      case False
      then have less: "middle_start m < middle_end m rid" by simp
      obtain cands where c:
        "rmap (\<lambda>i. rbind (py_get bs i) (\<lambda>b. Inr (i, b))) [middle_start m..middle_end m rid - 1] = Inr cands"
        "filter (\<lambda>(i, b). b \<noteq> null_block p \<and> 0 \<le> block_id b \<and> 0 < refs p b) cands = ?ch"
        by (rule middle_blocks_chosen [OF inv head less, unfolded bs])
      have run: "free_middle_blocks rid m p = (if ?ch = [] then Inr (m, p)
          else rbind (free_blocks (map snd ?ch) p) (\<lambda>p'. Inr (set_blocks rid ?bs2 m, p')))"
        using eq False c out(1) mgr_invD(7) [OF inv] bs by (simp cong: if_cong)
      show ?thesis
      proof (cases "?ch = []")
        case True
        then show ?thesis using skip run by simp
      next
        case ch: False
        define m' where "m' = set_blocks rid ?bs2 m"
        have tabs: "blocks_of m' r = (if r = rid then ?bs2 else blocks_of m r)" "cached_of m' r = cached_of m r"
          "is_running m' r = is_running m r" for r by (simp_all add: m'_def)
        have const: "mgr_const m' = mgr_const m" and dist: "distinct (req_ids m')"
          and ids: "is_running m' r \<Longrightarrow> r \<in> set (req_ids m')" for r
          using mgr_invD(6,11) [OF inv] by (auto simp: m'_def)
        obtain p' where p': "free_blocks (map snd ?ch) p = Inr p'" "keeps m p p'"
          "mgr_inv oth m' p' (xs @ filter (\<lambda>b. b \<noteq> null_block p \<and> refs p b = 1) (map snd ?ch))"
          using release_inv [OF inv out(2) const dist ids tabs(1,2)] by blast
        then have "free_middle_blocks rid m p = Inr (m', p')" using run ch by (simp add: m'_def)
        moreover have "long_requests m' = long_requests m" "nelssa_tail_blocks m' = nelssa_tail_blocks m"
          by (simp_all add: m'_def set_blocks_def)
        ultimately show ?thesis using p'(2,3) tabs const by blast
      qed
    qed
  qed
qed

end
