(* ===== verification/Manager_Steps.thy ===== *)
theory Manager_Steps
  imports Manager_Variants
begin

text \<open>
  All operations of a single-type manager as a step relation, and several managers on one block
  pool.  The locale \<open>pool_client\<close> is the contract a client of the pool meets: a step keeps the
  counts in line with its own tables and the other clients' blocks as they are.  Its lemmas lift
  the invariant to any number of clients; the managers interpret it.
\<close>

section \<open>Clients of the block pool\<close>

definition clients_inv ::
  "('m \<Rightarrow> blk \<Rightarrow> int) \<Rightarrow> (block_pool \<Rightarrow> 'm \<Rightarrow> bool) \<Rightarrow> 'm list \<Rightarrow> block_pool \<Rightarrow> blk list \<Rightarrow> bool" where
  "clients_inv hld ok ms p xs \<longleftrightarrow> pool_inv p xs \<and> caching_ok p \<and> list_all (ok p) ms \<and>
     (\<forall>b. usable p b \<longrightarrow> refs p b = sum_list (map (\<lambda>m. hld m b) ms))"

locale pool_client =
  fixes hld :: "'m \<Rightarrow> blk \<Rightarrow> int"
    and ok :: "block_pool \<Rightarrow> 'm \<Rightarrow> bool"
    and step :: "'m \<Rightarrow> block_pool \<Rightarrow> 'm \<Rightarrow> block_pool \<Rightarrow> bool"
  assumes hld_nonneg: "ok p m \<Longrightarrow> 0 \<le> hld m b"
    and wf_frame: "ok p m \<Longrightarrow> pool_const p' = pool_const p \<Longrightarrow>
      (\<And>b. usable p b \<Longrightarrow> 0 < hld m b \<Longrightarrow> refs p b = 1 \<Longrightarrow> hashes p b = None \<Longrightarrow>
         refs p' b = refs p b \<and> hashes p' b = None) \<Longrightarrow> ok p' m"
    and step_inv: "step m p m' p' \<Longrightarrow> pool_inv p xs \<Longrightarrow> caching_ok p \<Longrightarrow> ok p m \<Longrightarrow> (\<And>b. 0 \<le> oth b) \<Longrightarrow>
      (\<And>b. usable p b \<Longrightarrow> refs p b = oth b + hld m b) \<Longrightarrow>
      \<exists>xs'. pool_inv p' xs' \<and> caching_ok p' \<and> ok p' m' \<and> pool_const p' = pool_const p \<and>
        (\<forall>b. usable p b \<longrightarrow> refs p' b = oth b + hld m' b) \<and>
        (\<forall>b. usable p b \<and> 0 < refs p b \<and> hashes p b = None \<and> hld m b = 0 \<longrightarrow>
           refs p' b = refs p b \<and> hashes p' b = None)"
begin

text \<open>A block referenced once has one holder.\<close>

lemma sole_holder:
  assumes inv: "clients_inv hld ok (ms1 @ m # ms2) p xs" and b: "usable p b" "refs p b = 1"
    and n: "n \<in> set (ms1 @ ms2)" "0 < hld n b"
  shows "hld m b = 0"
proof -
  have nn: "0 \<le> hld c b" if "c \<in> set (ms1 @ m # ms2)" for c
    using inv that hld_nonneg by (auto simp: clients_inv_def list_all_iff)
  have "hld n b \<le> sum_list (map (\<lambda>m. hld m b) (ms1 @ ms2))"
    using n(1) nn by (intro member_le_sum_list) auto
  moreover have "1 = hld m b + sum_list (map (\<lambda>m. hld m b) (ms1 @ ms2))"
    using inv b by (simp add: clients_inv_def)
  moreover have "0 \<le> hld m b" by (rule nn) simp
  ultimately show ?thesis using n(2) by linarith
qed

lemma step_one:
  assumes inv: "clients_inv hld ok (ms1 @ m # ms2) p xs" and st: "step m p m' p'"
  shows "\<exists>xs'. clients_inv hld ok (ms1 @ m' # ms2) p' xs' \<and> pool_const p' = pool_const p"
proof -
  define oth where "oth b = sum_list (map (\<lambda>m. hld m b) (ms1 @ ms2))" for b
  have all: "list_all (ok p) (ms1 @ ms2)" "ok p m" using inv by (auto simp: clients_inv_def)
  have oth: "0 \<le> oth b" for b
    unfolding oth_def using all hld_nonneg by (intro sum_list_nonneg) (auto simp: list_all_iff)
  have eq: "refs p b = oth b + hld m b" if "usable p b" for b
    using inv that by (simp add: clients_inv_def oth_def)
  have pinv: "pool_inv p xs" "caching_ok p" using inv by (auto simp: clients_inv_def)
  obtain xs' where s: "pool_inv p' xs'" "caching_ok p'" "ok p' m'" "pool_const p' = pool_const p"
    "\<And>b. usable p b \<Longrightarrow> refs p' b = oth b + hld m' b"
    "\<And>b. usable p b \<Longrightarrow> 0 < refs p b \<Longrightarrow> hashes p b = None \<Longrightarrow> hld m b = 0 \<Longrightarrow>
       refs p' b = refs p b \<and> hashes p' b = None"
    using step_inv [OF st pinv all(2) oth eq] by blast
  have "ok p' n" if n: "n \<in> set (ms1 @ ms2)" for n
  proof (rule wf_frame [of p n, OF _ s(4)])
    show "ok p n" using all(1) n by (auto simp: list_all_iff)
    show "refs p' b = refs p b \<and> hashes p' b = None"
      if "usable p b" "0 < hld n b" "refs p b = 1" "hashes p b = None" for b
      using s(6) [of b] sole_holder [OF inv that(1,3) n that(2)] that by simp
  qed
  then have "clients_inv hld ok (ms1 @ m' # ms2) p' xs'"
    using s(1-3) s(5) pool_const_eqD(5) [OF s(4)] by (auto simp: clients_inv_def list_all_iff oth_def)
  then show ?thesis using s(4) by blast
qed

end

section \<open>Steps of a manager\<close>

text \<open>
  The guards are what the callers provide: hits that are registered blocks, room for the external
  tokens, hashes and slots for the blocks to register, and in Mamba's align mode the speculative
  blocks of an allocated request at the end of its table.
\<close>

definition computed_ready :: "block_pool \<Rightarrow> manager \<Rightarrow> string \<Rightarrow> blk list \<Rightarrow> int \<Rightarrow> int \<Rightarrow> bool" where
  "computed_ready p m rid hits nl ne \<longleftrightarrow>
     (mgr_class m \<noteq> CrossAttentionManager \<and> \<not> is_running m rid \<longrightarrow>
        hits_ok p hits \<and> (enable_caching p \<or> hits = []) \<and> 0 \<le> external_blocks m hits nl ne)"

definition is_align :: "manager \<Rightarrow> bool" where
  "is_align m \<longleftrightarrow> mgr_class m = MambaManager \<and> mamba_cache_mode m = ''align''"

inductive mgr_step :: "hash_env \<Rightarrow> manager \<Rightarrow> block_pool \<Rightarrow> manager \<Rightarrow> block_pool \<Rightarrow> bool" for env where
  step_computed: "computed_ready p m rid hits nl ne \<Longrightarrow>
    allocate_new_computed_blocks rid hits nl ne m p = Inr (m', p') \<Longrightarrow> mgr_step env m p m' p'"
| step_alloc: "is_align m \<longrightarrow> spec_room m rid \<Longrightarrow>
    allocate_new_blocks rid tokens main m p = Inr (new, m', p') \<Longrightarrow> mgr_step env m p m' p'"
| step_cache: "enable_caching p \<Longrightarrow>
    cached_of m (request_id r) < tokens div mgr_block_size m \<longrightarrow> cache_ready p m r tokens \<Longrightarrow>
    cache_blocks env r tokens m p = Inr (r', m', p') \<Longrightarrow> mgr_step env m p m' p'"
| step_free: "mgr_free rid m p = Inr (m', p') \<Longrightarrow> mgr_step env m p m' p'"
| step_remove: "remove_skipped_blocks rid computed m p = Inr (m', p') \<Longrightarrow> mgr_step env m p m' p'"
| step_middle: "0 \<le> nelssa_head_size m \<Longrightarrow> free_middle_blocks rid m p = Inr (m', p') \<Longrightarrow> mgr_step env m p m' p'"
| step_mark: "mgr_step env m p (mark_long_request rid len m) p"
| step_resources: "mgr_step env m p (free_request_resources rid m) p"
| step_ids: "mgr_step env m p (snd (take_new_block_ids m)) p"
| step_new_step: "mgr_step env m p (new_step_starts m) p"
| step_estimate: "get_num_blocks_to_allocate rid tokens hits computed main m p = Inr (n, m') \<Longrightarrow>
    mgr_step env m p m' p"
| step_prefix: "mgr_step env m p (snd (get_num_common_prefix_blocks rid m p)) p"

definition mgr_ok_step :: "(blk \<Rightarrow> int) \<Rightarrow> manager \<Rightarrow> block_pool \<Rightarrow> manager \<Rightarrow> block_pool \<Rightarrow> bool" where
  "mgr_ok_step oth m p m' p' \<longleftrightarrow> (\<exists>xs'. mgr_inv oth m' p' xs') \<and> keeps m p p' \<and> mgr_const m' = mgr_const m"

lemma table_neutral:
  assumes "mgr_inv oth m p xs" "req_to_blocks m' = req_to_blocks m" "num_cached_block m' = num_cached_block m"
    "mgr_const m' = mgr_const m"
  shows "mgr_ok_step oth m p m' p"
proof -
  have "mgr_inv oth m' p xs"
    using assms(2-4) mgr_invD(6,11) [OF assms(1)]
    by (intro mgr_inv_same_tables [OF assms(1)])
      (simp_all add: blocks_of_def cached_of_def is_running_def req_ids_def)
  then show ?thesis using assms(4) by (auto simp: mgr_ok_step_def)
qed

lemma with_req_step: "mgr_inv oth m p xs \<Longrightarrow> mgr_ok_step oth m p (with_req rid m) p"
  using mgr_inv_with_req [of oth m p xs rid] by (auto simp: mgr_ok_step_def)

lemma computed_step:
  assumes inv: "mgr_inv oth m p xs" and "computed_ready p m rid hits nl ne"
    "allocate_new_computed_blocks rid hits nl ne m p = Inr (m', p')"
  shows "mgr_ok_step oth m p m' p'"
proof (cases "mgr_class m = CrossAttentionManager \<or> is_running m rid")
  case True
  then have "m' = m \<and> p' = p"
    using assms(3) by (auto simp: allocate_new_computed_blocks_def base_allocate_new_computed_blocks_def
        py_assert_def split: if_splits manager_class.splits)
  then show ?thesis using inv by (auto simp: mgr_ok_step_def)
next
  case False
  then have eq: "base_allocate_new_computed_blocks rid hits nl ne m p = Inr (m', p')"
    using assms(3) by (simp add: allocate_new_computed_blocks_def split: manager_class.splits)
  then have "blocks_of m rid = []"
    using False by (auto simp: base_allocate_new_computed_blocks_def Let_def py_assert_def split: if_splits)
  note res = allocate_computed_inv [OF inv _ this _ _ refl _ refl, of hits nl ne]
  show ?thesis
  proof (cases "external_blocks m hits nl ne \<le> py_len (filter (\<lambda>b. b \<notin> set (used_hits m hits (nl + ne))) xs)")
    case True
    then show ?thesis using res(2) False assms(2) eq by (auto simp: computed_ready_def mgr_ok_step_def)
  next
    case no: False
    then show ?thesis using res(1) False assms(2) eq by (auto simp: computed_ready_def)
  qed
qed

lemma alloc_step:
  assumes inv: "mgr_inv oth m p xs" and "is_align m \<longrightarrow> spec_room m rid"
    "allocate_new_blocks rid tokens main m p = Inr (new, m', p')"
  shows "mgr_ok_step oth m p m' p'"
proof -
  have base: "mgr_ok_step oth m p m' p'" if "base_allocate_new_blocks rid n m p = Inr (new, m', p')" for n
  proof -
    define k where "k = cdiv n (mgr_block_size m) - py_len (blocks_of m rid)"
    note b = base_allocate_new_blocks_inv [OF inv k_def]
    consider "k \<le> 0" | "0 < k" "py_len xs < k" | "0 < k" "k \<le> py_len xs" by linarith
    then show ?thesis
    proof cases
      case 1
      then show ?thesis using b(1) that with_req_step [OF inv] by simp
    next
      case 2
      then show ?thesis using b(2) that by simp
    next
      case 3
      then show ?thesis using b(3) that by (auto simp: mgr_ok_step_def)
    qed
  qed
  show ?thesis
  proof (cases "is_align m")
    case False
    then show ?thesis
      using assms(3) base by (auto simp: allocate_new_blocks_def is_align_def split: manager_class.splits if_splits)
  next
    case True
    then have run: "mamba_align_allocate rid main m p = Inr (new, m', p')" and room: "spec_room m rid"
      using assms(2,3) by (simp_all add: allocate_new_blocks_def is_align_def)
    consider "py_len (blocks_of m rid) = align_required m main" | "align_required m main < py_len (blocks_of m rid)"
      | "py_len (blocks_of m rid) < align_required m main" by linarith
    then show ?thesis
    proof cases
      case 1
      then have "m' = with_req rid m" "p' = p"
        using run by (simp_all add: mamba_align_allocate_def Let_def align_required_def [symmetric])
      then show ?thesis using with_req_step [OF inv] by simp
    next
      case 2
      then show ?thesis
        using run by (simp add: mamba_align_allocate_def Let_def align_required_def [symmetric])
    next
      case 3
      note a = mamba_align_allocate_inv [OF inv room 3]
      show ?thesis
      proof (cases "align_new m rid main \<le> py_len xs")
        case True
        then show ?thesis using a(2) run by (auto simp: mgr_ok_step_def)
      next
        case False
        then show ?thesis using a(1) run by simp
      qed
    qed
  qed
qed

lemma cache_step:
  assumes inv: "mgr_inv oth m p xs" and "enable_caching p"
    and ready: "cached_of m (request_id r) < tokens div mgr_block_size m \<longrightarrow> cache_ready p m r tokens"
    and run: "cache_blocks env r tokens m p = Inr (r', m', p')"
  shows "mgr_ok_step oth m p m' p'"
proof (cases "mgr_class m = MambaManager")
  case True
  then show ?thesis
    using mamba_cache_blocks_inv [OF inv assms(2), of r tokens env] ready run
    by (auto simp: cache_blocks_def mgr_ok_step_def)
next
  case False
  then show ?thesis
    using base_cache_blocks_inv [OF inv assms(2) refl refl, of r tokens env] ready run
    by (auto simp: cache_blocks_def mgr_ok_step_def split: manager_class.splits)
qed

lemma remove_step:
  assumes inv: "mgr_inv oth m p xs" and run: "remove_skipped_blocks rid computed m p = Inr (m', p')"
  shows "mgr_ok_step oth m p m' p'"
proof (cases "mgr_class m = MambaManager")
  case True
  then show ?thesis
    using mamba_remove_skipped_blocks_inv [OF inv] run by (auto simp: remove_skipped_blocks_def mgr_ok_step_def)
next
  case False
  then have "base_remove_skipped_blocks rid computed m p = Inr (m', p')"
    using run by (simp add: remove_skipped_blocks_def split: manager_class.splits)
  then show ?thesis
    using base_remove_skipped_blocks_inv [OF inv, of rid computed] by (auto simp: mgr_ok_step_def)
qed

lemma free_step:
  assumes inv: "mgr_inv oth m p xs" and run: "mgr_free rid m p = Inr (m', p')"
  shows "mgr_ok_step oth m p m' p'"
  using mgr_free_inv [OF inv, of rid] run by (auto simp: mgr_ok_step_def)

lemma middle_step:
  assumes inv: "mgr_inv oth m p xs" and "0 \<le> nelssa_head_size m" and run: "free_middle_blocks rid m p = Inr (m', p')"
  shows "mgr_ok_step oth m p m' p'"
proof (cases "rid \<in> set (long_requests m)")
  case True
  then show ?thesis using free_middle_blocks_exact [OF inv True assms(2)] run by (auto simp: mgr_ok_step_def)
next
  case False
  then show ?thesis using run inv by (auto simp: free_middle_blocks_def mgr_ok_step_def)
qed

lemma estimate_step:
  assumes inv: "mgr_inv oth m p xs" and run: "get_num_blocks_to_allocate rid tokens hits computed main m p = Inr (n, m')"
  shows "mgr_ok_step oth m p m' p"
proof -
  have "m' = m \<or> m' = with_req rid m"
    using run by (auto simp: get_num_blocks_to_allocate_def mamba_get_num_blocks_to_allocate_def Let_def
        rbind_eq_Inr split: manager_class.splits if_splits)
  then show ?thesis using inv with_req_step [OF inv] by (auto simp: mgr_ok_step_def)
qed

lemma mgr_step_ok:
  assumes "mgr_step env m p m' p'" and inv: "mgr_inv oth m p xs"
  shows "mgr_ok_step oth m p m' p'"
  using assms(1)
proof cases
  case step_prefix
  then show ?thesis
    using inv with_req_step [OF inv]
    by (auto simp: get_num_common_prefix_blocks_def Let_def mgr_ok_step_def)
qed (use inv in \<open>auto intro: computed_step alloc_step cache_step free_step remove_step middle_step estimate_step\<close>,
    auto intro!: table_neutral [OF inv] simp: mark_long_request_def free_request_resources_def
      take_new_block_ids_def new_step_starts_def mgr_const_def split: manager_class.split prod.split)

section \<open>The managers are clients of the pool\<close>

lemma mgr_wf_frame:
  assumes wf: "mgr_wf p m" and const: "pool_const p' = pool_const p"
    and same: "\<And>b. usable p b \<Longrightarrow> 0 < held m b \<Longrightarrow> refs p b = 1 \<Longrightarrow> hashes p b = None \<Longrightarrow>
      refs p' b = refs p b \<and> hashes p' b = None"
  shows "mgr_wf p' m"
proof -
  note c = pool_const_eqD [OF const]
  have "req_ok p' (blocks_of m r) (cached_of m r)" for r
  proof -
    have ok: "req_ok p (blocks_of m r) (cached_of m r)" and dist: "distinct (req_ids m)"
      using wf by (auto simp: mgr_wf_def)
    have "hashes p' b = None \<and> refs p' b = 1"
      if b: "b \<in> set (drop (nat (cached_of m r)) (blocks_of m r))" "b \<noteq> null_block p" for b
    proof -
      have "b \<in> set (blocks_of m r)" using b(1) by (rule in_set_dropD)
      then have "usable p b" "count_list (blocks_of m r) b = 1"
        using ok b(2) req_ok_count [OF ok b(2)] by (auto simp: req_ok_def usable_def)
      moreover have "refs p b = 1" "hashes p b = None" using ok b by (auto simp: req_ok_def)
      ultimately show ?thesis using same [of b] held_ge_count [OF dist, of r b] by simp
    qed
    then show ?thesis using ok c unfolding req_ok_def by simp
  qed
  then show ?thesis using wf c by (simp add: mgr_wf_def)
qed

interpretation mc: pool_client held mgr_wf "mgr_step env" for env
proof unfold_locales
  show "0 \<le> held m b" if "mgr_wf p m" for p m b
    using that held_nonneg by (simp add: mgr_wf_def)
  show "mgr_wf p' m" if "mgr_wf p m" "pool_const p' = pool_const p"
    "\<And>b. usable p b \<Longrightarrow> 0 < held m b \<Longrightarrow> refs p b = 1 \<Longrightarrow> hashes p b = None \<Longrightarrow>
      refs p' b = refs p b \<and> hashes p' b = None" for p m p'
    using that by (rule mgr_wf_frame)
  show "\<exists>xs'. pool_inv p' xs' \<and> caching_ok p' \<and> mgr_wf p' m' \<and> pool_const p' = pool_const p \<and>
      (\<forall>b. usable p b \<longrightarrow> refs p' b = oth b + held m' b) \<and>
      (\<forall>b. usable p b \<and> 0 < refs p b \<and> hashes p b = None \<and> held m b = 0 \<longrightarrow>
         refs p' b = refs p b \<and> hashes p' b = None)"
    if step: "mgr_step env m p m' p'" and inv: "pool_inv p xs" "caching_ok p" "mgr_wf p m"
      "\<And>b. 0 \<le> oth b" "\<And>b. usable p b \<Longrightarrow> refs p b = oth b + held m b" for m p m' p' xs oth
  proof -
    have "mgr_inv oth m p xs" using inv by (simp add: mgr_inv_def)
    from mgr_step_ok [OF step this] show ?thesis
      using pool_const_eqD(5) [of p' p] by (auto simp: mgr_ok_step_def mgr_inv_def keeps_def)
  qed
qed

end
