(* ===== verification/Manager_Refinement.thy ===== *)
theory Manager_Refinement
  imports Manager_Steps
begin

text \<open>
  Without prefix-cache hits a manager and its pool behave as a list allocator: a free list and one
  block table per request.  The abstract operations work on these lists only; the simulation shows
  that the manager on the linked-list pool implements them, errors included.
\<close>

section \<open>The list allocator\<close>

record allocator =
  free_list :: "blk list"
  tables :: "(string \<times> blk list) list"
  long_tails :: "(string \<times> int) list"
  admitted :: "string list"

definition table_of :: "allocator \<Rightarrow> string \<Rightarrow> blk list" where
  "table_of a rid = (case map_of (tables a) rid of None \<Rightarrow> [] | Some bs \<Rightarrow> bs)"

definition put_table :: "string \<Rightarrow> blk list \<Rightarrow> allocator \<Rightarrow> allocator" where
  "put_table rid bs a = a\<lparr>tables := AList.update rid bs (tables a)\<rparr>"

definition give_back :: "blk \<Rightarrow> blk list \<Rightarrow> allocator \<Rightarrow> allocator" where
  "give_back nb fs a = a\<lparr>free_list := free_list a @ filter (\<lambda>b. b \<noteq> nb) fs\<rparr>"

datatype script_op = Admit string | Alloc string int | Skip string int | Finish string | Long string int | Middle string

definition abs_alloc :: "manager \<Rightarrow> string \<Rightarrow> int \<Rightarrow> allocator \<Rightarrow> allocator res" where
  "abs_alloc k rid tokens a =
     (let n = cdiv tokens (mgr_block_size k) - py_len (table_of a rid)
      in if n \<le> 0 then Inr a
         else if py_len (free_list a) < n then Inl ValueError
         else Inr (put_table rid (table_of a rid @ take (nat n) (free_list a))
                     (a\<lparr>free_list := drop (nat n) (free_list a)\<rparr>)))"

definition abs_skip :: "manager \<Rightarrow> string \<Rightarrow> int \<Rightarrow> allocator \<Rightarrow> allocator" where
  "abs_skip k rid computed a =
     (let s = get_num_skipped_tokens k computed
      in if s \<le> 0 then a
         else let (fs, bs) = remove_loop (mgr_null_block k)
                    (nat (min (s div mgr_block_size k) (py_len (table_of a rid)))) (table_of a rid)
              in give_back (mgr_null_block k) fs (put_table rid bs a))"

definition abs_middle :: "manager \<Rightarrow> string \<Rightarrow> allocator \<Rightarrow> allocator" where
  "abs_middle k rid a =
     (case map_of (long_tails a) rid of
        None \<Rightarrow> a
      | Some tail \<Rightarrow>
          let bs = table_of a rid; s = middle_start k; e = py_len bs - max 0 tail
          in give_back (mgr_null_block k) (map (\<lambda>i. bs ! nat i) [s..e - 1])
               (put_table rid (map (\<lambda>j. if s \<le> int j \<and> int j < e then mgr_null_block k else bs ! j) [0..<length bs]) a))"

fun abs_step :: "manager \<Rightarrow> script_op \<Rightarrow> allocator \<Rightarrow> allocator res" where
  "abs_step k (Admit rid) a =
     (if rid \<in> set (admitted a) then Inr a
      else rbind (py_assert (table_of a rid = [])) (\<lambda>_. Inr (a\<lparr>admitted := rid # admitted a\<rparr>)))"
| "abs_step k (Alloc rid n) a = abs_alloc k rid n a"
| "abs_step k (Skip rid n) a = Inr (abs_skip k rid n a)"
| "abs_step k (Finish rid) a =
     Inr (give_back (mgr_null_block k) (rev (table_of a rid))
            (a\<lparr>tables := AList.delete rid (tables a), admitted := removeAll rid (admitted a)\<rparr>))"
| "abs_step k (Long rid n) a =
     Inr (a\<lparr>long_tails := AList.update rid (fst (compute_tail_layout k n)) (long_tails a)\<rparr>)"
| "abs_step k (Middle rid) a = Inr (abs_middle k rid a)"

section \<open>Scripts on the manager\<close>

text \<open>Sequences of manager operations for requests without prefix-cache hits.\<close>

fun script_step :: "script_op \<Rightarrow> manager \<times> block_pool \<Rightarrow> (manager \<times> block_pool) res" where
  "script_step (Admit rid) (m, p) = allocate_new_computed_blocks rid [] 0 0 m p"
| "script_step (Alloc rid n) (m, p) = rbind (allocate_new_blocks rid n n m p) (\<lambda>(_, m', p'). Inr (m', p'))"
| "script_step (Skip rid n) (m, p) = remove_skipped_blocks rid n m p"
| "script_step (Finish rid) (m, p) = mgr_free rid m p"
| "script_step (Long rid n) (m, p) = Inr (mark_long_request rid n m, p)"
| "script_step (Middle rid) (m, p) = free_middle_blocks rid m p"

definition represents :: "manager \<Rightarrow> allocator \<Rightarrow> manager \<times> block_pool \<Rightarrow> bool" where
  "represents k a s \<longleftrightarrow>
     (case s of (m, p) \<Rightarrow> mgr_inv (\<lambda>_. 0) m p (free_list a) \<and> mgr_const m = mgr_const k \<and>
        (\<forall>r. blocks_of m r = table_of a r) \<and> (\<forall>r. cached_of m r = 0) \<and>
        (\<forall>r. is_running m r \<longleftrightarrow> r \<in> set (admitted a)) \<and>
        (\<forall>r. r \<in> set (long_requests m) \<longleftrightarrow> map_of (long_tails a) r \<noteq> None) \<and>
        (\<forall>r. map_of (nelssa_tail_blocks m) r = map_of (long_tails a) r))"

definition script_kind :: "manager \<Rightarrow> bool" where
  "script_kind k \<longleftrightarrow> mgr_class k \<notin> {MambaManager, CrossAttentionManager} \<and> 0 \<le> nelssa_head_size k \<and>
     get_num_skipped_tokens k 0 = 0"

lemma table_of_upd [simp]:
  "table_of (put_table rid bs a) r = (if r = rid then bs else table_of a r)"
  "table_of (give_back nb fs a) r = table_of a r"
  "table_of (a\<lparr>free_list := x\<rparr>) r = table_of a r" "table_of (a\<lparr>long_tails := y\<rparr>) r = table_of a r"
  "table_of (a\<lparr>tables := AList.delete rid (tables a)\<rparr>) r = (if r = rid then [] else table_of a r)"
  "table_of (a\<lparr>admitted := z\<rparr>) r = table_of a r"
  "admitted (put_table rid bs a) = admitted a" "admitted (give_back nb fs a) = admitted a"
  "free_list (put_table rid bs a) = free_list a" "long_tails (put_table rid bs a) = long_tails a"
  "free_list (give_back nb fs a) = free_list a @ filter (\<lambda>b. b \<noteq> nb) fs"
  "long_tails (give_back nb fs a) = long_tails a"
  by (auto simp: table_of_def put_table_def give_back_def update_conv' delete_conv')

text \<open>An unregistered block in a table has one reference.\<close>

lemma represents_refs:
  assumes "represents k a (m, p)" "set fs \<subseteq> set (blocks_of m rid)"
  shows "filter (\<lambda>b. b \<noteq> null_block p \<and> refs p b = 1) fs = filter (\<lambda>b. b \<noteq> null_block p) fs"
proof -
  have "req_ok p (blocks_of m rid) 0"
    using assms(1) mgr_invD(10) [of "\<lambda>_. 0" m p "free_list a" rid] by (auto simp: represents_def)
  then show ?thesis using assms(2) by (intro filter_cong refl) (auto simp: req_ok_def)
qed

lemma represents_simps:
  assumes "represents k a (m, p)"
  shows "mgr_inv (\<lambda>_. 0) m p (free_list a)" "mgr_const m = mgr_const k" "blocks_of m r = table_of a r"
    "cached_of m r = 0" "mgr_block_size m = mgr_block_size k" "mgr_null_block k = null_block p"
    "get_num_skipped_tokens m n = get_num_skipped_tokens k n" "mgr_class m = mgr_class k"
    "r \<in> set (long_requests m) \<longleftrightarrow> map_of (long_tails a) r \<noteq> None" "map_of (nelssa_tail_blocks m) r = map_of (long_tails a) r"
    "nelssa_head_size m = nelssa_head_size k" "nelssa_tail_size m = nelssa_tail_size k"
    "is_running m r \<longleftrightarrow> r \<in> set (admitted a)"
  using assms mgr_constD [of m k] mgr_invD(7) [of "\<lambda>_. 0" m p "free_list a"] by (auto simp: represents_def)

section \<open>Simulation\<close>

lemma nelssa_tables_upd [simp]:
  "long_requests (with_req rid m) = long_requests m" "nelssa_tail_blocks (with_req rid m) = nelssa_tail_blocks m"
  "long_requests (set_blocks rid bs m) = long_requests m" "nelssa_tail_blocks (set_blocks rid bs m) = nelssa_tail_blocks m"
  by (simp_all add: with_req_def set_blocks_def)

definition simulates :: "manager \<Rightarrow> allocator res \<Rightarrow> (manager \<times> block_pool) res \<Rightarrow> bool" where
  "simulates k r s \<longleftrightarrow>
     (case r of Inl e \<Rightarrow> s = Inl e | Inr a \<Rightarrow> (\<exists>t. s = Inr t \<and> represents k a t))"

lemma sim_admit:
  assumes rep: "represents k a (m, p)" and kind: "script_kind k"
  shows "simulates k (abs_step k (Admit rid) a) (script_step (Admit rid) (m, p))"
proof -
  note s = represents_simps [OF rep]
  have base: "script_step (Admit rid) (m, p) = base_allocate_new_computed_blocks rid [] 0 0 m p"
    using kind s(8) by (simp add: allocate_new_computed_blocks_def script_kind_def split: manager_class.split)
  have k0: "get_num_skipped_tokens m 0 = 0" using kind s(7) by (simp add: script_kind_def)
  show ?thesis
  proof (cases "is_running m rid")
    case True
    then show ?thesis
      unfolding base using rep s(13) by (simp add: simulates_def base_allocate_new_computed_blocks_def)
  next
    case nr: False
    show ?thesis
    proof (cases "table_of a rid = []")
      case False
      then show ?thesis
        unfolding base using nr s(3,13)
        by (simp add: simulates_def base_allocate_new_computed_blocks_def Let_def)
    next
      case True
      have tab: "computed_table m [] 0 = []" "used_hits m [] 0 = []" "external_blocks m [] 0 0 = 0"
        using k0 by (simp_all add: computed_table_def computed_skipped_def used_hits_def external_blocks_def)
      obtain m' p' where r: "base_allocate_new_computed_blocks rid [] 0 0 m p = Inr (m', p')"
        "mgr_inv (\<lambda>_. 0) m' p' (free_list a)" "mgr_const m' = mgr_const m"
        "\<And>r. blocks_of m' r = (if r = rid then [] else blocks_of m r)"
        "\<And>r. cached_of m' r = (if r = rid then 0 else cached_of m r)"
        "\<And>r. is_running m' r \<longleftrightarrow> r = rid \<or> is_running m r"
        using allocate_computed_inv(2) [OF s(1) nr, of "[]" 0 0 0] True s(3) tab by (auto simp: hits_ok_def)
      have "long_requests m' = long_requests m \<and> nelssa_tail_blocks m' = nelssa_tail_blocks m"
        using r(1) nr True s(3)
        by (auto simp: base_allocate_new_computed_blocks_def Let_def k0 rbind_eq_Inr set_cached_def set_blocks_def
            with_req_def split: if_splits)
      then have "represents k (a\<lparr>admitted := rid # admitted a\<rparr>) (m', p')"
        using r(2-6) s True by (auto simp: represents_def)
      then show ?thesis unfolding base using r(1) nr s(13) True by (simp add: simulates_def)
    qed
  qed
qed

lemma sim_alloc:
  assumes rep: "represents k a (m, p)" and kind: "script_kind k"
  shows "simulates k (abs_step k (Alloc rid n) a) (script_step (Alloc rid n) (m, p))"
proof -
  note s = represents_simps [OF rep]
  define d where "d = cdiv n (mgr_block_size m) - py_len (blocks_of m rid)"
  have base: "allocate_new_blocks rid n n m p = base_allocate_new_blocks rid n m p"
    using kind s(8) by (simp add: allocate_new_blocks_def script_kind_def split: manager_class.split)
  note b = base_allocate_new_blocks_inv [OF s(1) d_def]
  have abs: "abs_step k (Alloc rid n) a = (if d \<le> 0 then Inr a else if py_len (free_list a) < d then Inl ValueError
      else Inr (put_table rid (table_of a rid @ take (nat d) (free_list a)) (a\<lparr>free_list := drop (nat d) (free_list a)\<rparr>)))"
    by (simp add: abs_alloc_def d_def s(3,5) Let_def)
  consider "d \<le> 0" | "0 < d" "py_len (free_list a) < d" | "0 < d" "d \<le> py_len (free_list a)" by linarith
  then show ?thesis
  proof cases
    case 1
    have "represents k a (with_req rid m, p)"
      using rep mgr_inv_with_req [OF s(1), of rid] by (simp add: represents_def)
    then show ?thesis using 1 b(1) abs base by (simp add: simulates_def)
  next
    case 2
    then show ?thesis using b(2) abs base by (simp add: simulates_def)
  next
    case 3
    obtain m' p' where r: "base_allocate_new_blocks rid n m p = Inr (take (nat d) (free_list a), m', p')"
      "mgr_inv (\<lambda>_. 0) m' p' (drop (nat d) (free_list a))" "mgr_const m' = mgr_const m"
      "\<And>r. blocks_of m' r = (if r = rid then blocks_of m rid @ take (nat d) (free_list a) else blocks_of m r)"
      "\<And>r. cached_of m' r = cached_of m r" "\<And>r. is_running m' r = is_running m r"
      using b(3) [OF 3] by blast
    have "long_requests m' = long_requests m \<and> nelssa_tail_blocks m' = nelssa_tail_blocks m"
      using r(1) 3 by (auto simp: base_allocate_new_blocks_def Let_def rbind_eq_Inr set_blocks_def with_req_def
          record_new_ids_def d_def split: if_splits kv_cache_spec.splits)
    then have "represents k (put_table rid (table_of a rid @ take (nat d) (free_list a))
        (a\<lparr>free_list := drop (nat d) (free_list a)\<rparr>)) (m', p')"
      using r(2-6) s by (auto simp: represents_def)
    then show ?thesis using 3 abs base r(1) by (simp add: simulates_def)
  qed
qed

lemma sim_skip:
  assumes rep: "represents k a (m, p)" and kind: "script_kind k"
  shows "simulates k (abs_step k (Skip rid n) a) (script_step (Skip rid n) (m, p))"
proof -
  note s = represents_simps [OF rep]
  have base: "script_step (Skip rid n) (m, p) = base_remove_skipped_blocks rid n m p"
    using kind s(8) by (simp add: remove_skipped_blocks_def script_kind_def split: manager_class.split)
  show ?thesis
  proof (cases "get_num_skipped_tokens m n \<le> 0")
    case True
    then show ?thesis
      unfolding base using rep s(7) by (simp add: base_remove_skipped_blocks_def abs_skip_def simulates_def)
  next
    case False
    obtain fs bs where loop: "remove_loop (null_block p)
        (nat (min (get_num_skipped_tokens m n div mgr_block_size m) (py_len (blocks_of m rid)))) (blocks_of m rid)
        = (fs, bs)" by (metis surj_pair)
    define m' where "m' = set_blocks rid bs (with_req rid m)"
    obtain p' where r: "base_remove_skipped_blocks rid n m p = Inr (m', p')"
      "mgr_inv (\<lambda>_. 0) m' p' (free_list a @ filter (\<lambda>b. b \<noteq> null_block p \<and> refs p b = 1) fs)"
      "nulled (null_block p) (blocks_of m rid) bs fs"
      using base_remove_skipped_blocks_eq [OF s(1) _ loop] False unfolding m'_def by auto
    note inv' = r(2) [unfolded represents_refs [OF rep nulled_set(2) [OF r(3)]]]
    have "represents k (give_back (mgr_null_block k) fs (put_table rid bs a)) (m', p')"
      using inv' s by (auto simp: represents_def m'_def)
    moreover have "abs_skip k rid n a = give_back (mgr_null_block k) fs (put_table rid bs a)"
      using False loop by (simp add: abs_skip_def Let_def s(3,5,7) flip: s(6))
    ultimately show ?thesis unfolding base using r(1) by (simp add: simulates_def)
  qed
qed

lemma sim_finish:
  assumes rep: "represents k a (m, p)" and kind: "script_kind k"
  shows "simulates k (abs_step k (Finish rid) a) (script_step (Finish rid) (m, p))"
proof -
  note s = represents_simps [OF rep]
  obtain m' p' where r: "mgr_free rid m p = Inr (m', p')"
    "mgr_inv (\<lambda>_. 0) m' p' (free_list a @ filter (\<lambda>b. b \<noteq> null_block p \<and> refs p b = 1) (rev (blocks_of m rid)))"
    "mgr_const m' = mgr_const m" "\<And>r. blocks_of m' r = (if r = rid then [] else blocks_of m r)"
    "\<And>r. is_running m' r \<longleftrightarrow> r \<noteq> rid \<and> is_running m r"
    using mgr_free_inv [OF s(1), of rid] by blast
  have inv': "mgr_inv (\<lambda>_. 0) m' p' (free_list a @ filter (\<lambda>b. b \<noteq> null_block p) (rev (blocks_of m rid)))"
    using r(2) represents_refs [OF rep, of "rev (blocks_of m rid)" rid] by simp
  have m': "m' = m\<lparr>req_to_blocks := AList.delete rid (req_to_blocks m), num_cached_block := AList.delete rid (num_cached_block m)\<rparr>"
    using r(1) kind s(8) by (auto simp: mgr_free_def base_free_def script_kind_def Let_def rbind_eq_Inr)
  have rest: "cached_of m' q = 0" "long_requests m' = long_requests m" "nelssa_tail_blocks m' = nelssa_tail_blocks m" for q
    using s(4) [of q] by (simp_all add: m' cached_of_def delete_conv')
  have "represents k (give_back (mgr_null_block k) (rev (table_of a rid))
      (a\<lparr>tables := AList.delete rid (tables a), admitted := removeAll rid (admitted a)\<rparr>)) (m', p')"
    using inv' r(3-5) s rest by (auto simp: represents_def)
  then show ?thesis using r(1) by (simp add: simulates_def)
qed

lemma sim_long:
  assumes rep: "represents k a (m, p)"
  shows "simulates k (abs_step k (Long rid n) a) (script_step (Long rid n) (m, p))"
proof -
  note s = represents_simps [OF rep]
  have lay: "compute_tail_layout m n = compute_tail_layout k n"
    using s(5,12) by (simp add: compute_tail_layout_def)
  define m' where "m' = mark_long_request rid n m"
  have eq: "blocks_of m' r = blocks_of m r" "cached_of m' r = cached_of m r" "is_running m' r = is_running m r"
    "req_ids m' = req_ids m" "mgr_const m' = mgr_const m"
    "set (long_requests m') = insert rid (set (long_requests m))"
    "map_of (nelssa_tail_blocks m') = (map_of (nelssa_tail_blocks m))(rid \<mapsto> fst (compute_tail_layout k n))" for r
    using lay by (auto simp: m'_def mark_long_request_def blocks_of_def cached_of_def is_running_def req_ids_def
        mgr_const_def update_conv' split: prod.split)
  have "mgr_inv (\<lambda>_. 0) m' p (free_list a)"
    using mgr_invD(6,11) [OF s(1)] eq by (intro mgr_inv_same_tables [OF s(1)]) auto
  then have "represents k (a\<lparr>long_tails := AList.update rid (fst (compute_tail_layout k n)) (long_tails a)\<rparr>) (m', p)"
    using s eq by (auto simp: represents_def update_conv')
  then show ?thesis by (simp add: simulates_def m'_def)
qed

lemma sim_middle:
  assumes rep: "represents k a (m, p)" and kind: "script_kind k"
  shows "simulates k (abs_step k (Middle rid) a) (script_step (Middle rid) (m, p))"
proof -
  note s = represents_simps [OF rep]
  show ?thesis
  proof (cases "map_of (long_tails a) rid")
    case None
    then show ?thesis
      using rep s(9) [of rid] by (simp add: simulates_def abs_middle_def free_middle_blocks_def)
  next
    case (Some tail)
    then have long: "rid \<in> set (long_requests m)" using s(9) by simp
    have head: "0 \<le> nelssa_head_size m" using kind s(11) by (simp add: script_kind_def)
    let ?nb = "null_block p"
    define e where "e = py_len (table_of a rid) - max 0 tail"
    have se: "middle_start m = middle_start k" "middle_end m rid = e"
      using s(3,5,10,11) Some by (simp_all add: middle_start_def middle_end_def middle_tail_def e_def)
    obtain m' p' where r: "free_middle_blocks rid m p = Inr (m', p')" "mgr_const m' = mgr_const m"
      "mgr_inv (\<lambda>_. 0) m' p' (free_list a @ filter (\<lambda>b. b \<noteq> ?nb \<and> refs p b = 1) (map snd (middle_blocks ?nb m rid)))"
      "\<And>r. blocks_of m' r = (if r = rid then middle_nulled ?nb m rid else blocks_of m r)"
      "\<And>r. cached_of m' r = cached_of m r" "\<And>r. is_running m' r = is_running m r"
      "long_requests m' = long_requests m" "nelssa_tail_blocks m' = nelssa_tail_blocks m"
      using free_middle_blocks_exact [OF s(1) long head] by blast
    have sub: "set (map snd (middle_blocks ?nb m rid)) \<subseteq> set (blocks_of m rid)"
      using nulled_set(2) [OF middle_blocks_null_out(2) [OF mgr_invD(8) [OF s(1)] head]] by blast
    have filt: "filter (\<lambda>b. b \<noteq> ?nb) (map snd (middle_blocks ?nb m rid)) =
        filter (\<lambda>b. b \<noteq> ?nb) (map (\<lambda>i. table_of a rid ! nat i) [middle_start k..e - 1])"
      by (simp add: middle_blocks_def se s(3) filter_map comp_def case_prod_beta)
    note inv' = r(3) [unfolded represents_refs [OF rep sub] filt]
    have "abs_middle k rid a = give_back ?nb (map (\<lambda>i. table_of a rid ! nat i) [middle_start k..e - 1])
        (put_table rid (middle_nulled ?nb m rid) a)"
      using Some by (simp add: abs_middle_def Let_def e_def [symmetric] middle_nulled_def se s(3,6) cong: if_cong)
    moreover have "represents k (give_back ?nb (map (\<lambda>i. table_of a rid ! nat i) [middle_start k..e - 1])
        (put_table rid (middle_nulled ?nb m rid) a)) (m', p')"
      using inv' r(2,4-8) s by (auto simp: represents_def)
    ultimately show ?thesis using r(1) by (simp add: simulates_def)
  qed
qed

lemma sim_step:
  assumes "represents k a s" "script_kind k"
  shows "simulates k (abs_step k c a) (script_step c s)"
proof -
  obtain m p where s: "s = (m, p)" by fastforce
  then show ?thesis
    using assms sim_admit sim_alloc sim_skip sim_finish sim_long sim_middle by (cases c) auto
qed

lemma sim_run:
  assumes "represents k a s" "script_kind k"
  shows "simulates k (rfold (abs_step k) cs a) (rfold script_step cs s)"
  using assms(1)
proof (induction cs arbitrary: a s)
  case Nil
  then show ?case by (simp add: simulates_def)
next
  case (Cons c cs)
  note st = sim_step [OF Cons.prems assms(2), of c]
  show ?case
  proof (cases "abs_step k c a")
    case (Inl e)
    then show ?thesis using st by (simp add: simulates_def)
  next
    case (Inr a')
    then obtain s' where "script_step c s = Inr s'" "represents k a' s'" using st by (auto simp: simulates_def)
    then show ?thesis using Cons.IH Inr by simp
  qed
qed

end
