(* ===== verification/Manager_Props.thy ===== *)
theory Manager_Props
  imports Manager_Refinement
begin

text \<open>
  The properties of the single-type managers: the invariant of every reachable state of several
  managers on one pool, how many blocks the sliding-window and chunked-local managers hold and where
  their admission caps and estimates are too low, and the refinement of the list allocator.
\<close>

section \<open>Reachable states\<close>

text \<open>
  A new manager comes from the factory.  The sink manager is left out: it takes blocks from the
  free queue without referencing them.
\<close>

definition built_manager :: "block_pool \<Rightarrow> bool \<Rightarrow> manager \<Rightarrow> bool" where
  "built_manager p caching m \<longleftrightarrow> 0 < mgr_block_size m \<and> mgr_class m \<noteq> SinkFullAttentionManager \<and>
     (\<exists>spec batched len nelssa gid dcp pcp.
        get_manager_for_kv_cache_spec spec batched len nelssa caching gid dcp pcp p = Inr (m, p))"

inductive mgrs_reach :: "hash_env \<Rightarrow> manager list \<Rightarrow> block_pool \<Rightarrow> bool" for env where
  mgrs_init: "pool_init n caching hbs evs mets ih = Inr p \<Longrightarrow> list_all (built_manager p caching) ms \<Longrightarrow>
    mgrs_reach env ms p"
| mgrs_step: "mgrs_reach env (ms1 @ m # ms2) p \<Longrightarrow> mgr_step env m p m' p' \<Longrightarrow>
    mgrs_reach env (ms1 @ m' # ms2) p'"
| mgrs_evict: "mgrs_reach env ms p \<Longrightarrow> list_all (\<lambda>i. 0 \<le> i \<and> i < num_gpu_blocks p) bids \<Longrightarrow>
    evict_blocks bids p = Inr p' \<Longrightarrow> mgrs_reach env ms p'"
| mgrs_reset: "mgrs_reach env ms p \<Longrightarrow> mgrs_reach env ms (snd (pool_reset_prefix_cache p))"
| mgrs_events: "mgrs_reach env ms p \<Longrightarrow> mgrs_reach env ms (snd (pool_take_events p))"

abbreviation mgrs_inv :: "manager list \<Rightarrow> block_pool \<Rightarrow> blk list \<Rightarrow> bool" where
  "mgrs_inv \<equiv> clients_inv held mgr_wf"

lemma new_manager_tables:
  "req_to_blocks (new_manager cls spec p caching gid dcp pcp cap) = []"
  "num_cached_block (new_manager cls spec p caching gid dcp pcp cap) = []"
  "mgr_null_block (new_manager cls spec p caching gid dcp pcp cap) = null_block p"
  "mgr_enable_caching (new_manager cls spec p caching gid dcp pcp cap) = caching"
  "mgr_class (new_manager cls spec p caching gid dcp pcp cap) = cls"
  by (simp_all add: new_manager_def)

lemma built_manager_tables:
  assumes "built_manager p caching m"
  shows "req_to_blocks m = []" "num_cached_block m = []" "mgr_null_block m = null_block p"
    "mgr_enable_caching m = caching" "0 < mgr_block_size m"
  using assms
  by (auto simp: built_manager_def get_manager_for_kv_cache_spec_def new_sink_manager_def Let_def
      new_manager_tables rbind_eq_Inr split: option.splits kv_cache_spec.splits)

lemma built_manager_wf:
  assumes "built_manager p caching m" "enable_caching p = caching"
  shows "mgr_wf p m" "held m b = 0"
  using built_manager_tables [OF assms(1)] assms(2)
  by (auto simp: mgr_wf_def held_def is_running_def blocks_of_def cached_of_def req_ids_def)

lemma mgrs_pool_change:
  assumes inv: "mgrs_inv ms p xs" and p': "pool_inv p' xs" "pool_const p' = pool_const p"
    "\<And>c. refs p' c = refs p c" "\<And>b. hashes p b = None \<Longrightarrow> hashes p' b = None"
  shows "mgrs_inv ms p' xs"
proof -
  note c = pool_const_eqD [OF p'(2)]
  have "mgr_wf p' m" if "mgr_wf p m" for m
    by (rule mgr_wf_frame [OF that p'(2)]) (use p'(3,4) in auto)
  then have "list_all (mgr_wf p') ms" using inv by (auto simp: clients_inv_def list_all_iff)
  moreover have "caching_ok p'" using inv p'(4) c by (auto simp: clients_inv_def caching_ok_def)
  ultimately show ?thesis using inv p'(1,3) c by (simp add: clients_inv_def)
qed

lemma mgrs_reach_inv: "mgrs_reach env ms p \<Longrightarrow> \<exists>xs. mgrs_inv ms p xs"
proof (induction rule: mgrs_reach.induct)
  case (mgrs_init n caching hbs evs mets ih p ms)
  then have "0 < n" by (auto simp: pool_init_def py_assert_def rbind_def split: if_splits)
  from pool_init_state [OF this, of caching hbs evs mets ih] mgrs_init(1)
  have p: "pool_inv p (map Blk [1..<nat n])" "enable_caching p = caching" "\<And>b. refs p b = 0"
    "hashes p = (\<lambda>_. None)" by auto
  have "mgr_wf p m \<and> held m b = 0" if "m \<in> set ms" for m b
    using built_manager_wf [OF _ p(2)] mgrs_init(2) that by (simp add: list_all_iff)
  moreover from this have "sum_list (map (\<lambda>m. held m b) ms) = 0" for b
    by (intro sum_list_nonneg_eq_0_iff [THEN iffD2]) auto
  ultimately have "mgrs_inv ms p (map Blk [1..<nat n])"
    using p by (auto simp: clients_inv_def caching_ok_def list_all_iff)
  then show ?case ..
next
  case (mgrs_step ms1 m ms2 p m' p')
  then show ?case using mc.step_one by blast
next
  case (mgrs_evict ms p bids p')
  then obtain xs where xs: "mgrs_inv ms p xs" by blast
  then have "pool_inv p xs" by (simp add: clients_inv_def)
  then have "pool_inv p' xs" "pool_const p' = pool_const p" "\<And>c. refs p' c = refs p c"
      "\<And>b. hashes p b = None \<Longrightarrow> hashes p' b = None"
    using evict_blocks_state [OF _ mgrs_evict(2), of xs] mgrs_evict(3) by auto
  from mgrs_pool_change [OF xs this] show ?case ..
next
  case (mgrs_reset ms p)
  then obtain xs where xs: "mgrs_inv ms p xs" by blast
  then have pinv: "pool_inv p xs" by (simp add: clients_inv_def)
  show ?case
  proof (cases "py_len xs = num_gpu_blocks p - 1")
    case True
    then show ?thesis using mgrs_pool_change [OF xs] pool_reset_state [OF pinv True] by force
  next
    case False
    then show ?thesis using pool_reset_fails [OF pinv False] xs by auto
  qed
next
  case (mgrs_events ms p)
  then obtain xs where xs: "mgrs_inv ms p xs" by blast
  let ?q = "snd (pool_take_events p)"
  have q: "heap ?q = heap p" "num_free_blocks ?q = num_free_blocks p" "pool_const ?q = pool_const p"
    "cached_block_hash_to_block ?q = cached_block_hash_to_block p"
    by (simp_all add: pool_take_events_def)
  then show ?case
    using mgrs_pool_change [OF xs, of ?q] pool_state_cong [OF q(1,2,4,3)] xs by (auto simp: clients_inv_def)
qed

lemma mgrs_inv_mgr_inv:
  assumes "mgrs_inv (ms1 @ m # ms2) p xs"
  shows "mgr_inv (\<lambda>b. sum_list (map (\<lambda>m. held m b) (ms1 @ ms2))) m p xs"
proof -
  have "0 \<le> held n b" if "n \<in> set (ms1 @ ms2)" for n b
    using assms that held_nonneg by (auto simp: clients_inv_def mgr_wf_def list_all_iff)
  then show ?thesis
    using assms by (auto simp: clients_inv_def mgr_inv_def intro!: add_nonneg_nonneg sum_list_nonneg)
qed

lemma mgrs_inv_mem:
  assumes "mgrs_inv ms p xs" "m \<in> set ms"
  shows "\<exists>oth. mgr_inv oth m p xs"
  using assms(2) mgrs_inv_mgr_inv assms(1) by (metis split_list)

lemma held_pos_iff:
  assumes "distinct (req_ids m)"
  shows "held m b = 0 \<longleftrightarrow> (\<forall>r. b \<notin> set (blocks_of m r))"
proof
  assume "held m b = 0"
  then show "\<forall>r. b \<notin> set (blocks_of m r)"
    using held_ge_count [OF assms, of _ b] by (auto simp: count_list_0_iff)
next
  assume "\<forall>r. b \<notin> set (blocks_of m r)"
  then show "held m b = 0" by (simp add: held_sum [OF assms] count_notin)
qed

lemma reach_accounting:
  assumes "mgrs_reach env ms p"
  shows "\<exists>xs. get_all_free_blocks p = Some (Inr xs)
    \<and> (\<forall>b. usable p b \<longrightarrow> refs p b = sum_list (map (\<lambda>m. held m b) ms))
    \<and> (\<forall>b. b \<in> set xs \<longleftrightarrow> usable p b \<and> (\<forall>m \<in> set ms. \<forall>r. b \<notin> set (blocks_of m r)))
    \<and> (\<forall>m \<in> set ms. \<forall>r. distinct (filter (\<lambda>b. b \<noteq> null_block p) (blocks_of m r)))
    \<and> (\<forall>m \<in> set ms. \<forall>r. \<forall>b \<in> set (drop (nat (cached_of m r)) (blocks_of m r)).
         b \<noteq> null_block p \<longrightarrow> hashes p b = None \<and> refs p b = 1)"
proof -
  obtain xs where inv: "mgrs_inv ms p xs" using mgrs_reach_inv [OF assms] by blast
  then have pinv: "pool_inv p xs" and sums: "\<And>b. usable p b \<Longrightarrow> refs p b = sum_list (map (\<lambda>m. held m b) ms)"
    by (auto simp: clients_inv_def)
  have wf: "distinct (req_ids m)" "req_ok p (blocks_of m r) (cached_of m r)" "0 \<le> held m b"
    if "m \<in> set ms" for m r b
    using inv that held_nonneg by (auto simp: clients_inv_def mgr_wf_def list_all_iff)
  have "b \<in> set xs \<longleftrightarrow> usable p b \<and> (\<forall>m \<in> set ms. \<forall>r. b \<notin> set (blocks_of m r))" for b
  proof -
    have "sum_list (map (\<lambda>m. held m b) ms) = 0 \<longleftrightarrow> (\<forall>m \<in> set ms. held m b = 0)"
      using wf(3) by (subst sum_list_nonneg_eq_0_iff) auto
    moreover have "(\<forall>m \<in> set ms. held m b = 0) \<longleftrightarrow> (\<forall>m \<in> set ms. \<forall>r. b \<notin> set (blocks_of m r))"
      using held_pos_iff [OF wf(1)] by blast
    ultimately show ?thesis
      using pool_inv_free_iff [OF pinv, of b] sums [of b] by auto
  qed
  moreover have "get_all_free_blocks p = Some (Inr xs)"
    using pinv fq.all_free_rel unfolding pool_state_def by blast
  ultimately show ?thesis
    using sums wf(2) by (intro exI [of _ xs]) (auto simp: req_ok_def)
qed

text \<open>
  C5. In every state that several managers can reach on one pool, the reference count of a block
  is the number of its entries in the tables of all requests, the free queue holds exactly the
  blocks in no table, no request has a block twice, and a block past the registered prefix of a
  request is unregistered and belongs to that request alone.
\<close>

theorem managers_reachable_invariant:
  assumes "mgrs_reach env ms p"
  shows "\<exists>xs. get_all_free_blocks p = Some (Inr xs)
    \<and> (\<forall>b. usable p b \<longrightarrow> refs p b = sum_list (map (\<lambda>m. held m b) ms))
    \<and> (\<forall>b. b \<in> set xs \<longleftrightarrow> usable p b \<and> (\<forall>m \<in> set ms. \<forall>r. b \<notin> set (blocks_of m r)))
    \<and> (\<forall>m \<in> set ms. \<forall>r. distinct (filter (\<lambda>b. b \<noteq> null_block p) (blocks_of m r)))
    \<and> (\<forall>m \<in> set ms. \<forall>r. \<forall>b \<in> set (drop (nat (cached_of m r)) (blocks_of m r)).
         b \<noteq> null_block p \<longrightarrow> hashes p b = None \<and> refs p b = 1)"
  by (rule reach_accounting [OF assms])

definition demo_mgr :: "block_pool \<Rightarrow> manager" where
  "demo_mgr p = new_manager FullAttentionManager (FullAttentionSpec (demo_spec 64\<lparr>a_block_size := 2\<rparr>)) p True 0 1 1 None"

lemma demo_mgr_built: "built_manager p True (demo_mgr p)"
  unfolding built_manager_def
  by (intro conjI exI [of _ "FullAttentionSpec (demo_spec 64\<lparr>a_block_size := 2\<rparr>)"] exI [of _ 8]
      exI [of _ 100] exI [of _ None] exI [of _ 0] exI [of _ 1])
    (simp_all add: demo_mgr_def new_manager_def demo_spec_def get_manager_for_kv_cache_spec_def)

lemma demo_mgr_inv: "mgr_inv (\<lambda>_. 0) (demo_mgr demo_pool) demo_pool [Blk 1, Blk 2, Blk 3, Blk 4]"
  using built_manager_wf [OF demo_mgr_built, of demo_pool] demo_pool_inv
  by (simp add: mgr_inv_def caching_ok_def)

theorem managers_reachable_invariant_witness:
  "\<exists>m p xs. mgrs_reach demo_env [m] p \<and> py_len (blocks_of m ''a'') = 2 \<and>
     get_all_free_blocks p = Some (Inr xs) \<and>
     (\<forall>b. b \<in> set xs \<longleftrightarrow> usable p b \<and> (\<forall>r. b \<notin> set (blocks_of m r)))"
proof -
  have start: "mgrs_reach demo_env [demo_mgr demo_pool] demo_pool"
    using demo_mgr_built by (intro mgrs_init [OF demo_pool_init]) simp
  have n: "2 = cdiv 3 (mgr_block_size (demo_mgr demo_pool)) - py_len (blocks_of (demo_mgr demo_pool) ''a'')"
    by (simp add: demo_mgr_def new_manager_def demo_spec_def blocks_of_def cdiv_def)
  obtain m p where mp: "base_allocate_new_blocks ''a'' 3 (demo_mgr demo_pool) demo_pool
      = Inr (take (nat 2) [Blk 1, Blk 2, Blk 3, Blk 4], m, p)"
    "blocks_of m ''a'' = blocks_of (demo_mgr demo_pool) ''a'' @ take (nat 2) [Blk 1, Blk 2, Blk 3, Blk 4]"
    using base_allocate_new_blocks_inv(3) [OF demo_mgr_inv n] by (auto simp: py_len_def)
  then have "mgr_step demo_env (demo_mgr demo_pool) demo_pool m p"
    by (intro step_alloc [where rid = "''a''" and tokens = 3 and main = 3])
      (auto simp: allocate_new_blocks_def is_align_def demo_mgr_def new_manager_def)
  then have reach: "mgrs_reach demo_env [m] p"
    using mgrs_step [of demo_env "[]" "demo_mgr demo_pool" "[]"] start by simp
  moreover have "py_len (blocks_of m ''a'') = 2"
    using mp(2) by (simp add: demo_mgr_def new_manager_def blocks_of_def)
  ultimately show ?thesis
    using managers_reachable_invariant [OF reach] by auto
qed

section \<open>Blocks kept for an attention window\<close>

lemma py_len_filter_le: "py_len (filter P xs) \<le> py_len xs"
  by (simp add: py_len_def)

lemma null_prefix_take: "null_prefix nb bs \<Longrightarrow> null_prefix nb (take n bs)"
  by (simp add: null_prefix_def)

text \<open>
  After the release and the allocation for the next tokens, the request's table has one entry per
  block of tokens, and the entries before the window are null.
\<close>

lemma window_entries:
  assumes inv: "mgr_inv oth m p xs" and cls: "mgr_class m \<noteq> MambaManager"
    and skip: "k = get_num_skipped_tokens m c div mgr_block_size m" "0 \<le> get_num_skipped_tokens m c"
      "k \<le> py_len (blocks_of m rid)"
    and pre: "null_prefix (null_block p) (blocks_of m rid)"
    and fits: "py_len (blocks_of m rid) \<le> cdiv tokens (mgr_block_size m)"
    and rel: "remove_skipped_blocks rid c m p = Inr (m1, p1)"
    and alloc: "allocate_new_blocks rid tokens main m1 p1 = Inr (new, m2, p2)"
  shows "blocks_of m2 rid = replicate (nat k) (null_block p) @ drop (nat k) (blocks_of m rid) @ new \<and>
    py_len new = cdiv tokens (mgr_block_size m) - py_len (blocks_of m rid) \<and> null_block p \<notin> set new"
proof -
  let ?bs = "blocks_of m rid" and ?nb = "null_block p"
  have base: "base_remove_skipped_blocks rid c m p = Inr (m1, p1)"
    using rel cls by (simp add: remove_skipped_blocks_def split: manager_class.splits)
  have nk: "nat k \<le> length ?bs" using skip(3) by (simp add: py_len_def)
  have tab: "blocks_of m1 rid = replicate (nat k) ?nb @ drop (nat k) ?bs" and const: "mgr_const m1 = mgr_const m"
  proof -
    have "blocks_of m1 rid = replicate (nat k) ?nb @ drop (nat k) ?bs \<and> mgr_const m1 = mgr_const m"
    proof (cases "get_num_skipped_tokens m c \<le> 0")
      case True
      then have "k = 0" using skip by simp
      then show ?thesis using base True by (simp add: base_remove_skipped_blocks_def)
    next
      case False
      have "min k (py_len ?bs) = k" using skip(3) by simp
      then show ?thesis
        using base False remove_loop_prefix [OF nk null_prefix_take [OF pre]] skip(1) mgr_invD(7) [OF inv]
        by (auto simp: base_remove_skipped_blocks_def Let_def rbind_eq_Inr)
    qed
    then show "blocks_of m1 rid = replicate (nat k) ?nb @ drop (nat k) ?bs" "mgr_const m1 = mgr_const m" by auto
  qed
  have len1: "py_len (blocks_of m1 rid) = py_len ?bs" using nk by (simp add: tab py_len_def)
  obtain xs1 where inv1: "mgr_inv oth m1 p1 xs1"
    using remove_step [OF inv rel] by (auto simp: mgr_ok_step_def)
  have nb: "null_block p1 = ?nb"
    using mgr_invD(7) [OF inv1] mgr_invD(7) [OF inv] mgr_constD(7) [OF const] by simp
  have free: "?nb \<notin> set (take i xs1)" for i
    using pool_inv_free_iff [OF mgr_invD(1) [OF inv1], of ?nb] nb by (auto simp: usable_def dest: in_set_takeD)
  have "base_allocate_new_blocks rid tokens m1 p1 = Inr (new, m2, p2)"
    using alloc cls mgr_constD(1) [OF const] by (simp add: allocate_new_blocks_def split: manager_class.splits)
  then have "blocks_of m2 rid = blocks_of m1 rid @ new \<and>
      py_len new = cdiv tokens (mgr_block_size m) - py_len ?bs \<and> ?nb \<notin> set new"
    using base_allocate_new_blocks_inv [OF inv1 refl, of tokens rid] len1 fits mgr_constD(2) [OF const] free
    by (cases "cdiv tokens (mgr_block_size m) - py_len ?bs \<le> 0";
        cases "cdiv tokens (mgr_block_size m) - py_len ?bs \<le> py_len xs1") (auto simp: py_len_def)
  then show ?thesis by (simp add: tab)
qed

lemma window_table:
  assumes inv: "mgr_inv oth m p xs" and cls: "mgr_class m \<noteq> MambaManager"
    and skip: "k = get_num_skipped_tokens m c div mgr_block_size m" "0 \<le> get_num_skipped_tokens m c"
      "k \<le> py_len (blocks_of m rid)"
    and pre: "null_prefix (null_block p) (blocks_of m rid)"
    and fits: "py_len (blocks_of m rid) \<le> cdiv tokens (mgr_block_size m)"
    and rel: "remove_skipped_blocks rid c m p = Inr (m1, p1)"
    and alloc: "allocate_new_blocks rid tokens main m1 p1 = Inr (new, m2, p2)"
  shows "py_len (filter (\<lambda>b. b \<noteq> null_block p) (blocks_of m2 rid)) \<le> cdiv tokens (mgr_block_size m) - k"
    "null_block p \<notin> set (drop (nat k) (blocks_of m rid)) \<Longrightarrow>
      py_len (filter (\<lambda>b. b \<noteq> null_block p) (blocks_of m2 rid)) = cdiv tokens (mgr_block_size m) - k"
proof -
  let ?bs = "blocks_of m rid" and ?P = "\<lambda>b. b \<noteq> null_block p"
  note e = window_entries [OF assms]
  have k0: "0 \<le> k" using skip(1,2) mgr_invD(8) [OF inv] by (simp add: pos_imp_zdiv_nonneg_iff)
  have "filter ?P new = new" using e by (intro filter_True) auto
  then have held: "py_len (filter ?P (blocks_of m2 rid)) = py_len (filter ?P (drop (nat k) ?bs)) + py_len new"
    using e by simp
  have len: "py_len (drop (nat k) ?bs) = py_len ?bs - k" using k0 skip(3) by (simp add: py_len_def)
  show "py_len (filter ?P (blocks_of m2 rid)) \<le> cdiv tokens (mgr_block_size m) - k"
    using held len e py_len_filter_le [of ?P "drop (nat k) ?bs"] by linarith
  assume "null_block p \<notin> set (drop (nat k) ?bs)"
  then have "filter ?P (drop (nat k) ?bs) = drop (nat k) ?bs" by (intro filter_True) auto
  then show "py_len (filter ?P (blocks_of m2 rid)) = cdiv tokens (mgr_block_size m) - k"
    using held len e by simp
qed

lemma skipped_covered:
  fixes bs :: int
  assumes "0 < bs" "0 \<le> skip" "skip \<le> c" "c \<le> n * bs"
  shows "skip div bs \<le> n"
proof -
  have "skip div bs \<le> (n * bs) div bs" using assms by (intro zdiv_mono1) auto
  then show ?thesis using assms(1) by simp
qed

text \<open>
  C25. A sliding-window request never holds more blocks than its admission cap: after
  \<^verbatim>\<open>remove_skipped_blocks\<close> and \<^verbatim>\<open>allocate_new_blocks\<close> for the next scheduled tokens, the blocks it
  holds besides the null block are at most \<^verbatim>\<open>max_admission_blocks_per_request\<close>.
\<close>

theorem sliding_window_blocks_bounded:
  assumes inv: "mgr_inv oth m p xs" and cls: "mgr_class m = SlidingWindowManager"
    and spec: "mgr_block_size m = a_block_size s" "sliding_window m = s_sliding_window s" "0 < s_sliding_window s"
    and step: "0 \<le> c" "0 \<le> n" "n \<le> batched" "c + n \<le> len"
    and table: "null_prefix (null_block p) (blocks_of m rid)"
      "c \<le> py_len (blocks_of m rid) * mgr_block_size m"
      "py_len (blocks_of m rid) \<le> cdiv (c + n) (mgr_block_size m)"
    and run: "remove_skipped_blocks rid c m p = Inr (m1, p1)"
      "allocate_new_blocks rid (c + n) main m1 p1 = Inr (new, m2, p2)"
  shows "py_len (filter (\<lambda>b. b \<noteq> null_block p) (blocks_of m2 rid)) \<le> sliding_max_admission s batched len"
proof -
  let ?skip = "get_num_skipped_tokens m c" and ?bs = "mgr_block_size m"
  note bs = mgr_invD(8) [OF inv]
  have skip: "?skip = max 0 (c - s_sliding_window s + 1)"
    using cls spec(2) by (simp add: get_num_skipped_tokens_def)
  have "py_len (filter (\<lambda>b. b \<noteq> null_block p) (blocks_of m2 rid)) \<le> cdiv (c + n) ?bs - ?skip div ?bs"
    using skip spec(3) step(1) bs table(2)
    by (intro window_table(1) [OF inv _ refl _ _ table(1,3) run] skipped_covered [of _ _ c]) (auto simp: cls)
  also have "\<dots> \<le> cdiv (c + n - ?skip) ?bs + 1"
    using skip spec(3) step(1,2) by (intro token_range_blocks bs) auto
  also have "\<dots> \<le> cdiv (min (s_sliding_window s - 1 + batched) len) ?bs + 1"
    using skip step by (intro add_right_mono cdiv_mono bs) auto
  finally show ?thesis using spec(1) by (simp add: sliding_max_admission_def)
qed

definition demo_window_spec :: "int \<Rightarrow> sliding_window_spec" where
  "demo_window_spec w = \<lparr>a_block_size = 2, a_num_kv_heads = 1, a_head_size = 8, a_dtype = ''bfloat16'',
     a_kv_quant_mode = QUANT_NONE, a_page_size_padded = None, s_sliding_window = w, s_head_size_v = Some 8\<rparr>"

definition demo_window_mgr :: "block_pool \<Rightarrow> manager" where
  "demo_window_mgr p = (new_manager SlidingWindowManager (SlidingWindowSpec (demo_window_spec 2)) p True 0 1 1
     (Some (sliding_max_admission (demo_window_spec 2) 1 20)))\<lparr>sliding_window := 2\<rparr>"

lemma demo_window_mgr_factory:
  "get_manager_for_kv_cache_spec (SlidingWindowSpec (demo_window_spec 2)) 1 20 None True 0 1 1 p
     = Inr (demo_window_mgr p, p)"
  by (simp add: get_manager_for_kv_cache_spec_def demo_window_mgr_def demo_window_spec_def)

lemma demo_window_mgr_built: "built_manager p True (demo_window_mgr p)"
  using demo_window_mgr_factory [of p] unfolding built_manager_def
  by (intro conjI exI) (auto simp: demo_window_mgr_def new_manager_def demo_window_spec_def)

text \<open>Scripts run inside the step relation.\<close>

lemma script_step_mgr_step:
  assumes "script_step c (m, p) = Inr (m', p')" "mgr_class m \<noteq> MambaManager" "0 \<le> nelssa_head_size m"
  shows "mgr_step env m p m' p'"
proof (cases c)
  case (Admit rid)
  have "computed_ready p m rid [] 0 0"
    by (simp add: computed_ready_def hits_ok_def external_blocks_def Let_def)
  then show ?thesis using assms(1) Admit by (auto intro: step_computed)
next
  case (Alloc rid n)
  then show ?thesis
    using assms by (auto simp: rbind_eq_Inr is_align_def intro: step_alloc)
qed (use assms in \<open>auto intro: mgr_step.intros\<close>)

lemma script_step_const:
  assumes "script_step c (m, p) = Inr (m', p')" "mgr_inv oth m p xs" "mgr_class m \<noteq> MambaManager" "0 \<le> nelssa_head_size m"
  shows "mgr_const m' = mgr_const m"
  using mgr_step_ok [OF script_step_mgr_step [OF assms(1,3,4), of demo_env] assms(2)] by (simp add: mgr_ok_step_def)

lemma script_reach:
  assumes "rfold script_step cs (m, p) = Inr (m', p')" "mgrs_reach env [m] p" "mgr_class m \<noteq> MambaManager"
    "0 \<le> nelssa_head_size m"
  shows "mgrs_reach env [m'] p'"
  using assms
proof (induction cs arbitrary: m p)
  case (Cons c cs)
  obtain m1 p1 where s: "script_step c (m, p) = Inr (m1, p1)" "rfold script_step cs (m1, p1) = Inr (m', p')"
    using Cons.prems(1) by (auto simp: rbind_eq_Inr)
  obtain oth xs where "mgr_inv oth m p xs"
    using mgrs_reach_inv [OF Cons.prems(2)] mgrs_inv_mem [of "[m]" p _ m] by fastforce
  note k = mgr_constD [OF script_step_const [OF s(1) this Cons.prems(3,4)]]
  have "mgrs_reach env [m1] p1"
    using mgrs_step [of env "[]" m "[]"] script_step_mgr_step [OF s(1) Cons.prems(3,4)] Cons.prems(2) by simp
  then show ?case using Cons.IH [OF s(2)] Cons.prems(3,4) k by simp
qed simp

text \<open>A freshly built manager on a fresh pool represents the empty allocator.\<close>

definition fresh_allocator :: "int \<Rightarrow> allocator" where
  "fresh_allocator n = \<lparr>free_list = map Blk [1..<nat n], tables = [], long_tails = [], admitted = []\<rparr>"

lemma fresh_represents:
  assumes "pool_init n True hbs False None False = Inr p" "built_manager p True k" "long_requests k = []"
    "nelssa_tail_blocks k = []"
  shows "represents k (fresh_allocator n) (k, p)"
proof -
  have "0 < n" using assms(1) by (auto simp: pool_init_def py_assert_def rbind_def split: if_splits)
  then have p: "pool_inv p (map Blk [1..<nat n])" "enable_caching p" "\<And>b. refs p b = 0"
    using pool_init_state [of n True hbs False None False] assms(1) by auto
  have "mgr_inv (\<lambda>_. 0) k p (map Blk [1..<nat n])"
    using p built_manager_wf [OF assms(2)] by (simp add: mgr_inv_def caching_ok_def)
  moreover note built_manager_tables [OF assms(2)]
  ultimately show ?thesis
    using assms(3,4) by (simp add: represents_def fresh_allocator_def blocks_of_def cached_of_def table_of_def is_running_def)
qed

lemma script_run:
  assumes "pool_init n True hbs False None False = Inr p" "built_manager p True k" "long_requests k = []"
    "nelssa_tail_blocks k = []" "script_kind k" "rfold (abs_step k) cs (fresh_allocator n) = Inr a"
  obtains m q where "rfold script_step cs (k, p) = Inr (m, q)" "represents k a (m, q)" "mgrs_reach env [m] q"
proof -
  obtain m q where r: "rfold script_step cs (k, p) = Inr (m, q)" "represents k a (m, q)"
    using sim_run [OF fresh_represents [OF assms(1-4)] assms(5), of cs] assms(6) by (auto simp: simulates_def)
  moreover have "mgrs_reach env [m] q"
  proof (rule script_reach [OF r(1)])
    show "mgrs_reach env [k] p" using assms(2) by (intro mgrs_init [OF assms(1)]) simp
  qed (use assms(5) in \<open>auto simp: script_kind_def\<close>)
  ultimately show thesis by (rule that)
qed

lemma represents_alloc_error:
  assumes "represents k a (m, p)" "script_kind k" "abs_alloc k rid tokens a = Inl e"
  shows "allocate_new_blocks rid tokens tokens m p = Inl e"
  using sim_alloc [OF assms(1,2), of rid tokens] assms(3)
  by (cases "allocate_new_blocks rid tokens tokens m p") (auto simp: simulates_def)

definition demo_small_pool :: block_pool where
  "demo_small_pool = (case pool_init 3 True 2 False None False of Inr p \<Rightarrow> p | Inl _ \<Rightarrow> undefined)"

lemma demo_small_pool_init: "pool_init 3 True 2 False None False = Inr demo_small_pool"
  using pool_init_state [of 3 True 2 False None False] by (auto simp: demo_small_pool_def)

definition window_script :: "script_op list" where
  "window_script = [Admit ''a'', Alloc ''a'' 4, Skip ''a'' 3, Admit ''b'', Alloc ''b'' 2, Skip ''a'' 4]"

lemma demo_window_kind:
  "script_kind (demo_window_mgr p)" "long_requests (demo_window_mgr p) = []" "nelssa_tail_blocks (demo_window_mgr p) = []"
  by (simp_all add: script_kind_def get_num_skipped_tokens_def demo_window_mgr_def new_manager_def)

lemma window_script_abs:
  assumes "null_block p = Blk 0"
  shows "rfold (abs_step (demo_window_mgr p)) window_script (fresh_allocator 3) =
    Inr \<lparr>free_list = [], tables = [(''a'', [Blk 0, Blk 2]), (''b'', [Blk 1])], long_tails = [], admitted = [''b'', ''a'']\<rparr>"
  using assms
  by (simp add: window_script_def fresh_allocator_def abs_alloc_def abs_skip_def demo_window_mgr_def new_manager_def
      demo_window_spec_def table_of_def put_table_def give_back_def get_num_skipped_tokens_def cdiv_def py_len_def
      numeral_2_eq_2 numeral_3_eq_3 upt_rec)

lemma demo_small_pool_null: "null_block demo_small_pool = Blk 0"
  using pool_init_state [of 3 True 2 False None False] demo_small_pool_init by (auto simp: pool_state_def pool_wf_def)

lemma window_state:
  obtains m p where "mgrs_reach env [m] p"
    "represents (demo_window_mgr demo_small_pool)
       \<lparr>free_list = [], tables = [(''a'', [Blk 0, Blk 2]), (''b'', [Blk 1])], long_tails = [], admitted = [''b'', ''a'']\<rparr> (m, p)"
  using script_run [OF demo_small_pool_init demo_window_mgr_built demo_window_kind(2,3,1)
      window_script_abs [OF demo_small_pool_null], of env] by blast

lemma represents_free: "represents k a (m, p) \<Longrightarrow> get_num_free_blocks p = py_len (free_list a)"
  using mgr_invD(1) [OF represents_simps(1)] fq.rel_wf
  by (fastforce simp: get_num_free_blocks_def pool_state_def)

text \<open>
  C38. The admission estimate of a sliding-window manager can be too low for a running request: the
  cap limits the number of required blocks but the null entries of the table still count as held.
  In a reachable state without free blocks the estimate is 0, yet the allocation needs a block and
  raises \<^verbatim>\<open>ValueError\<close>.
\<close>

theorem sliding_window_estimate_too_low:
  "\<exists>m p. mgrs_reach env [m] p \<and> mgr_class m = SlidingWindowManager \<and> is_running m ''a'' \<and>
     get_num_free_blocks p = 0 \<and> get_num_blocks_to_allocate ''a'' 5 [] 4 5 m p = Inr (0, m) \<and>
     allocate_new_blocks ''a'' 5 5 m p = Inl ValueError"
proof -
  obtain m p where reach: "mgrs_reach env [m] p" and rep: "represents (demo_window_mgr demo_small_pool)
      \<lparr>free_list = [], tables = [(''a'', [Blk 0, Blk 2]), (''b'', [Blk 1])], long_tails = [], admitted = [''b'', ''a'']\<rparr> (m, p)"
    by (rule window_state)
  note s = represents_simps [OF rep]
  have cls: "mgr_class m = SlidingWindowManager" and cap: "max_admission m = Some 2" and bs: "mgr_block_size m = 2"
    using mgr_constD [OF s(2)]
    by (simp_all add: demo_window_mgr_def new_manager_def demo_window_spec_def sliding_max_admission_def cdiv_def)
  have run: "is_running m ''a''" and tab: "blocks_of m ''a'' = [Blk 0, Blk 2]"
    using s(3) [of "''a''"] s(13) [of "''a''"] by (simp_all add: table_of_def)
  have "allocate_new_blocks ''a'' 5 5 m p = Inl ValueError"
    by (rule represents_alloc_error [OF rep demo_window_kind(1)])
      (simp add: abs_alloc_def table_of_def demo_window_mgr_def new_manager_def demo_window_spec_def cdiv_def)
  moreover have "get_num_blocks_to_allocate ''a'' 5 [] 4 5 m p = Inr (0, m)"
    using cls cap bs run tab
    by (simp add: get_num_blocks_to_allocate_def base_get_num_blocks_to_allocate_def cdiv_def)
  moreover have "get_num_free_blocks p = 0" using represents_free [OF rep] by simp
  ultimately show ?thesis using reach cls run by blast
qed

theorem sliding_window_blocks_bounded_witness:
  "\<exists>m p m1 p1 new m2 p2. blocks_of m ''a'' = [Blk 0, Blk 2] \<and>
     remove_skipped_blocks ''a'' 4 m p = Inr (m1, p1) \<and>
     allocate_new_blocks ''a'' (4 + 0) 4 m1 p1 = Inr (new, m2, p2) \<and>
     py_len (filter (\<lambda>b. b \<noteq> null_block p) (blocks_of m2 ''a'')) \<le> sliding_max_admission (demo_window_spec 2) 1 20"
proof -
  obtain m p where rep: "represents (demo_window_mgr demo_small_pool)
      \<lparr>free_list = [], tables = [(''a'', [Blk 0, Blk 2]), (''b'', [Blk 1])], long_tails = [], admitted = [''b'', ''a'']\<rparr> (m, p)"
    using window_state [of demo_env] by blast
  note s = represents_simps [OF rep]
  have k: "mgr_class m = SlidingWindowManager" "mgr_block_size m = 2" "sliding_window m = 2" "null_block p = Blk 0"
    using s(2,6) demo_small_pool_null
    by (simp_all add: mgr_const_def demo_window_mgr_def new_manager_def demo_window_spec_def)
  have tab: "blocks_of m ''a'' = [Blk 0, Blk 2]" using s(3) [of "''a''"] by (simp add: table_of_def)
  obtain m1 p1 xs1 where r: "remove_skipped_blocks ''a'' 4 m p = Inr (m1, p1)" "mgr_inv (\<lambda>_. 0) m1 p1 xs1"
    "length (blocks_of m1 ''a'') = 2" "mgr_const m1 = mgr_const m"
    using base_remove_skipped_blocks_inv [OF s(1), of "''a''" 4] k(1) tab
    by (auto simp: remove_skipped_blocks_def nulled_def)
  have "base_allocate_new_blocks ''a'' 4 m1 p1 = Inr ([], with_req ''a'' m1, p1)"
    using base_allocate_new_blocks_inv(1) [OF r(2) refl, of 4 "''a''"] r(3) k(2) mgr_constD(2) [OF r(4)]
    by (simp add: cdiv_def py_len_def)
  then have a: "allocate_new_blocks ''a'' (4 + 0) 4 m1 p1 = Inr ([], with_req ''a'' m1, p1)"
    using k(1) mgr_constD(1) [OF r(4)] by (simp add: allocate_new_blocks_def)
  have "null_prefix (null_block p) (blocks_of m ''a'')"
    by (auto simp: null_prefix_def tab k(4) less_Suc_eq nth_Cons split: nat.splits)
  then have "py_len (filter (\<lambda>b. b \<noteq> null_block p) (blocks_of (with_req ''a'' m1) ''a''))
      \<le> sliding_max_admission (demo_window_spec 2) 1 20"
    using k tab
    by (intro sliding_window_blocks_bounded [OF s(1) k(1) _ _ _ _ _ _ _ _ _ _ r(1) a])
      (simp_all add: demo_window_spec_def py_len_def cdiv_def)
  then show ?thesis using tab r(1) a by blast
qed

section \<open>Chunked local attention\<close>

definition demo_chunk_spec :: "int \<Rightarrow> chunked_local_attention_spec" where
  "demo_chunk_spec c = \<lparr>a_block_size = 4, a_num_kv_heads = 1, a_head_size = 8, a_dtype = ''bfloat16'',
     a_kv_quant_mode = QUANT_NONE, a_page_size_padded = None, c_attention_chunk_size = c\<rparr>"

definition demo_chunk_mgr :: "int \<Rightarrow> block_pool \<Rightarrow> manager" where
  "demo_chunk_mgr c p = (new_manager ChunkedLocalAttentionManager (ChunkedLocalAttentionSpec (demo_chunk_spec c)) p
     True 0 1 1 (Some (chunked_max_admission (demo_chunk_spec c) 2 40)))\<lparr>attention_chunk_size := c\<rparr>"

lemma demo_chunk_mgr_built: "built_manager p True (demo_chunk_mgr c p)"
proof -
  have "get_manager_for_kv_cache_spec (ChunkedLocalAttentionSpec (demo_chunk_spec c)) 2 40 None True 0 1 1 p
      = Inr (demo_chunk_mgr c p, p)"
    by (simp add: get_manager_for_kv_cache_spec_def demo_chunk_mgr_def demo_chunk_spec_def)
  then show ?thesis unfolding built_manager_def
    by (intro conjI exI) (auto simp: demo_chunk_mgr_def new_manager_def demo_chunk_spec_def)
qed

lemma demo_chunk_kind:
  "script_kind (demo_chunk_mgr c p)" "long_requests (demo_chunk_mgr c p) = []" "nelssa_tail_blocks (demo_chunk_mgr c p) = []"
  by (simp_all add: script_kind_def get_num_skipped_tokens_def demo_chunk_mgr_def new_manager_def)

text \<open>
  C26. When the chunk size is a multiple of the block size, a chunked-local request never holds more
  blocks than its admission cap after the release and the allocation for the next tokens.
\<close>

theorem chunked_blocks_bounded:
  assumes inv: "mgr_inv oth m p xs" and cls: "mgr_class m = ChunkedLocalAttentionManager"
    and spec: "mgr_block_size m = a_block_size s" "attention_chunk_size m = c_attention_chunk_size s"
      "0 < c_attention_chunk_size s" "a_block_size s dvd c_attention_chunk_size s"
    and step: "0 \<le> c" "0 \<le> n" "n \<le> batched" "c + n \<le> len"
    and table: "null_prefix (null_block p) (blocks_of m rid)"
      "c \<le> py_len (blocks_of m rid) * mgr_block_size m"
      "py_len (blocks_of m rid) \<le> cdiv (c + n) (mgr_block_size m)"
    and run: "remove_skipped_blocks rid c m p = Inr (m1, p1)"
      "allocate_new_blocks rid (c + n) main m1 p1 = Inr (new, m2, p2)"
  shows "py_len (filter (\<lambda>b. b \<noteq> null_block p) (blocks_of m2 rid)) \<le> chunked_max_admission s batched len"
proof -
  let ?skip = "get_num_skipped_tokens m c" and ?bs = "mgr_block_size m" and ?ch = "c_attention_chunk_size s"
  note bs = mgr_invD(8) [OF inv]
  have skip: "?skip = c div ?ch * ?ch" using cls spec(2) by (simp add: get_num_skipped_tokens_def)
  have "0 \<le> ?skip" using skip step(1) spec(3) by (simp add: pos_imp_zdiv_nonneg_iff)
  moreover have "?skip \<le> c" "c < ?skip + ?ch"
    unfolding skip using div_mult_mod_eq [of c ?ch] pos_mod_bound [OF spec(3), of c] pos_mod_sign [OF spec(3), of c]
    by linarith+
  ultimately have le: "0 \<le> ?skip" "?skip \<le> c" "c < ?skip + ?ch" by auto
  have "py_len (filter (\<lambda>b. b \<noteq> null_block p) (blocks_of m2 rid)) \<le> cdiv (c + n) ?bs - ?skip div ?bs"
    using le bs table(2)
    by (intro window_table(1) [OF inv _ refl _ _ table(1,3) run] skipped_covered [of _ _ c]) (auto simp: cls)
  also have "\<dots> \<le> cdiv (c + n - ?skip) ?bs"
    using spec(1,4) skip by (intro aligned_range_blocks bs) simp
  also have "\<dots> \<le> cdiv (min (?ch + batched) len) ?bs"
    using le step by (intro cdiv_mono bs) auto
  finally show ?thesis using spec(1) by (simp add: chunked_max_admission_def)
qed

text \<open>The request \<open>a\<close> of a chunked-local manager after eleven computed tokens.\<close>

definition chunk_script :: "script_op list" where
  "chunk_script = [Admit ''a'', Alloc ''a'' 12]"

definition demo_pool7 :: block_pool where
  "demo_pool7 = (case pool_init 7 True 4 False None False of Inr p \<Rightarrow> p | Inl _ \<Rightarrow> undefined)"

lemma demo_pool7_init: "pool_init 7 True 4 False None False = Inr demo_pool7"
  using pool_init_state [of 7 True 4 False None False] by (auto simp: demo_pool7_def)

lemma demo_pool7_null: "null_block demo_pool7 = Blk 0"
  using pool_init_state [of 7 True 4 False None False] demo_pool7_init by (auto simp: pool_state_def pool_wf_def)

lemma chunk_script_abs:
  "rfold (abs_step (demo_chunk_mgr c p)) chunk_script (fresh_allocator 7) =
    Inr \<lparr>free_list = [Blk 4, Blk 5, Blk 6], tables = [(''a'', [Blk 1, Blk 2, Blk 3])], long_tails = [], admitted = [''a'']\<rparr>"
  by (simp add: chunk_script_def fresh_allocator_def abs_alloc_def demo_chunk_mgr_def new_manager_def
      demo_chunk_spec_def table_of_def put_table_def cdiv_def py_len_def numeral_eq_Suc upt_rec)

lemma chunk_state:
  obtains m p where "represents (demo_chunk_mgr c demo_pool7)
       \<lparr>free_list = [Blk 4, Blk 5, Blk 6], tables = [(''a'', [Blk 1, Blk 2, Blk 3])], long_tails = [], admitted = [''a'']\<rparr> (m, p)"
  using script_run [OF demo_pool7_init demo_chunk_mgr_built demo_chunk_kind(2,3,1) chunk_script_abs] by blast

lemma represents_skip_alloc:
  assumes "represents k a (m, p)" "script_kind k" "abs_alloc k rid n (abs_skip k rid c a) = Inr a2"
  obtains m1 p1 new m2 p2 where "remove_skipped_blocks rid c m p = Inr (m1, p1)"
    "allocate_new_blocks rid n n m1 p1 = Inr (new, m2, p2)" "represents k a2 (m2, p2)"
proof -
  obtain m1 p1 where s: "remove_skipped_blocks rid c m p = Inr (m1, p1)" "represents k (abs_skip k rid c a) (m1, p1)"
    using sim_skip [OF assms(1,2), of rid c] by (auto simp: simulates_def)
  obtain m2 p2 where t: "script_step (Alloc rid n) (m1, p1) = Inr (m2, p2)" "represents k a2 (m2, p2)"
    using sim_alloc [OF s(2) assms(2), of rid n] assms(3) by (auto simp: simulates_def)
  then show thesis using that s by (auto simp: rbind_eq_Inr)
qed

lemma chunk_window_6:
  "abs_alloc (demo_chunk_mgr 6 demo_pool7) ''a'' 13 (abs_skip (demo_chunk_mgr 6 demo_pool7) ''a'' 11
      \<lparr>free_list = [Blk 4, Blk 5, Blk 6], tables = [(''a'', [Blk 1, Blk 2, Blk 3])], long_tails = [], admitted = [''a'']\<rparr>)
    = Inr \<lparr>free_list = [Blk 5, Blk 6, Blk 1], tables = [(''a'', [Blk 0, Blk 2, Blk 3, Blk 4])], long_tails = [], admitted = [''a'']\<rparr>"
  using demo_pool7_null
  by (simp add: abs_alloc_def abs_skip_def demo_chunk_mgr_def new_manager_def demo_chunk_spec_def table_of_def
      put_table_def give_back_def get_num_skipped_tokens_def cdiv_def py_len_def numeral_eq_Suc)

lemma chunk_window_8:
  "abs_alloc (demo_chunk_mgr 8 demo_pool7) ''a'' 13 (abs_skip (demo_chunk_mgr 8 demo_pool7) ''a'' 11
      \<lparr>free_list = [Blk 4, Blk 5, Blk 6], tables = [(''a'', [Blk 1, Blk 2, Blk 3])], long_tails = [], admitted = [''a'']\<rparr>)
    = Inr \<lparr>free_list = [Blk 5, Blk 6, Blk 2, Blk 1], tables = [(''a'', [Blk 0, Blk 0, Blk 3, Blk 4])], long_tails = [], admitted = [''a'']\<rparr>"
  using demo_pool7_null
  by (simp add: abs_alloc_def abs_skip_def demo_chunk_mgr_def new_manager_def demo_chunk_spec_def table_of_def
      put_table_def give_back_def get_num_skipped_tokens_def cdiv_def py_len_def numeral_eq_Suc)

theorem chunked_blocks_bounded_witness:
  "\<exists>m p m1 p1 new m2 p2. remove_skipped_blocks ''a'' 11 m p = Inr (m1, p1) \<and>
     allocate_new_blocks ''a'' (11 + 2) 13 m1 p1 = Inr (new, m2, p2) \<and>
     blocks_of m2 ''a'' = [Blk 0, Blk 0, Blk 3, Blk 4] \<and>
     py_len (filter (\<lambda>b. b \<noteq> null_block p) (blocks_of m2 ''a'')) \<le> chunked_max_admission (demo_chunk_spec 8) 2 40"
proof -
  obtain m p where rep: "represents (demo_chunk_mgr 8 demo_pool7)
       \<lparr>free_list = [Blk 4, Blk 5, Blk 6], tables = [(''a'', [Blk 1, Blk 2, Blk 3])], long_tails = [], admitted = [''a'']\<rparr> (m, p)"
    by (rule chunk_state)
  note s = represents_simps [OF rep]
  obtain m1 p1 new m2 p2 where r: "remove_skipped_blocks ''a'' 11 m p = Inr (m1, p1)"
    "allocate_new_blocks ''a'' 13 13 m1 p1 = Inr (new, m2, p2)" and t: "represents (demo_chunk_mgr 8 demo_pool7)
      \<lparr>free_list = [Blk 5, Blk 6, Blk 2, Blk 1], tables = [(''a'', [Blk 0, Blk 0, Blk 3, Blk 4])], long_tails = [], admitted = [''a'']\<rparr> (m2, p2)"
    by (rule represents_skip_alloc [OF rep demo_chunk_kind(1) chunk_window_8])
  have k: "mgr_class m = ChunkedLocalAttentionManager" "mgr_block_size m = 4" "attention_chunk_size m = 8" "null_block p = Blk 0"
    using s(2,6) demo_pool7_null by (simp_all add: mgr_const_def demo_chunk_mgr_def new_manager_def demo_chunk_spec_def)
  have tab: "blocks_of m ''a'' = [Blk 1, Blk 2, Blk 3]" using s(3) [of "''a''"] by (simp add: table_of_def)
  have a: "allocate_new_blocks ''a'' (11 + 2) 13 m1 p1 = Inr (new, m2, p2)" using r(2) by simp
  have "null_prefix (null_block p) (blocks_of m ''a'')"
    by (auto simp: null_prefix_def tab k(4) less_Suc_eq)
  then have "py_len (filter (\<lambda>b. b \<noteq> null_block p) (blocks_of m2 ''a'')) \<le> chunked_max_admission (demo_chunk_spec 8) 2 40"
    using k tab
    by (intro chunked_blocks_bounded [OF s(1) k(1) _ _ _ _ _ _ _ _ _ _ _ r(1) a])
      (simp_all add: demo_chunk_spec_def py_len_def cdiv_def)
  moreover have "blocks_of m2 ''a'' = [Blk 0, Blk 0, Blk 3, Blk 4]"
    using represents_simps(3) [OF t, of "''a''"] by (simp add: table_of_def)
  ultimately show ?thesis using r(1) a by blast
qed

lemma window_blocks_exact:
  fixes bs :: int
  assumes "0 < bs"
  shows "K * bs < skip mod bs + (t - skip) \<longleftrightarrow> K < cdiv t bs - skip div bs"
proof -
  have "cdiv t bs \<le> K + skip div bs \<longleftrightarrow> t \<le> (K + skip div bs) * bs" by (rule cdiv_le_iff [OF assms])
  moreover have "(K + skip div bs) * bs = K * bs + (skip - skip mod bs)"
    unfolding distrib_right minus_mod_eq_div_mult ..
  ultimately show ?thesis by linarith
qed

text \<open>
  C39. The admission cap of a chunked-local request is too small when the chunk can start inside a block.
  For every request that holds the blocks of its window, the step that computes tokens \<open>c\<close> to \<open>c + n\<close>
  leaves it with exactly the blocks from the one of the chunk start to the one of the last token; this
  exceeds \<^verbatim>\<open>max_admission_blocks_per_request\<close> whenever these tokens, counted from the start of the first
  block, do not fit in the blocks of a chunk and a batch, which happens only if the chunk size is not a
  multiple of the block size.
\<close>

theorem chunked_cap_exceeded:
  assumes inv: "mgr_inv oth m p xs" and cls: "mgr_class m = ChunkedLocalAttentionManager"
    and spec: "mgr_block_size m = a_block_size s" "attention_chunk_size m = c_attention_chunk_size s"
      "0 < c_attention_chunk_size s"
    and step: "0 \<le> c" "n \<le> batched" "skip = c div c_attention_chunk_size s * c_attention_chunk_size s"
    and table: "null_prefix (null_block p) (blocks_of m rid)"
      "c \<le> py_len (blocks_of m rid) * mgr_block_size m"
      "py_len (blocks_of m rid) \<le> cdiv (c + n) (mgr_block_size m)"
      "null_block p \<notin> set (drop (nat (skip div mgr_block_size m)) (blocks_of m rid))"
    and run: "remove_skipped_blocks rid c m p = Inr (m1, p1)"
      "allocate_new_blocks rid (c + n) main m1 p1 = Inr (new, m2, p2)"
    and unaligned: "cdiv (c_attention_chunk_size s + batched) (a_block_size s) * a_block_size s
        < skip mod a_block_size s + (c + n - skip)"
  shows "py_len (filter (\<lambda>b. b \<noteq> null_block p) (blocks_of m2 rid)) = cdiv (c + n) (a_block_size s) - skip div a_block_size s
     \<and> chunked_max_admission s batched len < py_len (filter (\<lambda>b. b \<noteq> null_block p) (blocks_of m2 rid))
     \<and> \<not> a_block_size s dvd c_attention_chunk_size s"
proof (intro conjI)
  let ?bs = "a_block_size s" and ?ch = "c_attention_chunk_size s"
  have bs: "0 < ?bs" using mgr_invD(8) [OF inv] spec(1) by simp
  have skip: "get_num_skipped_tokens m c = skip" using cls spec(2) step(3) by (simp add: get_num_skipped_tokens_def)
  have le: "0 \<le> skip" "skip \<le> c" "c < skip + ?ch"
    unfolding step(3) using div_mult_mod_eq [of c ?ch] pos_mod_bound [OF spec(3), of c] pos_mod_sign [OF spec(3), of c] step(1) spec(3)
    by (simp add: pos_imp_zdiv_nonneg_iff, linarith+)
  have k: "skip div mgr_block_size m \<le> py_len (blocks_of m rid)"
    using le bs table(2) spec(1) by (intro skipped_covered [of _ _ c]) auto
  show count: "py_len (filter (\<lambda>b. b \<noteq> null_block p) (blocks_of m2 rid)) = cdiv (c + n) ?bs - skip div ?bs"
    using window_table(2) [OF inv _ refl _ _ table(1,3) run] le(1) k table(4) cls spec(1) by (simp add: skip)
  have "chunked_max_admission s batched len \<le> cdiv (?ch + batched) ?bs"
    by (simp add: chunked_max_admission_def cdiv_mono [OF bs])
  then show "chunked_max_admission s batched len < py_len (filter (\<lambda>b. b \<noteq> null_block p) (blocks_of m2 rid))"
    unfolding count using unaligned window_blocks_exact [OF bs] by (meson le_less_trans)
  have "c + n - skip < ?ch + batched" using le(3) step(2) by simp
  then have "skip mod ?bs \<noteq> 0" using unaligned cdiv_mult_ge [OF bs, of "?ch + batched"] by auto
  then show "\<not> ?bs dvd ?ch" unfolding step(3) by (auto simp: mod_eq_0_iff_dvd)
qed

theorem chunked_cap_exceeded_witness:
  "\<exists>m p m1 p1 new m2 p2. mgr_class m = ChunkedLocalAttentionManager \<and> (\<exists>xs. mgr_inv (\<lambda>_. 0) m p xs) \<and>
     remove_skipped_blocks ''a'' 11 m p = Inr (m1, p1) \<and> allocate_new_blocks ''a'' (11 + 2) 13 m1 p1 = Inr (new, m2, p2) \<and>
     chunked_max_admission (demo_chunk_spec 6) 2 40 < py_len (filter (\<lambda>b. b \<noteq> null_block p) (blocks_of m2 ''a''))"
proof -
  obtain m p where rep: "represents (demo_chunk_mgr 6 demo_pool7)
       \<lparr>free_list = [Blk 4, Blk 5, Blk 6], tables = [(''a'', [Blk 1, Blk 2, Blk 3])], long_tails = [], admitted = [''a'']\<rparr> (m, p)"
    by (rule chunk_state)
  note s = represents_simps [OF rep]
  obtain m1 p1 new m2 p2 where r: "remove_skipped_blocks ''a'' 11 m p = Inr (m1, p1)"
    and a: "allocate_new_blocks ''a'' 13 13 m1 p1 = Inr (new, m2, p2)"
    by (rule represents_skip_alloc [OF rep demo_chunk_kind(1) chunk_window_6])
  have a: "allocate_new_blocks ''a'' (11 + 2) 13 m1 p1 = Inr (new, m2, p2)" using a by simp
  have k: "mgr_class m = ChunkedLocalAttentionManager" "mgr_block_size m = 4" "attention_chunk_size m = 6" "null_block p = Blk 0"
    using s(2,6) demo_pool7_null by (simp_all add: mgr_const_def demo_chunk_mgr_def new_manager_def demo_chunk_spec_def)
  have tab: "blocks_of m ''a'' = [Blk 1, Blk 2, Blk 3]" using s(3) [of "''a''"] by (simp add: table_of_def)
  have "null_prefix (null_block p) (blocks_of m ''a'')" by (auto simp: null_prefix_def tab k(4) less_Suc_eq)
  then have "chunked_max_admission (demo_chunk_spec 6) 2 40 < py_len (filter (\<lambda>b. b \<noteq> null_block p) (blocks_of m2 ''a''))"
    using k tab
    by (intro chunked_cap_exceeded [OF s(1) k(1) _ _ _ _ _ refl _ _ _ _ r a, of "demo_chunk_spec 6" 2, THEN conjunct2, THEN conjunct1])
      (simp_all add: demo_chunk_spec_def py_len_def cdiv_def)
  then show ?thesis using k(1) s(1) r a by blast
qed

section \<open>The refinement\<close>

text \<open>
  C6. Without prefix-cache hits a manager on its block pool is a list allocator: every sequence of
  admissions, allocations, window releases, middle releases and completions ends with the same
  error as on the free list and the tables, or in a state that represents the resulting lists: the
  free queue is the free list and each request's blocks are its table.
\<close>

theorem manager_refines_list_allocator:
  assumes "represents k a s" "script_kind k"
  shows "case rfold (abs_step k) cs a of
      Inl e \<Rightarrow> rfold script_step cs s = Inl e
    | Inr a' \<Rightarrow> \<exists>m p. rfold script_step cs s = Inr (m, p) \<and> get_all_free_blocks p = Some (Inr (free_list a')) \<and>
        (\<forall>r. blocks_of m r = table_of a' r)"
proof (cases "rfold (abs_step k) cs a")
  case (Inl e)
  then show ?thesis using sim_run [OF assms, of cs] by (simp add: simulates_def)
next
  case (Inr a')
  then obtain m p where s: "rfold script_step cs s = Inr (m, p)" "represents k a' (m, p)"
    using sim_run [OF assms, of cs] by (auto simp: simulates_def)
  have "get_all_free_blocks p = Some (Inr (free_list a'))"
    using mgr_invD(1) [OF represents_simps(1) [OF s(2)]] fq.all_free_rel unfolding pool_state_def by blast
  then show ?thesis using Inr s(1) represents_simps(3) [OF s(2)] by simp
qed

theorem manager_refines_list_allocator_witness:
  "\<exists>m p. rfold script_step window_script (demo_window_mgr demo_small_pool, demo_small_pool) = Inr (m, p) \<and>
     get_all_free_blocks p = Some (Inr []) \<and> blocks_of m ''a'' = [Blk 0, Blk 2] \<and> blocks_of m ''b'' = [Blk 1]"
  using manager_refines_list_allocator [OF fresh_represents [OF demo_small_pool_init demo_window_mgr_built
        demo_window_kind(2,3)] demo_window_kind(1), of window_script]
  by (auto simp: window_script_abs [OF demo_small_pool_null] table_of_def)

end
