(* ===== verification/Coordinator_Steps.thy ===== *)
theory Coordinator_Steps
  imports KV_Manager Manager_Props
begin

text \<open>
  Every loop of the coordinator is a sequence of manager steps on the shared pool.  \<open>each_manager_run\<close>
  is the rule for such a loop: an invariant \<open>J\<close> of the threaded state, what a step guarantees of the
  manager it leaves (\<open>Q\<close>), and the reachability of \<open>Manager_Props\<close>.  The phases of
  \<open>allocate_slots\<close> are instances of it.
\<close>

section \<open>The loop rule\<close>

definition same_consts :: "manager list \<Rightarrow> manager list \<Rightarrow> bool" where
  "same_consts ms ms' \<longleftrightarrow> map mgr_const ms' = map mgr_const ms"

lemma same_consts_nth:
  assumes "same_consts ms ms'"
  shows "length ms' = length ms" "k < length ms \<Longrightarrow> mgr_const (ms' ! k) = mgr_const (ms ! k)"
  using assms map_eq_imp_length_eq [of mgr_const ms' mgr_const ms]
  unfolding same_consts_def by (auto, metis nth_map)

lemma same_consts_refl [simp]: "same_consts ms ms"
  by (simp add: same_consts_def)

lemma same_consts_trans: "same_consts ms1 ms2 \<Longrightarrow> same_consts ms2 ms3 \<Longrightarrow> same_consts ms1 ms3"
  by (simp add: same_consts_def)

lemma step_reach:
  assumes "mgrs_reach env (pre @ m # ms) p" "mgr_step env m p m' p'"
  shows "mgrs_reach env (pre @ m' # ms) p'" "mgr_const m' = mgr_const m" "pool_const p' = pool_const p"
proof -
  show "mgrs_reach env (pre @ m' # ms) p'" using assms by (rule mgrs_step)
  obtain xs where "mgrs_inv (pre @ m # ms) p xs" using mgrs_reach_inv [OF assms(1)] by blast
  from mgr_step_ok [OF assms(2) mgrs_inv_mgr_inv [OF this]]
  show "mgr_const m' = mgr_const m" "pool_const p' = pool_const p" by (auto simp: mgr_ok_step_def keeps_def)
qed

lemma reach_mgr_inv:
  assumes "mgrs_reach env (pre @ m # ms) p"
  obtains oth xs where "mgr_inv oth m p xs"
  using mgrs_reach_inv [OF assms] mgrs_inv_mgr_inv by blast

lemma each_manager_run:
  assumes "each_manager f i ms s = Inr (ms', s')" "mgrs_reach env (pre @ ms) (q s)" "J i s"
    and "\<And>k s m' s' oth xs. k < length ms \<Longrightarrow> J (i + k) s \<Longrightarrow> mgr_inv oth (ms ! k) (q s) xs \<Longrightarrow>
       pool_const (q s) = pc \<Longrightarrow> f (i + k) (ms ! k) s = Inr (m', s') \<Longrightarrow>
       (mgr_step env (ms ! k) (q s) m' (q s') \<or> m' = ms ! k \<and> q s' = q s) \<and> J (Suc (i + k)) s' \<and> Q (i + k) m'"
    and "pool_const (q s) = pc"
  shows "mgrs_reach env (pre @ ms') (q s') \<and> J (i + length ms) s' \<and> same_consts ms ms' \<and>
    (\<forall>k < length ms. Q (i + k) (ms' ! k)) \<and> pool_const (q s') = pc"
  using assms
proof (induction ms arbitrary: i pre s ms')
  case Nil
  then show ?case by simp
next
  case (Cons m ms)
  obtain m1 s1 ms1 where r: "f i m s = Inr (m1, s1)" "each_manager f (Suc i) ms s1 = Inr (ms1, s')" "ms' = m1 # ms1"
    using Cons.prems(1) by (auto simp: rbind_eq_Inr)
  obtain oth xs where inv: "mgr_inv oth m (q s) xs" using reach_mgr_inv [OF Cons.prems(2)] .
  have st: "mgr_step env m (q s) m1 (q s1) \<or> m1 = m \<and> q s1 = q s" "J (Suc i) s1" "Q i m1"
    using Cons.prems(4) [of 0 s oth xs m1 s1] Cons.prems(3,5) inv r(1) by auto
  from st(1) have reach: "mgrs_reach env (pre @ m1 # ms) (q s1)" "mgr_const m1 = mgr_const m" "pool_const (q s1) = pool_const (q s)"
    using Cons.prems(2) step_reach [OF Cons.prems(2), of m1 "q s1"] by auto
  have "mgrs_reach env ((pre @ [m1]) @ ms1) (q s') \<and> J (Suc i + length ms) s' \<and> same_consts ms ms1 \<and>
    (\<forall>k < length ms. Q (Suc i + k) (ms1 ! k)) \<and> pool_const (q s') = pc"
  proof (rule Cons.IH [OF r(2) _ st(2)])
    show "mgrs_reach env ((pre @ [m1]) @ ms) (q s1)" "pool_const (q s1) = pc" using reach Cons.prems(5) by simp_all
    show "(mgr_step env (ms ! k) (q t) m' (q t') \<or> m' = ms ! k \<and> q t' = q t) \<and> J (Suc (Suc i + k)) t' \<and> Q (Suc i + k) m'"
      if "k < length ms" "J (Suc i + k) t" "mgr_inv oth (ms ! k) (q t) xs" "pool_const (q t) = pc"
        "f (Suc i + k) (ms ! k) t = Inr (m', t')" for k t m' t' oth xs
      using Cons.prems(4) [of "Suc k" t oth xs m' t'] that by simp
  qed
  moreover from this have "Q (i + k) (ms' ! k)" if "k < length (m # ms)" for k
    using st(3) that r(3) by (cases k) auto
  ultimately show ?case using r(3) reach(2) by (simp add: same_consts_def)
qed

lemma each_manager_total:
  assumes "mgrs_reach env (pre @ ms) (q s)" "J i s"
    and "\<And>k s oth xs. k < length ms \<Longrightarrow> J (i + k) s \<Longrightarrow> mgr_inv oth (ms ! k) (q s) xs \<Longrightarrow> pool_const (q s) = pc \<Longrightarrow>
       \<exists>m' s'. f (i + k) (ms ! k) s = Inr (m', s') \<and> mgr_step env (ms ! k) (q s) m' (q s') \<and> J (Suc (i + k)) s'"
    and "pool_const (q s) = pc"
  shows "\<exists>ms' s'. each_manager f i ms s = Inr (ms', s')"
  using assms
proof (induction ms arbitrary: i pre s)
  case Nil
  then show ?case by simp
next
  case (Cons m ms)
  obtain oth xs where inv: "mgr_inv oth m (q s) xs" using reach_mgr_inv [OF Cons.prems(1)] .
  obtain m1 s1 where st: "f i m s = Inr (m1, s1)" "mgr_step env m (q s) m1 (q s1)" "J (Suc i) s1"
    using Cons.prems(3) [of 0 s oth xs] Cons.prems(2,4) inv by auto
  note reach = step_reach [OF Cons.prems(1) st(2)]
  have "\<exists>ms' s'. each_manager f (Suc i) ms s1 = Inr (ms', s')"
  proof (rule Cons.IH [OF _ st(3)])
    show "mgrs_reach env ((pre @ [m1]) @ ms) (q s1)" "pool_const (q s1) = pc" using reach Cons.prems(4) by simp_all
    show "\<exists>m' s'. f (Suc i + k) (ms ! k) t = Inr (m', s') \<and> mgr_step env (ms ! k) (q t) m' (q s') \<and> J (Suc (Suc i + k)) s'"
      if "k < length ms" "J (Suc i + k) t" "mgr_inv oth (ms ! k) (q t) xs" "pool_const (q t) = pc" for k t oth xs
      using Cons.prems(3) [of "Suc k" t oth xs] that by simp
  qed
  then show ?case using st(1) by auto
qed

lemma map_managers_reach:
  assumes "mgrs_reach env (pre @ ms) p" "\<And>m. m \<in> set ms \<Longrightarrow> g m = m \<or> mgr_step env m p (g m) p"
  shows "mgrs_reach env (pre @ map g ms) p \<and> same_consts ms (map g ms)"
  using assms
proof (induction ms arbitrary: pre)
  case Nil
  then show ?case by simp
next
  case (Cons m ms)
  have "g m = m \<or> mgr_step env m p (g m) p" using Cons.prems(2) by simp
  then have one: "mgrs_reach env (pre @ g m # ms) p \<and> mgr_const (g m) = mgr_const m"
  proof
    assume "g m = m"
    then show ?thesis using Cons.prems(1) by simp
  qed (use step_reach [OF Cons.prems(1)] in blast)
  then have "mgrs_reach env ((pre @ [g m]) @ map g ms) p \<and> same_consts ms (map g ms)"
    using Cons.prems(2) by (intro Cons.IH) auto
  then show ?case using one by (simp add: same_consts_def)
qed

section \<open>What the phases keep\<close>

lemma remove_keeps_hashes:
  assumes inv: "mgr_inv oth m p xs" and "\<not> is_align m" "remove_skipped_blocks rid computed m p = Inr (m', p')"
  shows "hashes p' = hashes p"
proof -
  obtain n where "base_remove_skipped_blocks rid n m p = Inr (m', p')"
  proof (cases "mgr_class m = MambaManager")
    case True
    let ?n = "max 0 (computed - num_speculative_blocks m)"
    obtain m1 p1 where b: "base_remove_skipped_blocks rid ?n m p = Inr (m1, p1)" "mgr_const m1 = mgr_const m"
      using base_remove_skipped_blocks_inv [OF inv, of rid ?n] by blast
    then have "mamba_cache_mode m1 \<noteq> ''align''" using assms(2) True by (simp add: is_align_def mgr_const_def)
    then have "base_remove_skipped_blocks rid ?n m p = Inr (m', p')"
      using assms(3) b(1) True by (simp add: remove_skipped_blocks_def mamba_remove_skipped_blocks_def Let_def)
    then show ?thesis by (rule that)
  next
    case False
    then have "base_remove_skipped_blocks rid computed m p = Inr (m', p')"
      using assms(3) by (simp add: remove_skipped_blocks_def split: manager_class.splits)
    then show ?thesis by (rule that)
  qed
  then show ?thesis using base_remove_skipped_blocks_inv [OF inv, of rid n] by auto
qed

lemma computed_keeps_hashes:
  assumes inv: "mgr_inv oth m p xs" and "computed_ready p m rid hits nl 0" "allocate_new_computed_blocks rid hits nl 0 m p = Inr (m', p')"
  shows "hashes p' = hashes p"
proof (cases "mgr_class m = CrossAttentionManager \<or> is_running m rid")
  case True
  then have "p' = p"
    using assms(3) by (auto simp: allocate_new_computed_blocks_def base_allocate_new_computed_blocks_def rbind_eq_Inr
        split: manager_class.splits)
  then show ?thesis by simp
next
  case False
  then have r: "base_allocate_new_computed_blocks rid hits nl 0 m p = Inr (m', p')"
    and ok: "hits_ok p hits" "enable_caching p \<or> hits = []"
    using assms(2,3) by (auto simp: allocate_new_computed_blocks_def computed_ready_def split: manager_class.splits)
  have b0: "blocks_of m rid = []"
    using r False by (auto simp: base_allocate_new_computed_blocks_def rbind_eq_Inr Let_def)
  have "set (used_hits m hits nl) \<subseteq> set (blocks p)" using hits_ok_drop [OF ok(1), of m nl] by (simp add: hits_ok_def)
  then obtain p1 where p1: "touch (used_hits m hits nl) p = Inr p1" "hashes p1 = hashes p"
    using touch_state [OF mgr_invD(1) [OF inv]] by blast
  have "p' = p1"
    using r p1(1) base_allocate_new_computed_blocks_eq [OF _ b0, of hits nl 0 p] False ok(2) mgr_invD(9) [OF inv]
    by (auto simp: Let_def split: if_splits)
  then show ?thesis using p1(2) by simp
qed

lemma base_alloc_covers:
  assumes inv: "mgr_inv oth m p xs" and "base_allocate_new_blocks rid tokens m p = Inr (new, m', p')"
  shows "cdiv tokens (mgr_block_size m) \<le> py_len (blocks_of m' rid)"
proof -
  define n where "n = cdiv tokens (mgr_block_size m) - py_len (blocks_of m rid)"
  note b = base_allocate_new_blocks_inv [OF inv n_def]
  show ?thesis
  proof (cases "n \<le> 0")
    case True
    then show ?thesis using b(1) assms(2) by (auto simp: n_def)
  next
    case False
    then have le: "n \<le> py_len xs" using b(2) assms(2) by fastforce
    then have "blocks_of m' rid = blocks_of m rid @ take (nat n) xs" using b(3) False assms(2) by auto
    then show ?thesis using le False by (simp add: n_def py_len_def)
  qed
qed

lemma alloc_covers:
  assumes inv: "mgr_inv oth m p xs" and "\<not> is_align m" "allocate_new_blocks rid tokens main m p = Inr (new, m', p')"
  shows "cdiv tokens (mgr_block_size m) \<le> py_len (blocks_of m' rid)"
proof -
  obtain n where n: "tokens \<le> n" "base_allocate_new_blocks rid n m p = Inr (new, m', p')"
    using assms(2,3) mgr_invD(8) [OF inv]
    by (auto simp: allocate_new_blocks_def is_align_def split: manager_class.splits if_splits)
      (metis add_increasing2 less_imp_le mult_nonneg_nonneg order_refl)
  have "cdiv tokens (mgr_block_size m) \<le> cdiv n (mgr_block_size m)"
    by (rule cdiv_mono [OF mgr_invD(8) [OF inv] n(1)])
  also have "\<dots> \<le> py_len (blocks_of m' rid)" by (rule base_alloc_covers [OF inv n(2)])
  finally show ?thesis .
qed

section \<open>The phases of the coordinator\<close>

abbreviation managers :: "coordinator \<Rightarrow> manager list" where
  "managers \<equiv> single_type_managers"

abbreviation co_reach :: "hash_env \<Rightarrow> coordinator \<Rightarrow> block_pool \<Rightarrow> bool" where
  "co_reach env co p \<equiv> mgrs_reach env (managers co) p"

text \<open>The call replaced the managers of \<open>co\<close> by managers of the same kinds.\<close>

definition co_like :: "coordinator \<Rightarrow> block_pool \<Rightarrow> coordinator \<Rightarrow> block_pool \<Rightarrow> bool" where
  "co_like co p co' p' \<longleftrightarrow> co' = with_managers co (managers co') \<and> same_consts (managers co) (managers co') \<and>
     pool_const p' = pool_const p"

lemma co_like_refl [simp]: "co_like co p co p"
  by (simp add: co_like_def with_managers_def)

lemma co_like_trans: "co_like co1 p1 co2 p2 \<Longrightarrow> co_like co2 p2 co3 p3 \<Longrightarrow> co_like co1 p1 co3 p3"
  unfolding co_like_def with_managers_def
  by (metis same_consts_trans coordinator.simps(22) coordinator.update_convs(5) coordinator.surjective)

lemma managers_with [simp]: "managers (with_managers co ms) = ms" "with_managers (with_managers co ms) ms' = with_managers co ms'"
  by (simp_all add: with_managers_def)

lemma co_likeI: "same_consts (managers co) ms \<Longrightarrow> pool_const p' = pool_const p \<Longrightarrow> co_like co p (with_managers co ms) p'"
  by (simp add: co_like_def)

lemma co_remove_phase:
  assumes "co_remove_skipped_blocks rid n co p = Inr (co', p')" "co_reach env co p" "list_all (\<lambda>m. \<not> is_align m) (managers co)"
  shows "co_reach env co' p' \<and> co_like co p co' p' \<and> hashes p' = hashes p"
proof -
  obtain ms where r: "each_manager (\<lambda>i. remove_skipped_blocks rid n) 0 (managers co) p = Inr (ms, p')" "co' = with_managers co ms"
    using assms(1) by (auto simp: co_remove_skipped_blocks_def rbind_eq_Inr)
  have "mgrs_reach env ([] @ ms) p' \<and> hashes p' = hashes p \<and> same_consts (managers co) ms \<and>
      (\<forall>k < length (managers co). True) \<and> pool_const p' = pool_const p"
    by (rule each_manager_run [OF r(1), where q = "\<lambda>p. p" and J = "\<lambda>_ q. hashes q = hashes p" and Q = "\<lambda>_ _. True"])
      (use assms(2,3) remove_keeps_hashes in \<open>auto simp: list_all_length intro: step_remove\<close>)
  then show ?thesis using r(2) by (simp add: co_likeI)
qed

lemma co_estimate_phase:
  assumes "co_get_num_blocks_to_allocate rid tokens hits encoder computed main co p = Inr (n, co')" "co_reach env co p"
  shows "co_reach env co' p \<and> co_like co p co' p"
proof -
  let ?f = "\<lambda>i m n. rbind (if is_cross m then get_num_blocks_to_allocate rid encoder [] 0 encoder m p
                     else rbind (py_get hits (int i)) (\<lambda>h. get_num_blocks_to_allocate rid tokens h computed main m p))
                (\<lambda>(k, m'). Inr (m', n + k))"
  obtain ms where r: "each_manager ?f 0 (managers co) 0 = Inr (ms, n)" "co' = with_managers co ms"
    using assms(1) by (auto simp: co_get_num_blocks_to_allocate_def rbind_eq_Inr)
  have "mgr_step env m p m' p" if "?f i m k = Inr (m', k')" for i m k m' k'
    using that by (auto simp: rbind_eq_Inr split: if_splits intro: step_estimate)
  then have "mgrs_reach env ([] @ ms) p \<and> True \<and> same_consts (managers co) ms \<and>
      (\<forall>k < length (managers co). True) \<and> pool_const p = pool_const p"
    by (intro each_manager_run [OF r(1), where q = "\<lambda>_. p" and J = "\<lambda>_ _. True" and Q = "\<lambda>_ _. True"])
      (use assms(2) in auto)
  then show ?thesis using r(2) by (simp add: co_likeI)
qed

lemma co_mark_phase:
  assumes "co_reach env co p"
  shows "co_reach env (km_mark_long_request rid len co) p \<and> co_like co p (km_mark_long_request rid len co) p"
proof -
  let ?g = "\<lambda>m. if mgr_class m = NELSSACacheManager then mark_long_request rid len m else m"
  have "mgrs_reach env ([] @ map ?g (managers co)) p \<and> same_consts (managers co) (map ?g (managers co))"
    by (rule map_managers_reach) (use assms in \<open>auto intro: step_mark\<close>)
  then show ?thesis by (simp add: km_mark_long_request_def co_likeI)
qed

lemma co_computed_phase:
  assumes "co_allocate_new_computed_blocks rid hits nl 0 co p = Inr (co', p')" "co_reach env co p"
    and "list_all (hits_ok p) hits" "enable_caching p \<or> list_all (\<lambda>h. h = []) hits"
  shows "co_reach env co' p' \<and> co_like co p co' p'"
proof -
  let ?f = "\<lambda>i m q. rbind (py_get hits (int i)) (\<lambda>h. allocate_new_computed_blocks rid h nl 0 m q)"
  obtain ms where r: "each_manager ?f 0 (managers co) p = Inr (ms, p')" "co' = with_managers co ms"
    using assms(1) by (auto simp: co_allocate_new_computed_blocks_def rbind_eq_Inr)
  have step: "mgr_step env m q m' q' \<and> hashes q' = hashes p"
    if f: "?f i m q = Inr (m', q')" "hashes q = hashes p" "pool_const q = pool_const p" "mgr_inv oth m q xs" for i m q m' q' oth xs
  proof -
    obtain h where h: "py_get hits (int i) = Inr h" "allocate_new_computed_blocks rid h nl 0 m q = Inr (m', q')"
      using f(1) by (auto simp: rbind_eq_Inr)
    have mem: "h \<in> set hits" using h(1) by (auto simp: py_get_def py_len_def Let_def split: if_splits)
    note c = pool_const_eqD [OF f(3)]
    have "hits_ok q h" "enable_caching q \<or> h = []"
      using assms(3,4) mem c f(2) by (auto simp: list_all_iff hits_ok_def)
    then have "computed_ready q m rid h nl 0" by (simp add: computed_ready_def external_blocks_def Let_def)
    then show ?thesis using h(2) f(2) computed_keeps_hashes [OF f(4)] by (auto intro: step_computed)
  qed
  have "mgrs_reach env ([] @ ms) p' \<and> hashes p' = hashes p \<and> same_consts (managers co) ms \<and>
      (\<forall>k < length (managers co). True) \<and> pool_const p' = pool_const p"
    by (rule each_manager_run [OF r(1), where q = "\<lambda>p. p" and J = "\<lambda>_ q. hashes q = hashes p" and Q = "\<lambda>_ _. True"])
      (use assms(2) step in auto)
  then show ?thesis using r(2) by (simp add: co_likeI)
qed

lemma co_allocate_phase:
  assumes "co_allocate_new_blocks rid tokens main encoder co p = Inr (new, co', p')" "co_reach env co p"
    and "list_all (\<lambda>m. \<not> is_align m) (managers co)"
  shows "co_reach env co' p' \<and> co_like co p co' p' \<and>
    list_all (\<lambda>m. is_cross m \<or> cdiv tokens (mgr_block_size m) \<le> py_len (blocks_of m rid)) (managers co') \<and>
    length new = length (managers co)"
proof -
  let ?f = "\<lambda>i m (new, q). rbind (allocate_new_blocks rid (if is_cross m then encoder else tokens) main m q)
                (\<lambda>(bs, m', q'). Inr (m', (new @ [bs], q')))"
  let ?Q = "\<lambda>i m. is_cross m \<or> cdiv tokens (mgr_block_size m) \<le> py_len (blocks_of m rid)"
  obtain ms where r: "each_manager ?f 0 (managers co) ([], p) = Inr (ms, (new, p'))" "co' = with_managers co ms"
    using assms(1) by (auto simp: co_allocate_new_blocks_def rbind_eq_Inr)
  have step: "mgr_step env m (snd s) m' (snd s') \<and> length (fst s') = Suc (length (fst s)) \<and> ?Q i m'"
    if f: "?f i m s = Inr (m', s')" "\<not> is_align m" "mgr_inv oth m (snd s) xs" for i m s m' s' oth xs
  proof -
    obtain new1 q bs q' where s: "s = (new1, q)" "s' = (new1 @ [bs], q')"
      and a: "allocate_new_blocks rid (if is_cross m then encoder else tokens) main m q = Inr (bs, m', q')"
      using f(1) by (cases s) (auto simp: rbind_eq_Inr)
    have st: "mgr_step env m q m' q'" using step_alloc [OF _ a] f(2) by blast
    moreover have "mgr_const m' = mgr_const m" using mgr_step_ok [OF st] f(3) s by (auto simp: mgr_ok_step_def)
    moreover from this have "?Q i m'"
      using a alloc_covers [OF f(3) f(2), of rid tokens main bs m' q'] mgr_constD(1,2) [of m' m] s
      by (cases "is_cross m") (simp_all add: is_cross_def)
    ultimately show ?thesis using s by simp
  qed
  have "mgrs_reach env ([] @ ms) (snd (new, p')) \<and> length (fst (new, p')) = 0 + length (managers co) \<and> same_consts (managers co) ms \<and>
      (\<forall>k < length (managers co). ?Q (0 + k) (ms ! k)) \<and> pool_const (snd (new, p')) = pool_const p"
    by (rule each_manager_run [OF r(1), where q = snd and J = "\<lambda>i s. length (fst s) = i" and Q = ?Q])
      (use assms(2,3) step in \<open>auto simp: list_all_length\<close>)
  moreover from this have "list_all (?Q 0) ms"
    using same_consts_nth(1) by (auto simp: list_all_length)
  ultimately show ?thesis using r(2) by (simp add: co_likeI)
qed

text \<open>A request that may be registered up to \<open>tokens\<close> with every manager of the coordinator.\<close>

definition co_cacheable :: "coordinator \<Rightarrow> block_pool \<Rightarrow> request \<Rightarrow> int \<Rightarrow> bool" where
  "co_cacheable co p r tokens \<longleftrightarrow> list_all (\<lambda>m. is_cross m \<or> cache_ready p m r tokens) (managers co)"

lemma cache_request:
  assumes "mgr_inv oth m p xs" "enable_caching p" "cache_ready p m r tokens" "cache_blocks env r tokens m p = Inr (r', m', p')"
  shows "same_but_embeds r r'"
proof (cases "mgr_class m = MambaManager")
  case True
  then show ?thesis
    using mamba_cache_blocks_inv [OF assms(1,2,3), of env] assms(4) by (auto simp: cache_blocks_def)
next
  case False
  then show ?thesis
    using base_cache_blocks_inv [OF assms(1,2) refl refl assms(3), of env] assms(4)
    by (auto simp: cache_blocks_def split: manager_class.splits)
qed

lemma co_cache_phase:
  assumes "co_cache_blocks env r tokens co p = Inr (r', co', p')" "co_reach env co p"
    and "enable_caching p" "co_cacheable co p r tokens"
  shows "co_reach env co' p' \<and> co_like co p co' p' \<and> same_but_embeds r r'"
proof -
  let ?f = "\<lambda>i m (r, q). rbind (cache_blocks env r tokens m q) (\<lambda>(r', m', q'). Inr (m', (r', q')))"
  obtain ms where r: "each_manager ?f 0 (managers co) (r, p) = Inr (ms, (r', p'))" "co' = with_managers co ms"
    using assms(1) by (auto simp: co_cache_blocks_def rbind_eq_Inr)
  have step: "mgr_step env m (snd s) m' (snd s') \<and> same_but_embeds r (fst s')"
    if f: "?f i m s = Inr (m', s')" "m \<in> set (managers co)" "same_but_embeds r (fst s)" "mgr_inv oth m (snd s) xs"
      "pool_const (snd s) = pool_const p" for i m s m' s' oth xs
  proof -
    obtain r1 q r2 q' where s: "s = (r1, q)" "s' = (r2, q')" and c: "cache_blocks env r1 tokens m q = Inr (r2, m', q')"
      using f(1) by (cases s) (auto simp: rbind_eq_Inr)
    note k = pool_const_eqD [OF f(5)]
    have "mgr_class m \<noteq> CrossAttentionManager" using c by (auto simp: cache_blocks_def)
    then have "cache_ready p m r tokens" using assms(4) f(2) by (auto simp: co_cacheable_def list_all_iff is_cross_def)
    then have ready: "cache_ready q m r1 tokens" using f(3) s k by (auto simp: cache_ready_def same_but_embeds_def)
    have "same_but_embeds r1 r2" by (rule cache_request [OF _ _ ready c]) (use f(4) s assms(3) k in auto)
    moreover have "mgr_step env m q m' q'"
      by (rule step_cache [OF _ _ c]) (use ready assms(3) k s in auto)
    ultimately show ?thesis using f(3) s by (auto simp: same_but_embeds_def)
  qed
  have "mgrs_reach env ([] @ ms) (snd (r', p')) \<and> same_but_embeds r (fst (r', p')) \<and> same_consts (managers co) ms \<and>
      (\<forall>k < length (managers co). True) \<and> pool_const (snd (r', p')) = pool_const p"
    by (rule each_manager_run [OF r(1), where q = snd and J = "\<lambda>i s. same_but_embeds r (fst s)" and Q = "\<lambda>_ _. True"])
      (use assms(2) step in auto)
  then show ?thesis using r(2) by (simp add: co_likeI)
qed

lemma co_free_phase:
  assumes "co_reach env co p"
  shows "\<exists>co' p'. co_free rid co p = Inr (co', p') \<and> co_reach env co' p' \<and> co_like co p co' p' \<and>
    (\<forall>k < length (managers co). set (req_ids (managers co' ! k)) = set (req_ids (managers co ! k)) - {rid})"
proof -
  let ?f = "\<lambda>i::nat. mgr_free rid"
  let ?Q = "\<lambda>k m. set (req_ids m) = set (req_ids (managers co ! k)) - {rid}"
  have step: "\<exists>m' q'. mgr_free rid m q = Inr (m', q') \<and> mgr_step env m q m' q' \<and> set (req_ids m') = set (req_ids m) - {rid}"
    if inv: "mgr_inv oth m q xs" for m q oth xs
  proof -
    obtain m' q' where "mgr_free rid m q = Inr (m', q')" "set (req_ids m') = set (req_ids m) - {rid}"
      using mgr_free_inv [OF inv, of rid] by blast
    then show ?thesis using step_free [of rid m q m' q' env] by simp
  qed
  have "\<exists>ms p'. each_manager ?f 0 (managers co) p = Inr (ms, p')"
  proof (rule each_manager_total [where q = "\<lambda>p. p" and J = "\<lambda>_ _. True" and pre = "[]" and env = env and pc = "pool_const p"])
    show "\<exists>m' s'. mgr_free rid (managers co ! k) q = Inr (m', s') \<and> mgr_step env (managers co ! k) q m' s' \<and> True"
      if "mgr_inv oth (managers co ! k) q xs" for k q oth xs
      using step [OF that] by blast
  qed (use assms in simp_all)
  then obtain ms p' where r: "each_manager ?f 0 (managers co) p = Inr (ms, p')" by blast
  have out: "mgr_step env m q m' q'" "set (req_ids m') = set (req_ids m) - {rid}"
    if "mgr_inv oth m q xs" "mgr_free rid m q = Inr (m', q')" for m q oth xs m' q'
    using step [OF that(1)] that(2) by auto
  have "mgrs_reach env ([] @ ms) p' \<and> True \<and> same_consts (managers co) ms \<and>
      (\<forall>k < length (managers co). ?Q (0 + k) (ms ! k)) \<and> pool_const p' = pool_const p"
  proof (rule each_manager_run [OF r, where q = "\<lambda>p. p" and J = "\<lambda>_ _. True" and Q = ?Q])
    show "(mgr_step env (managers co ! k) q m' q' \<or> m' = managers co ! k \<and> q' = q) \<and> True \<and> ?Q (0 + k) m'"
      if "mgr_inv oth (managers co ! k) q xs" "mgr_free rid (managers co ! k) q = Inr (m', q')" for k q m' q' oth xs
      using out [OF that] by simp
  qed (use assms in simp_all)
  then show ?thesis using r by (simp add: co_free_def co_likeI)
qed

end
