(* ===== verification/Admission_Props.thy ===== *)
theory Admission_Props
  imports Manager_Props
begin

text \<open>
  The NELSSA manager's release of long prompts, and the soundness of the admission estimate: for full
  attention the estimate covers what the allocation takes, for NELSSA's long requests it is too low.
  The sink manager's blocks keep the pool from ever being reset.
\<close>

section \<open>NELSSA\<close>

lemma middle_nulled_split:
  assumes "0 \<le> middle_start m" "middle_start m \<le> middle_end m rid" "middle_end m rid \<le> py_len (blocks_of m rid)"
  shows "middle_nulled nb m rid = take (nat (middle_start m)) (blocks_of m rid) @
    replicate (nat (middle_end m rid - middle_start m)) nb @ drop (nat (middle_end m rid)) (blocks_of m rid)"
  using assms by (intro nth_equalityI) (auto simp: middle_nulled_def nth_append py_len_def nat_less_iff nat_diff_distrib)

lemma middle_nulled_kept:
  assumes "0 < mgr_block_size m" "0 \<le> nelssa_head_size m"
  shows "py_len (filter (\<lambda>b. b \<noteq> nb) (middle_nulled nb m rid)) \<le> middle_start m + max 0 (middle_tail m rid)"
proof (cases "middle_start m \<le> middle_end m rid")
  case True
  note range = middle_range(1) [OF assms] middle_range(2) [OF assms, of rid]
  have "py_len (filter (\<lambda>b. b \<noteq> nb) (middle_nulled nb m rid)) \<le>
      py_len (take (nat (middle_start m)) (blocks_of m rid)) + py_len (drop (nat (middle_end m rid)) (blocks_of m rid))"
    unfolding middle_nulled_split [OF range(1) True range(2)] by (simp add: py_len_filter_le add_mono)
  also have "\<dots> \<le> middle_start m + max 0 (middle_tail m rid)"
    using range True by (auto simp: py_len_def middle_end_def)
  finally show ?thesis .
next
  case False
  have "py_len (filter (\<lambda>b. b \<noteq> nb) (middle_nulled nb m rid)) \<le> py_len (middle_nulled nb m rid)"
    by (rule py_len_filter_le)
  then show ?thesis using False by (simp add: middle_nulled_def middle_end_def py_len_def)
qed

text \<open>
  C23. After \<^verbatim>\<open>free_middle_blocks\<close> a long request keeps the blocks of its head and of its tail and
  nothing else: the entries in between are null, every released block loses exactly one reference,
  and at most the head and tail blocks remain on the GPU.
\<close>

theorem nelssa_middle_released:
  assumes inv: "mgr_inv oth m p xs" and long: "rid \<in> set (long_requests m)" and head: "0 \<le> nelssa_head_size m"
  shows "\<exists>m' p'. free_middle_blocks rid m p = Inr (m', p') \<and> (\<exists>xs'. mgr_inv oth m' p' xs')
     \<and> (\<forall>r. r \<noteq> rid \<longrightarrow> blocks_of m' r = blocks_of m r)
     \<and> length (blocks_of m' rid) = length (blocks_of m rid)
     \<and> (\<forall>j < length (blocks_of m rid). blocks_of m' rid ! j =
          (if middle_start m \<le> int j \<and> int j < middle_end m rid then null_block p else blocks_of m rid ! j))
     \<and> (\<forall>b. usable p b \<longrightarrow> refs p' b = refs p b - (if b \<in> snd ` set (middle_blocks (null_block p) m rid) then 1 else 0))
     \<and> py_len (filter (\<lambda>b. b \<noteq> null_block p) (blocks_of m' rid)) \<le> middle_start m + max 0 (middle_tail m rid)"
proof -
  let ?nb = "null_block p"
  obtain m' p' xs' where r: "free_middle_blocks rid m p = Inr (m', p')" "keeps m p p'" "mgr_inv oth m' p' xs'"
    "\<And>r. blocks_of m' r = (if r = rid then middle_nulled ?nb m rid else blocks_of m r)"
    using free_middle_blocks_exact [OF inv long head] by blast
  note bs = mgr_invD(8) [OF inv] and ok = mgr_invD(10) [OF inv, of rid]
  note out = middle_blocks_null_out(2) [OF bs head, where nb = ?nb and rid = rid]
  have "refs p' b = refs p b - (if b \<in> snd ` set (middle_blocks ?nb m rid) then 1 else 0)" if u: "usable p b" for b
  proof -
    have nb: "b \<noteq> ?nb" using u by (simp add: usable_def)
    have u': "usable p' b" using u r(2) pool_const_eqD(5) [of p' p] by (simp add: keeps_def)
    have "refs p' b = refs p b - int (count_list (blocks_of m rid) b) + int (count_list (middle_nulled ?nb m rid) b)"
      using mgr_invD(5) [OF inv u] mgr_invD(5) [OF r(3) u'] held_change [OF mgr_invD(6) [OF inv] mgr_invD(6) [OF r(3)] r(4)]
      by simp
    moreover have "count_list (blocks_of m rid) b = count_list (middle_nulled ?nb m rid) b
        + count_list (map snd (middle_blocks ?nb m rid)) b"
      using out nb by (simp add: nulled_def)
    moreover have "count_list (map snd (middle_blocks ?nb m rid)) b = (if b \<in> snd ` set (middle_blocks ?nb m rid) then 1 else 0)"
    proof -
      have "distinct (filter (\<lambda>b. b \<noteq> ?nb) (map snd (middle_blocks ?nb m rid)))"
        using nulled_nonnull_distinct(2) [OF out] ok by (simp add: req_ok_def)
      moreover have "filter (\<lambda>b. b \<noteq> ?nb) (map snd (middle_blocks ?nb m rid)) = map snd (middle_blocks ?nb m rid)"
        using out unfolding nulled_def by (intro filter_True) blast
      ultimately show ?thesis by (simp add: count_list_mem_distinct)
    qed
    ultimately show ?thesis by simp
  qed
  then show ?thesis
    using r(1,3,4) middle_nulled_kept [OF bs head, of ?nb rid]
    by (intro exI [of _ m'] exI [of _ p']) (auto simp: middle_nulled_def)
qed

definition demo_nelssa_mgr :: "block_pool \<Rightarrow> manager" where
  "demo_nelssa_mgr p = (new_manager NELSSACacheManager (FullAttentionSpec (demo_spec 64\<lparr>a_block_size := 2\<rparr>)) p
     True 0 1 1 None)\<lparr>nelssa_head_size := 2, nelssa_tail_size := 2\<rparr>"

definition demo_nelssa_config :: nelssa_config where
  "demo_nelssa_config = \<lparr>nelssa_enabled = True, first_n = 2, last_m = 2, prompt_length_threshold = 8,
     max_num_long_requests = 8\<rparr>"

lemma demo_nelssa_mgr_built: "built_manager p True (demo_nelssa_mgr p)"
proof -
  have "get_manager_for_kv_cache_spec (FullAttentionSpec (demo_spec 64\<lparr>a_block_size := 2\<rparr>)) 8 100
      (Some demo_nelssa_config) True 0 1 1 p = Inr (demo_nelssa_mgr p, p)"
    by (simp add: get_manager_for_kv_cache_spec_def demo_nelssa_mgr_def demo_nelssa_config_def)
  then show ?thesis unfolding built_manager_def
    by (intro conjI exI) (auto simp: demo_nelssa_mgr_def new_manager_def demo_spec_def)
qed

lemma demo_nelssa_kind:
  "script_kind (demo_nelssa_mgr p)" "long_requests (demo_nelssa_mgr p) = []" "nelssa_tail_blocks (demo_nelssa_mgr p) = []"
  by (simp_all add: script_kind_def get_num_skipped_tokens_def demo_nelssa_mgr_def new_manager_def)

text \<open>A long prompt of eight tokens is prefilled; then its middle is released and reused.\<close>

definition prefill_script :: "script_op list" where
  "prefill_script = [Long ''a'' 8, Admit ''a'', Alloc ''a'' 8]"

definition reuse_script :: "script_op list" where
  "reuse_script = [Middle ''a'', Admit ''b'', Alloc ''b'' 4]"

lemma prefill_script_abs:
  "rfold (abs_step (demo_nelssa_mgr p)) prefill_script (fresh_allocator 5) =
    Inr \<lparr>free_list = [], tables = [(''a'', [Blk 1, Blk 2, Blk 3, Blk 4])], long_tails = [(''a'', 1)], admitted = [''a'']\<rparr>"
  by (simp add: prefill_script_def fresh_allocator_def abs_alloc_def demo_nelssa_mgr_def new_manager_def demo_spec_def
      table_of_def put_table_def compute_tail_layout_def cdiv_def py_len_def numeral_eq_Suc upt_rec)

lemma upto_1_2: "[1..2] = [1, 2 :: int]"
  by (simp add: upto_rec1)

lemma reuse_script_abs:
  assumes "null_block p = Blk 0"
  shows "rfold (abs_step (demo_nelssa_mgr p)) (prefill_script @ reuse_script) (fresh_allocator 5) =
    Inr \<lparr>free_list = [], tables = [(''a'', [Blk 1, Blk 0, Blk 0, Blk 4]), (''b'', [Blk 2, Blk 3])],
         long_tails = [(''a'', 1)], admitted = [''b'', ''a'']\<rparr>"
  unfolding rfold_append prefill_script_abs rbind_Inr using assms
  by (simp add: reuse_script_def abs_middle_def abs_alloc_def demo_nelssa_mgr_def
      new_manager_def demo_spec_def table_of_def put_table_def give_back_def middle_start_def cdiv_def py_len_def
      numeral_eq_Suc upt_rec upto_1_2)

theorem nelssa_middle_released_witness:
  "\<exists>m p m' p'. blocks_of m ''a'' = [Blk 1, Blk 2, Blk 3, Blk 4] \<and> free_middle_blocks ''a'' m p = Inr (m', p') \<and>
     blocks_of m' ''a'' ! 1 = null_block p \<and> blocks_of m' ''a'' ! 3 = Blk 4 \<and>
     py_len (filter (\<lambda>b. b \<noteq> null_block p) (blocks_of m' ''a'')) \<le> 2"
proof -
  obtain m p where rep: "represents (demo_nelssa_mgr demo_pool)
      \<lparr>free_list = [], tables = [(''a'', [Blk 1, Blk 2, Blk 3, Blk 4])], long_tails = [(''a'', 1)], admitted = [''a'']\<rparr> (m, p)"
    using script_run [OF demo_pool_init demo_nelssa_mgr_built demo_nelssa_kind(2,3,1) prefill_script_abs] by blast
  note s = represents_simps [OF rep]
  have tab: "blocks_of m ''a'' = [Blk 1, Blk 2, Blk 3, Blk 4]" using s(3) [of "''a''"] by (simp add: table_of_def)
  have m: "''a'' \<in> set (long_requests m)" "nelssa_head_size m = 2" "mgr_block_size m = 2"
      "map_of (nelssa_tail_blocks m) ''a'' = Some 1"
    using s(5,9,10,11) by (simp_all add: demo_nelssa_mgr_def new_manager_def demo_spec_def)
  have se: "middle_start m = 1" "middle_tail m ''a'' = 1" "middle_end m ''a'' = 3"
    using m tab by (simp_all add: middle_start_def middle_tail_def middle_end_def py_len_def)
  obtain m' p' where r: "free_middle_blocks ''a'' m p = Inr (m', p')"
    "\<forall>j < length (blocks_of m ''a''). blocks_of m' ''a'' ! j =
       (if middle_start m \<le> int j \<and> int j < middle_end m ''a'' then null_block p else blocks_of m ''a'' ! j)"
    "py_len (filter (\<lambda>b. b \<noteq> null_block p) (blocks_of m' ''a'')) \<le> middle_start m + max 0 (middle_tail m ''a'')"
    using nelssa_middle_released [OF s(1) m(1)] m(2) by auto
  have "blocks_of m' ''a'' ! 1 = null_block p" "blocks_of m' ''a'' ! 3 = Blk 4"
    using r(2) by (simp_all add: se tab)
  then show ?thesis using tab r(1,3) se by auto
qed

section \<open>Admission for full attention\<close>

lemma evictable_free:
  assumes pinv: "pool_inv p xs" and hits: "hits_ok p hits"
  shows "py_len (filter (\<lambda>b. b \<notin> set hits) xs) = py_len xs - get_num_evictable_blocks hits p"
proof -
  let ?e = "filter (\<lambda>b. refs p b = 0 \<and> \<not> is_null (heap p b)) hits"
  have "?e = filter (\<lambda>b. refs p b = 0) (filter (\<lambda>b. b \<noteq> null_block p) hits)"
    using pool_inv_null(1) [OF pinv] by (simp add: conj_commute)
  then have "distinct ?e" using hits by (simp only: hits_ok_def distinct_filter)
  moreover have "set ?e = set (filter (\<lambda>b. b \<in> set hits) xs)"
    using pool_inv_free_iff [OF pinv] pool_inv_null [OF pinv] hits by (auto simp: hits_ok_def usable_def)
  moreover have "distinct (filter (\<lambda>b. b \<in> set hits) xs)" using pinv by (simp add: pool_state_def)
  ultimately have "length ?e = length (filter (\<lambda>b. b \<in> set hits) xs)" by (metis distinct_card)
  moreover have "length xs = length (filter (\<lambda>b. b \<in> set hits) xs) + length (filter (\<lambda>b. b \<notin> set hits) xs)"
    by (rule sum_length_filter_compl [symmetric])
  ultimately show ?thesis by (simp add: get_num_evictable_blocks_def py_len_def)
qed

lemma no_skip_tables:
  assumes "mgr_class m = FullAttentionManager"
  shows "get_num_skipped_tokens m n = 0" "used_hits m hits n = hits" "computed_table m hits n = hits"
    "external_blocks m hits nl ne = (if 0 < ne then cdiv (nl + ne) (mgr_block_size m) - py_len hits else 0)"
  using assms by (simp_all add: get_num_skipped_tokens_def used_hits_def computed_skipped_def computed_table_def
      external_blocks_def)

lemma free_count: "pool_inv p xs \<Longrightarrow> get_num_free_blocks p = py_len xs"
  using fq.rel_wf by (auto simp: pool_state_def get_num_free_blocks_def)

text \<open>
  C33. The admission estimate of the NELSSA manager is too low for every long request whose table is longer
  than the head and tail: head, tail and new blocks are compared with the whole table, as if the middle
  entries (null or not) could hold the new tokens.  When the table is full, \<open>n\<close> more tokens need as many new
  blocks as they fill, the estimate is smaller, and with fewer free blocks than needed the allocation that
  the estimate admitted raises \<^verbatim>\<open>ValueError\<close>.
\<close>

theorem nelssa_estimate_too_low:
  assumes inv: "mgr_inv oth m p xs" and cls: "mgr_class m = NELSSACacheManager" "nelssa_long_mask rid m"
    and full: "c = py_len (blocks_of m rid) * mgr_block_size m" "0 < n"
    and tail: "tail = (case map_of (nelssa_tail_blocks m) rid of
        None \<Rightarrow> cdiv (nelssa_tail_size m) (mgr_block_size m) | Some t \<Rightarrow> t)"
      "cdiv (nelssa_head_size m) (mgr_block_size m) + tail < py_len (blocks_of m rid)"
  shows "\<exists>k. get_num_blocks_to_allocate rid (c + n) [] c main m p = Inr (k, m) \<and> 0 \<le> k \<and> k < cdiv n (mgr_block_size m) \<and>
    (get_num_free_blocks p < cdiv n (mgr_block_size m) \<longrightarrow> allocate_new_blocks rid (c + n) main m p = Inl ValueError)"
proof -
  let ?bs = "mgr_block_size m" and ?len = "py_len (blocks_of m rid)"
  have bs: "0 < ?bs" by (rule mgr_invD(8) [OF inv])
  have pos: "0 < cdiv n ?bs" using cdiv_le_iff [OF bs, of n 0] full(2) by linarith
  have "cdiv (c + n) ?bs \<le> z \<longleftrightarrow> cdiv n ?bs + ?len \<le> z" for z
    using cdiv_le_iff [OF bs, of "c + n" z] cdiv_le_iff [OF bs, of n "z - ?len"] full(1) by (simp add: left_diff_distrib) linarith
  then have need: "cdiv n ?bs = cdiv (c + n) ?bs - ?len" by (metis add_diff_cancel_right' order_antisym order_refl)
  define k where "k = max (cdiv (nelssa_head_size m) ?bs + tail + cdiv n ?bs - ?len) 0"
  have "get_num_blocks_to_allocate rid (c + n) [] c main m p = Inr (k, m)"
    using cls full(2)
    by (simp add: get_num_blocks_to_allocate_def nelssa_get_num_blocks_to_allocate_def nelssa_long_mask_def k_def tail(1) max_def)
  moreover have "k < cdiv n ?bs" using tail(2) pos by (simp add: k_def)
  moreover have "allocate_new_blocks rid (c + n) main m p = Inl ValueError" if "get_num_free_blocks p < cdiv n ?bs"
    using base_allocate_new_blocks_inv(2) [OF inv need _ pos] that free_count [OF mgr_invD(1) [OF inv]] cls(1)
    by (simp add: allocate_new_blocks_def)
  ultimately show ?thesis by (auto simp: k_def)
qed

theorem nelssa_estimate_too_low_witness:
  "\<exists>m p. mgrs_reach demo_env [m] p \<and> blocks_of m ''a'' = [Blk 1, Blk 0, Blk 0, Blk 4] \<and>
     get_num_blocks_to_allocate ''a'' (8 + 1) [] 8 9 m p = Inr (0, m) \<and> get_num_free_blocks p = 0 \<and>
     allocate_new_blocks ''a'' (8 + 1) 9 m p = Inl ValueError"
proof -
  obtain m p where reach: "mgrs_reach demo_env [m] p" and rep: "represents (demo_nelssa_mgr demo_pool)
      \<lparr>free_list = [], tables = [(''a'', [Blk 1, Blk 0, Blk 0, Blk 4]), (''b'', [Blk 2, Blk 3])],
       long_tails = [(''a'', 1)], admitted = [''b'', ''a'']\<rparr> (m, p)"
    using script_run [OF demo_pool_init demo_nelssa_mgr_built demo_nelssa_kind(2,3,1)
        reuse_script_abs [OF demo_pool_inv(8)], of demo_env] by blast
  note s = represents_simps [OF rep]
  have m: "mgr_class m = NELSSACacheManager" "nelssa_long_mask ''a'' m" "nelssa_head_size m = 2" "mgr_block_size m = 2"
      "map_of (nelssa_tail_blocks m) ''a'' = Some 1"
    using s(5,8,9,10,11) by (simp_all add: demo_nelssa_mgr_def new_manager_def demo_spec_def nelssa_long_mask_def)
  have tab: "blocks_of m ''a'' = [Blk 1, Blk 0, Blk 0, Blk 4]" using s(3) [of "''a''"] by (simp add: table_of_def)
  have free: "get_num_free_blocks p = 0" using represents_free [OF rep] by simp
  obtain k where "get_num_blocks_to_allocate ''a'' (8 + 1) [] 8 9 m p = Inr (k, m)" "0 \<le> k" "k < 1"
    "allocate_new_blocks ''a'' (8 + 1) 9 m p = Inl ValueError"
    using nelssa_estimate_too_low [OF s(1) m(1,2) _ _ refl, of 8 1 9] m(3-5) tab free by (auto simp: py_len_def cdiv_def)
  then show ?thesis using reach tab free by (intro exI [of _ m] exI [of _ p]) auto
qed

lemma base_allocate_succeeds:
  assumes inv: "mgr_inv oth m p xs" and free: "cdiv tokens (mgr_block_size m) - py_len (blocks_of m rid) \<le> py_len xs"
  shows "\<exists>new m' p' xs'. base_allocate_new_blocks rid tokens m p = Inr (new, m', p') \<and> mgr_inv oth m' p' xs' \<and>
    blocks_of m' rid = blocks_of m rid @ new \<and>
    py_len (blocks_of m' rid) = max (py_len (blocks_of m rid)) (cdiv tokens (mgr_block_size m))"
proof -
  define n where "n = cdiv tokens (mgr_block_size m) - py_len (blocks_of m rid)"
  note b = base_allocate_new_blocks_inv [OF inv n_def]
  show ?thesis
  proof (cases "n \<le> 0")
    case True
    then show ?thesis using b(1) mgr_inv_with_req [OF inv, of rid]
      by (intro exI [of _ "[]"] exI [of _ "with_req rid m"] exI [of _ p] exI [of _ xs]) (simp add: n_def)
  next
    case False
    then obtain m' p' where r: "base_allocate_new_blocks rid tokens m p = Inr (take (nat n) xs, m', p')"
      "mgr_inv oth m' p' (drop (nat n) xs)" "blocks_of m' rid = blocks_of m rid @ take (nat n) xs"
      using b(3) free n_def by fastforce
    have "py_len (take (nat n) xs) = n" using free False by (simp add: n_def py_len_def)
    then show ?thesis using r False n_def
      by (intro exI [of _ "take (nat n) xs"] exI [of _ m'] exI [of _ p'] exI [of _ "drop (nat n) xs"]) simp
  qed
qed

lemma full_admission:
  assumes inv: "mgr_inv oth m p xs" and cls: "mgr_class m = FullAttentionManager" "max_admission m = None"
    and req: "if is_running m rid then hits = [] else blocks_of m rid = []"
    and hits: "hits_ok p hits" "enable_caching p \<or> hits = []"
    and tokens: "nl + ne \<le> tokens" "py_len hits \<le> cdiv (nl + ne) (mgr_block_size m)"
    and est: "get_num_blocks_to_allocate rid tokens hits (nl + ne) main m p = Inr (k, m0)" "k \<le> get_num_free_blocks p"
  shows "\<exists>m1 p1 new m2 p2 xs'. allocate_new_computed_blocks rid hits nl ne m p = Inr (m1, p1) \<and>
    allocate_new_blocks rid tokens main m1 p1 = Inr (new, m2, p2) \<and> mgr_inv oth m2 p2 xs' \<and>
    take (length (blocks_of m rid @ hits)) (blocks_of m2 rid) = blocks_of m rid @ hits \<and>
    cdiv tokens (mgr_block_size m) \<le> py_len (blocks_of m2 rid)"
proof -
  let ?bs = "mgr_block_size m"
  note pinv = mgr_invD(1) [OF inv] and bs = mgr_invD(8) [OF inv] and ns = no_skip_tables [OF cls(1)]
  have k: "k \<le> py_len xs" using est(2) free_count [OF pinv] by simp
  have base: "base_get_num_blocks_to_allocate rid tokens hits (nl + ne) m p = Inr k"
    using est(1) cls(1) by (auto simp: get_num_blocks_to_allocate_def rbind_eq_Inr)
  have alloc: "allocate_new_blocks rid tokens main m' p' = base_allocate_new_blocks rid tokens m' p'"
    "allocate_new_computed_blocks rid hits nl ne m p = base_allocate_new_computed_blocks rid hits nl ne m p"
    if "mgr_const m' = mgr_const m" for m' p'
    using cls(1) mgr_constD(1) [OF that] by (simp_all add: allocate_new_blocks_def allocate_new_computed_blocks_def)
  show ?thesis
  proof (cases "is_running m rid")
    case True
    then have h: "hits = []" using req by simp
    have "cdiv tokens ?bs - py_len (blocks_of m rid) \<le> py_len xs"
      using base k True h cls(2) by (simp add: base_get_num_blocks_to_allocate_def Let_def)
    from base_allocate_succeeds [OF inv this] obtain new m2 p2 xs' where r:
      "base_allocate_new_blocks rid tokens m p = Inr (new, m2, p2)" "mgr_inv oth m2 p2 xs'"
      "blocks_of m2 rid = blocks_of m rid @ new" "cdiv tokens ?bs \<le> py_len (blocks_of m2 rid)" by auto
    have "allocate_new_computed_blocks rid hits nl ne m p = Inr (m, p)"
      using alloc(2) True h by (simp add: base_allocate_new_computed_blocks_def)
    then show ?thesis using r alloc(1) [of m p] h
      by (intro exI [of _ m] exI [of _ p] exI [of _ new] exI [of _ m2] exI [of _ p2] exI [of _ xs']) simp
  next
    case False
    then have b0: "blocks_of m rid = []" using req by simp
    define n where "n = external_blocks m hits nl ne"
    define free where "free = filter (\<lambda>b. b \<notin> set hits) xs"
    have n0: "0 \<le> n" "py_len hits + n \<le> max (py_len hits) (cdiv (nl + ne) ?bs)" using tokens(2) by (auto simp: n_def ns(4))
    have le: "cdiv (nl + ne) ?bs \<le> cdiv tokens ?bs" by (rule cdiv_mono [OF bs tokens(1)])
    have k_eq: "k = max (cdiv tokens ?bs - py_len hits) 0 + get_num_evictable_blocks hits p"
      using base False b0 cls(2) by (simp add: base_get_num_blocks_to_allocate_def Let_def ns(1) py_from_def py_clamp_def)
    have fr: "max (cdiv tokens ?bs - py_len hits) 0 \<le> py_len free"
      unfolding free_def using evictable_free [OF pinv hits(1)] k k_eq by linarith
    have nf: "n \<le> py_len free" using n0 fr le tokens(2) by linarith
    obtain m1 p1 where r1: "base_allocate_new_computed_blocks rid hits nl ne m p = Inr (m1, p1)"
      "mgr_inv oth m1 p1 (drop (nat n) free)" "mgr_const m1 = mgr_const m" "blocks_of m1 rid = hits @ take (nat n) free"
      using allocate_computed_inv(2) [OF inv False b0 hits n_def n0(1) refl] nf
      unfolding ns(2,3) free_def [symmetric] by auto
    have len1: "py_len (blocks_of m1 rid) = py_len hits + n" "py_len (drop (nat n) free) = py_len free - n"
      using r1(4) n0(1) nf by (simp_all add: py_len_def)
    have "cdiv tokens (mgr_block_size m1) - py_len (blocks_of m1 rid) \<le> py_len (drop (nat n) free)"
      using len1 fr mgr_constD(2) [OF r1(3)] by simp
    from base_allocate_succeeds [OF r1(2) this] obtain new m2 p2 xs' where r2:
      "base_allocate_new_blocks rid tokens m1 p1 = Inr (new, m2, p2)" "mgr_inv oth m2 p2 xs'"
      "blocks_of m2 rid = blocks_of m1 rid @ new" "cdiv tokens ?bs \<le> py_len (blocks_of m2 rid)"
      using mgr_constD(2) [OF r1(3)] by auto
    then show ?thesis using r1 alloc [OF r1(3)] b0
      by (intro exI [of _ m1] exI [of _ p1] exI [of _ new] exI [of _ m2] exI [of _ p2] exI [of _ xs']) simp
  qed
qed

text \<open>
  C7. For full attention the admission estimate is sufficient: when it is at most the number of
  free blocks, taking the prefix-cache hits, the blocks of the external tokens and the new blocks
  succeeds, the request's table starts with the hits and covers all tokens, and the invariant
  holds.  A running request has no new hits.
\<close>

theorem full_attention_admission_sound:
  assumes inv: "mgr_inv oth m p xs" and cls: "mgr_class m = FullAttentionManager" "max_admission m = None"
    and req: "if is_running m rid then hits = [] else blocks_of m rid = []"
    and hits: "hits_ok p hits" "enable_caching p \<or> hits = []"
    and tokens: "nl + ne \<le> tokens" "py_len hits \<le> cdiv (nl + ne) (mgr_block_size m)"
    and est: "get_num_blocks_to_allocate rid tokens hits (nl + ne) main m p = Inr (k, m0)" "k \<le> get_num_free_blocks p"
  shows "\<exists>m1 p1 new m2 p2 xs'. allocate_new_computed_blocks rid hits nl ne m p = Inr (m1, p1) \<and>
    allocate_new_blocks rid tokens main m1 p1 = Inr (new, m2, p2) \<and> mgr_inv oth m2 p2 xs' \<and>
    take (length (blocks_of m rid @ hits)) (blocks_of m2 rid) = blocks_of m rid @ hits \<and>
    cdiv tokens (mgr_block_size m) \<le> py_len (blocks_of m2 rid)"
  by (rule full_admission [OF assms])

theorem full_attention_admission_sound_witness:
  "\<exists>k m0 m1 p1 new m2 p2. get_num_blocks_to_allocate ''a'' 5 [] (0 + 2) 5 (demo_mgr demo_pool) demo_pool = Inr (k, m0) \<and>
     k \<le> get_num_free_blocks demo_pool \<and>
     allocate_new_computed_blocks ''a'' [] 0 2 (demo_mgr demo_pool) demo_pool = Inr (m1, p1) \<and>
     allocate_new_blocks ''a'' 5 5 m1 p1 = Inr (new, m2, p2) \<and> 3 \<le> py_len (blocks_of m2 ''a'')"
proof -
  let ?m = "demo_mgr demo_pool"
  have m: "mgr_class ?m = FullAttentionManager" "max_admission ?m = None" "mgr_block_size ?m = 2" "blocks_of ?m ''a'' = []"
    "\<not> is_running ?m ''a''"
    by (simp_all add: demo_mgr_def new_manager_def demo_spec_def blocks_of_def is_running_def)
  have est: "get_num_blocks_to_allocate ''a'' 5 [] (0 + 2) 5 ?m demo_pool = Inr (3, ?m)"
    using m by (simp add: get_num_blocks_to_allocate_def base_get_num_blocks_to_allocate_def Let_def cdiv_def
        get_num_skipped_tokens_def get_num_evictable_blocks_def)
  have free: "3 \<le> get_num_free_blocks demo_pool" using free_count [OF demo_pool_inv(1)] by (simp add: py_len_def)
  have "\<exists>m1 p1 new m2 p2 xs'. allocate_new_computed_blocks ''a'' [] 0 2 ?m demo_pool = Inr (m1, p1) \<and>
    allocate_new_blocks ''a'' 5 5 m1 p1 = Inr (new, m2, p2) \<and> mgr_inv (\<lambda>_. 0) m2 p2 xs' \<and>
    take (length (blocks_of ?m ''a'' @ [])) (blocks_of m2 ''a'') = blocks_of ?m ''a'' @ [] \<and>
    cdiv 5 (mgr_block_size ?m) \<le> py_len (blocks_of m2 ''a'')"
    using m by (intro full_attention_admission_sound [OF demo_mgr_inv m(1,2) _ _ _ _ _ est free])
      (simp_all add: hits_ok_def cdiv_def)
  then show ?thesis using est free m(3) by (fastforce simp: cdiv_def)
qed

section \<open>Attention sinks\<close>

lemma free_le_usable:
  assumes "pool_inv p xs"
  shows "py_len xs \<le> num_gpu_blocks p - 1"
proof -
  have b: "blocks p = map Blk [0..<nat (num_gpu_blocks p)]" "null_block p = Blk 0" "0 < num_gpu_blocks p" "distinct xs"
    using assms by (auto simp: pool_state_def pool_wf_def)
  have "set xs \<subseteq> set (map Blk [1..<nat (num_gpu_blocks p)])"
  proof
    fix c assume "c \<in> set xs"
    then have "c \<in> set (blocks p)" "c \<noteq> Blk 0"
      using pool_inv_free_iff [OF assms, of c] b(2) by (auto simp: usable_def)
    then show "c \<in> set (map Blk [1..<nat (num_gpu_blocks p)])" unfolding b(1) by (auto simp: Suc_le_eq)
  qed
  then have "card (set xs) \<le> card (set (map Blk [1..<nat (num_gpu_blocks p)]))" by (rule card_mono [rotated]) simp
  also have "\<dots> = nat (num_gpu_blocks p) - 1" by (simp add: card_image inj_on_def)
  finally show ?thesis using b(3,4) distinct_card [of xs] by (simp add: py_len_def)
qed

text \<open>
  C34. A sink manager takes its blocks out of the free queue when it is built and never references
  them.  From then on the pool counts a block as used although no block has a reference, so the
  prefix cache cannot be reset.
\<close>

theorem sink_blocks_prevent_reset:
  assumes "pool_inv p xs" "new_sink_manager s p caching gid dcp pcp = Inr (m, p')" "0 < mgr_block_size m"
  shows "sink_blocks m \<noteq> [] \<and> (\<forall>b. refs p' b = refs p b) \<and> \<not> fst (pool_reset_prefix_cache p')"
proof -
  let ?m = "new_manager SinkFullAttentionManager (SinkFullAttentionSpec s) p caching gid dcp pcp None"
  obtain n bs where n: "0 < n" "n mod mgr_block_size ?m = 0" "popleft_n (n div mgr_block_size ?m) p = Inr (bs, p')"
    "m = ?m\<lparr>sink_blocks := bs\<rparr>"
    using assms(2) by (auto simp: new_sink_manager_def Let_def rbind_eq_Inr split: option.splits)
  define k where "k = n div mgr_block_size ?m"
  have bs: "0 < mgr_block_size ?m" using assms(3) n(4) by simp
  have "n = k * mgr_block_size ?m" using n(2) by (simp add: k_def mod_0_imp_dvd)
  then have k: "0 < k" using n(1) bs mult_nonpos_nonneg [of k "mgr_block_size ?m"] by linarith
  have q: "queue_rel p xs" using assms(1) by (simp add: pool_state_def)
  have free: "num_free_blocks p = py_len xs" using q fq.rel_wf by blast
  have le: "k \<le> py_len xs"
  proof (rule ccontr)
    assume "\<not> k \<le> py_len xs"
    then have "popleft_n k p = Inl AssertionError" using fq.popn_too_many [OF q] by simp
    then show False using n(3) by (simp add: k_def)
  qed
  obtain q' where q': "popleft_n k p = Inr (take (nat k) xs, q')" "queue_rel q' (drop (nat k) xs)" "queue_frame q' = queue_frame p"
    using fq.popn_take [OF q less_imp_le [OF k] le] by blast
  then have p': "q' = p'" "bs = take (nat k) xs" using n(3) unfolding k_def [symmetric] by simp_all
  have fr: "same_meta (heap p) (heap p')" "free_queue.more p' = free_queue.more p"
    using q'(3) p'(1) by (simp_all add: queue_frame_def same_meta_def fun_eq_iff)
  have r: "refs p' b = refs p b" "num_gpu_blocks p' = num_gpu_blocks p" for b
    using same_metaD(1) [OF fr(1)] pool_const_eqD(1) [OF pool_more_fields(1) [OF fr(2)]] by auto
  have "num_free_blocks p' = py_len (drop (nat k) xs)" using q'(2) p'(1) fq.rel_wf by blast
  then have "num_free_blocks p' = py_len xs - k" using k le by (simp add: py_len_def)
  then have "num_gpu_blocks p' - num_free_blocks p' \<noteq> 1" using free_le_usable [OF assms(1)] k r(2) by linarith
  moreover have "sink_blocks m \<noteq> []" using n(4) p'(2) k le by (auto simp: py_len_def)
  ultimately show ?thesis using r(1) by (simp add: pool_reset_prefix_cache_def)
qed

definition demo_sink_spec :: sink_full_attention_spec where
  "demo_sink_spec = \<lparr>a_block_size = 2, a_num_kv_heads = 1, a_head_size = 8, a_dtype = ''bfloat16'',
     a_kv_quant_mode = QUANT_NONE, a_page_size_padded = None, f_head_size_v = 8, f_sliding_window = None,
     f_attention_chunk_size = None, sink_len = Some 4\<rparr>"

theorem sink_blocks_prevent_reset_witness:
  "\<exists>m p'. new_sink_manager demo_sink_spec demo_pool True 0 1 1 = Inr (m, p') \<and> sink_blocks m \<noteq> [] \<and>
     \<not> fst (pool_reset_prefix_cache p')"
proof -
  have demo_queue: "queue_rel demo_pool [Blk 1, Blk 2, Blk 3, Blk 4]" using demo_pool_inv(1) by (simp add: pool_state_def)
  obtain p' where "popleft_n 2 demo_pool = Inr ([Blk 1, Blk 2], p')"
    using fq.popn_take [OF demo_queue, of 2] by (auto simp: py_len_def)
  then have run: "new_sink_manager demo_sink_spec demo_pool True 0 1 1 =
      Inr ((new_manager SinkFullAttentionManager (SinkFullAttentionSpec demo_sink_spec) demo_pool True 0 1 1 None)
        \<lparr>sink_blocks := [Blk 1, Blk 2]\<rparr>, p')"
    by (simp add: new_sink_manager_def demo_sink_spec_def new_manager_def)
  show ?thesis
    using sink_blocks_prevent_reset [OF demo_pool_inv(1) run] run by (auto simp: new_manager_def demo_sink_spec_def)
qed

end
