(* ===== verification/Cache_Hit_Props.thy ===== *)
theory Cache_Hit_Props
  imports Cache_Hit Admission_Props
begin

text \<open>
  What \<^verbatim>\<open>find_longest_cache_hit\<close> returns.  \<open>stores p b h g\<close> says that block \<open>b\<close> is registered under
  hash \<open>h\<close> for group \<open>g\<close>; \<open>all_cached\<close> that every group has such a block.  Every hit of every class
  is sound (\<open>hit_lists_ok\<close>); for full attention and sliding windows it is also the longest.
\<close>

section \<open>Lookup\<close>

definition stores :: "block_pool \<Rightarrow> blk \<Rightarrow> bytes \<Rightarrow> int \<Rightarrow> bool" where
  "stores p b h g \<longleftrightarrow> usable p b \<and> hashes p b \<noteq> None \<and> make_block_hash_with_group_id h g = Inr (the (hashes p b))"

definition all_cached :: "block_pool \<Rightarrow> int list \<Rightarrow> bytes \<Rightarrow> bool" where
  "all_cached p gids h \<longleftrightarrow> list_all (\<lambda>g. \<exists>b. stores p b h g) gids"

definition gids_ok :: "int list \<Rightarrow> bool" where
  "gids_ok gids \<longleftrightarrow> gids \<noteq> [] \<and> list_all (\<lambda>g. 0 \<le> g \<and> g < 2 ^ 32) gids"

definition hit_of :: "block_pool \<Rightarrow> int list \<Rightarrow> bytes \<Rightarrow> blk list" where
  "hit_of p gids h = (case cached_block h gids p of Inr (Some bs) \<Rightarrow> bs | _ \<Rightarrow> [])"

lemma cached_block_cases:
  assumes "pool_inv p xs" "gids_ok gids"
  shows "cached_block h gids p = Inr (if all_cached p gids h then Some (hit_of p gids h) else None)"
    "all_cached p gids h \<Longrightarrow> list_all2 (\<lambda>g b. stores p b h g) gids (hit_of p gids h)"
proof -
  obtain res where res: "get_cached_block h gids p = Inr res"
    "case res of
       None \<Rightarrow> \<exists>g\<in>set gids. \<exists>key. make_block_hash_with_group_id h g = Inr key \<and> (\<forall>b. hashes p b \<noteq> Some key)
     | Some bs \<Rightarrow> list_all2 (\<lambda>g b. usable p b \<and> make_block_hash_with_group_id h g = Inr (the (hashes p b))
                                  \<and> hashes p b \<noteq> None) gids bs"
    using get_cached_block_cases [OF assms(1)] assms(2) by (auto simp: gids_ok_def)
  have "cached_block h gids p = Inr (if all_cached p gids h then Some (hit_of p gids h) else None) \<and>
    (all_cached p gids h \<longrightarrow> list_all2 (\<lambda>g b. stores p b h g) gids (hit_of p gids h))"
  proof (cases res)
    case None
    then obtain g key where g: "g \<in> set gids" "make_block_hash_with_group_id h g = Inr key" "\<forall>b. hashes p b \<noteq> Some key"
      using res(2) by auto
    then have "\<not> stores p b h g" for b by (auto simp: stores_def)
    then have "\<not> all_cached p gids h" using g(1) by (auto simp: all_cached_def list_all_iff)
    then show ?thesis using res(1) None by (simp add: cached_block_def)
  next
    case (Some bs)
    then have all: "list_all2 (\<lambda>g b. stores p b h g) gids bs"
      using res(2) by (auto simp: stores_def elim: list_all2_mono)
    then have "bs \<noteq> []" using assms(2) by (auto simp: gids_ok_def)
    then have c: "cached_block h gids p = Inr (Some bs)" using res(1) Some by (simp add: cached_block_def)
    moreover have "all_cached p gids h"
      using all by (fastforce simp: all_cached_def list_all_iff list_all2_conv_all_nth in_set_conv_nth)
    ultimately show ?thesis using all by (simp add: hit_of_def)
  qed
  then show "cached_block h gids p = Inr (if all_cached p gids h then Some (hit_of p gids h) else None)"
    "all_cached p gids h \<Longrightarrow> list_all2 (\<lambda>g b. stores p b h g) gids (hit_of p gids h)" by blast+
qed

lemma hit_of_nth:
  assumes "pool_inv p xs" "gids_ok gids" "all_cached p gids h"
  shows "length (hit_of p gids h) = length gids" "k < length gids \<Longrightarrow> stores p (hit_of p gids h ! k) h (gids ! k)"
  using cached_block_cases(2) [OF assms] by (auto simp: list_all2_conv_all_nth)

definition bhl_wf :: "block_hash_list \<Rightarrow> bool" where
  "bhl_wf hl \<longleftrightarrow> (case hl of Plain _ \<Rightarrow> True | Scaled _ k \<Rightarrow> 0 < k)"

lemma bhl_value_nth:
  assumes "bhl_wf hl" "i < length (bhl_list hl)"
  shows "bhl_value_at hl (int i) = Inr (bhl_list hl ! i)"
  using assms by (cases hl) (auto simp: bhl_wf_def py_get_def py_len_def)

section \<open>Shortening\<close>

text \<open>\<open>aligned_len bs al n\<close> is the greatest length up to \<open>n\<close> whose tokens are a multiple of \<open>al\<close>.\<close>

definition aligned :: "int \<Rightarrow> int \<Rightarrow> nat \<Rightarrow> bool" where
  "aligned bs al n \<longleftrightarrow> bs = al \<or> (int n * bs) mod al = 0"

fun aligned_len :: "int \<Rightarrow> int \<Rightarrow> nat \<Rightarrow> nat" where
  "aligned_len bs al 0 = 0"
| "aligned_len bs al (Suc n) = (if aligned bs al (Suc n) then Suc n else aligned_len bs al n)"

lemma aligned_0 [simp]: "aligned bs al 0"
  by (simp add: aligned_def)

lemma aligned_len_le: "aligned_len bs al n \<le> n"
  by (induction n) auto

lemma aligned_len_aligned: "aligned bs al (aligned_len bs al n)"
  by (induction n) auto

lemma aligned_len_greatest: "k \<le> n \<Longrightarrow> aligned bs al k \<Longrightarrow> k \<le> aligned_len bs al n"
  by (induction n) (auto simp: le_Suc_eq)

lemma aligned_len_id: "aligned bs al n \<Longrightarrow> aligned_len bs al n = n"
  using aligned_len_greatest [of n n bs al] aligned_len_le [of bs al n] by simp

definition uniform :: "nat \<Rightarrow> blk list list \<Rightarrow> bool" where
  "uniform n cs \<longleftrightarrow> cs \<noteq> [] \<and> list_all (\<lambda>c. length c = n) cs"

lemma uniform_take_id: "uniform n cs \<Longrightarrow> map (take n) cs = cs"
  by (auto simp: uniform_def list_all_iff intro: map_idI)

lemma pop_each_uniform:
  assumes "uniform (Suc n) cs"
  shows "pop_each cs = Inr (map (take n) cs)" "uniform n (map (take n) cs)"
proof -
  have "pop_each cs = Inr (map butlast cs)"
    unfolding pop_each_def using assms by (intro rmap_all_Inr) (auto simp: uniform_def list_all_iff)
  then show "pop_each cs = Inr (map (take n) cs)"
    using assms by (auto simp: uniform_def list_all_iff butlast_conv_take)
  show "uniform n (map (take n) cs)" using assms by (simp add: uniform_def list_all_iff)
qed

lemma align_loop_uniform:
  assumes "uniform n cs"
  shows "align_loop bs al cs = Inr (map (take (aligned_len bs al n)) cs)"
  using assms
proof (induction n arbitrary: cs)
  case 0
  then obtain c rest where c: "cs = c # rest" "c = []" by (cases cs) (auto simp: uniform_def)
  have "align_loop bs al cs = Inr cs" using c by (simp add: align_loop.simps)
  then show ?case using uniform_take_id [OF 0] by simp
next
  case (Suc n)
  then obtain c rest where c: "cs = c # rest" "length c = Suc n" by (cases cs) (auto simp: uniform_def)
  show ?case
  proof (cases "aligned bs al (Suc n)")
    case True
    then have "align_loop bs al cs = Inr cs" using c by (auto simp: align_loop.simps aligned_def py_len_def)
    then show ?thesis using uniform_take_id [OF Suc.prems] True by simp
  next
    case False
    have "aligned_len bs al n \<le> n" by (rule aligned_len_le)
    then have "map (take (aligned_len bs al n)) (map (take n) cs) = map (take (aligned_len bs al n)) cs"
      by (simp add: min_absorb1)
    moreover have "align_loop bs al cs = align_loop bs al (map (take n) cs)"
      using False c pop_each_uniform(1) [OF Suc.prems]
      by (subst align_loop.simps) (simp add: aligned_def py_len_def)
    ultimately show ?thesis using Suc.IH [OF pop_each_uniform(2) [OF Suc.prems]] False by simp
  qed
qed

lemma eagle_pop_uniform:
  assumes "uniform n cs"
  shows "eagle_pop use_eagle cs = Inr (map (take (n - of_bool use_eagle)) cs)"
    "uniform (n - of_bool use_eagle) (map (take (n - of_bool use_eagle)) cs)"
proof -
  obtain c rest where c: "cs = c # rest" "length c = n" using assms by (cases cs) (auto simp: uniform_def)
  note id = uniform_take_id [OF assms]
  show "eagle_pop use_eagle cs = Inr (map (take (n - of_bool use_eagle)) cs)"
    using c id assms pop_each_uniform(1) [of "n - 1" cs]
    by (cases n; cases use_eagle) (auto simp: eagle_pop_def py_get_def)
  show "uniform (n - of_bool use_eagle) (map (take (n - of_bool use_eagle)) cs)"
    using assms by (simp add: uniform_def list_all_iff)
qed

section \<open>Full attention\<close>

text \<open>The hits of a list of hashes, one list per group.\<close>

definition columns :: "block_pool \<Rightarrow> int list \<Rightarrow> bytes list \<Rightarrow> blk list list" where
  "columns p gids hs = map (\<lambda>k. map (\<lambda>h. hit_of p gids h ! k) hs) [0..<length gids]"

lemma columns_uniform: "gids_ok gids \<Longrightarrow> uniform (length hs) (columns p gids hs)"
  by (auto simp: columns_def uniform_def gids_ok_def list_all_iff)

lemma columns_take: "map (take n) (columns p gids hs) = columns p gids (take n hs)"
  by (simp add: columns_def take_map)

lemma append_each_columns:
  assumes "length (hit_of p gids h) = length gids"
  shows "append_each (columns p gids hs) (hit_of p gids h) = columns p gids (hs @ [h])"
  using assms by (intro nth_equalityI) (simp_all add: append_each_def columns_def)

lemma full_hit_loop_columns:
  assumes "pool_inv p xs" "gids_ok gids"
  shows "full_hit_loop gids p hs (columns p gids pre) = Inr (columns p gids (pre @ takeWhile (all_cached p gids) hs))"
proof (induction hs arbitrary: pre)
  case (Cons h hs)
  then show ?case
    using cached_block_cases(1) [OF assms, of h] append_each_columns [OF hit_of_nth(1) [OF assms], of h pre]
    by simp
qed simp

lemma columns_nth:
  assumes "pool_inv p xs" "gids_ok gids" "list_all (all_cached p gids) hs" "k < length gids" "j < length hs"
  shows "stores p (columns p gids hs ! k ! j) (hs ! j) (gids ! k)"
  using assms hit_of_nth(2) [OF assms(1,2)] by (simp add: columns_def list_all_length)

definition full_hashes :: "block_hash_list \<Rightarrow> int \<Rightarrow> int list \<Rightarrow> block_pool \<Rightarrow> bytes list" where
  "full_hashes hl n gids p = takeWhile (all_cached p gids) (take (nat n) (bhl_list hl))"

lemma full_hit_columns:
  assumes inv: "pool_inv p xs" and gids: "gids_ok gids" and spec: "is_full_attention spec \<or> is_chunked_spec spec"
    and bs: "bs = (if 1 < dcp * pcp then spec_block_size spec * (dcp * pcp) else spec_block_size spec)"
    and n: "n = max_length div bs" "0 \<le> n"
    and len: "k = length (full_hashes hl n gids p)"
  shows "full_find_longest_cache_hit hl max_length gids p spec use_eagle al dcp pcp =
    Inr (columns p gids (take (aligned_len bs al (k - of_bool use_eagle)) (full_hashes hl n gids p)))"
proof -
  let ?hs = "full_hashes hl n gids p"
  have init: "replicate (length gids) [] = columns p gids []"
    by (simp add: columns_def map_replicate_const)
  have "full_hit_loop gids p (take (nat n) (bhl_list hl)) (replicate (length gids) []) = Inr (columns p gids ?hs)"
    unfolding init using full_hit_loop_columns [OF inv gids, of _ "[]"] by (simp add: full_hashes_def)
  moreover note u = columns_uniform [OF gids, of ?hs p]
  note e = eagle_pop_uniform [OF u, of use_eagle]
  have "aligned_len bs al (k - of_bool use_eagle) \<le> k - of_bool use_eagle" by (rule aligned_len_le)
  then have "rbind (eagle_pop use_eagle (columns p gids ?hs)) (align_loop bs al) =
      Inr (columns p gids (take (aligned_len bs al (k - of_bool use_eagle)) ?hs))"
    using align_loop_uniform [OF e(2), of bs al] by (simp add: e(1) len columns_take min_absorb1)
  ultimately show ?thesis
    using spec n(2) unfolding full_find_longest_cache_hit_def by (simp add: bs [symmetric] n(1) [symmetric])
qed

text \<open>
  C14. For full attention the hit is the longest cached prefix: the search never fails, every group
  gets the same number of blocks, each registered under the hash at its position, and that number
  is the greatest aligned length within the cached prefix of the first
  \<^verbatim>\<open>max_length // block_size\<close> hashes, one block less when the last block is dropped for EAGLE.
\<close>

theorem full_hit_is_longest_prefix:
  assumes "pool_inv p xs" "gids_ok gids" "is_full_attention spec \<or> is_chunked_spec spec"
    and "bs = (if 1 < dcp * pcp then spec_block_size spec * (dcp * pcp) else spec_block_size spec)"
    and "0 < bs" "0 \<le> max_length"
    and "k = length (takeWhile (all_cached p gids) (take (nat (max_length div bs)) (bhl_list hl)))"
    and "k' = k - (if use_eagle then 1 else 0)"
  shows "\<exists>cs L. full_find_longest_cache_hit hl max_length gids p spec use_eagle al dcp pcp = Inr cs \<and>
    length cs = length gids \<and> L \<le> k' \<and> aligned bs al L \<and> (\<forall>L'. L < L' \<and> L' \<le> k' \<longrightarrow> \<not> aligned bs al L') \<and>
    (\<forall>g < length gids. length (cs ! g) = L \<and> (\<forall>j < L. stores p (cs ! g ! j) (bhl_list hl ! j) (gids ! g)))"
proof -
  define n where "n = max_length div bs"
  define hs where "hs = full_hashes hl n gids p"
  define L where "L = aligned_len bs al (k - of_bool use_eagle)"
  have n0: "0 \<le> n" using assms(5,6) by (simp add: n_def pos_imp_zdiv_nonneg_iff)
  have k: "k = length hs" using assms(7) by (simp add: hs_def full_hashes_def n_def)
  have run: "full_find_longest_cache_hit hl max_length gids p spec use_eagle al dcp pcp = Inr (columns p gids (take L hs))"
    unfolding L_def hs_def by (rule full_hit_columns [OF assms(1-4) n_def n0]) (simp add: k hs_def)
  have k': "L = aligned_len bs al k'" using assms(8) by (simp add: L_def of_bool_def)
  have L: "L \<le> k'" "aligned bs al L" unfolding k' by (rule aligned_len_le aligned_len_aligned)+
  have max: "\<not> aligned bs al L'" if "L < L'" "L' \<le> k'" for L'
    using aligned_len_greatest [OF that(2), of bs al] that(1) k' by auto
  have len: "length (take L hs) = L" using L(1) assms(8) k by (simp split: if_splits)
  have cached: "list_all (all_cached p gids) (take L hs)"
    by (auto simp: list_all_iff hs_def full_hashes_def dest!: in_set_takeD set_takeWhileD)
  have nth: "take L hs ! j = bhl_list hl ! j" if "j < L" for j
  proof -
    have "j < length hs" using that len by simp
    moreover from this have "j < length (take (nat n) (bhl_list hl))"
      using length_takeWhile_le [of "all_cached p gids" "take (nat n) (bhl_list hl)"]
      by (simp add: hs_def full_hashes_def del: length_take)
    ultimately show ?thesis using that by (simp add: hs_def full_hashes_def takeWhile_nth)
  qed
  have "stores p (columns p gids (take L hs) ! g ! j) (bhl_list hl ! j) (gids ! g)"
    if "g < length gids" "j < L" for g j
    using columns_nth [OF assms(1,2) cached that(1), of j] that(2) len nth by simp
  moreover have "length (columns p gids (take L hs) ! g) = L" "length (columns p gids (take L hs)) = length gids"
    if "g < length gids" for g
    using that len by (simp_all add: columns_def)
  ultimately show ?thesis
    using run L max by (intro exI [of _ "columns p gids (take L hs)"] exI [of _ L]) (auto simp: columns_def)
qed

text \<open>A pool whose blocks 1 and 2 are registered under the two block hashes of a request.\<close>

lemma demo_cached:
  obtains p r where "pool_inv p [Blk 3, Blk 4]" "pool_const p = pool_const demo_pool"
    "hashes_ok demo_env 2 r" "all_token_ids r = [1, 2, 3, 4, 5]" "length (block_hashes r) = 2"
    "stores p (Blk 1) (block_hashes r ! 0) 0" "stores p (Blk 2) (block_hashes r ! 1) 0"
    "\<And>b. b \<noteq> Blk 1 \<Longrightarrow> b \<noteq> Blk 2 \<Longrightarrow> hashes p b = None"
proof -
  obtain q where q: "pool_inv q [Blk 3, Blk 4]" "pool_const q = pool_const demo_pool" "hashes q = (\<lambda>_. None)"
    using get_new_blocks_state [OF demo_pool_inv(1), of 2] by (auto simp: py_len_def demo_pool_inv fun_eq_iff)
  obtain r where r: "hashes_ok demo_env 2 r" "all_token_ids r = [1, 2, 3, 4, 5]"
    using demo_requests [of "[1, 2, 3, 4, 5]" "[]" "[]"] by auto
  have len: "length (block_hashes r) = 2" using r by (simp add: hashes_ok_def full_blocks_def num_tokens_def)
  then obtain h0 h1 where h: "block_hashes r = [h0, h1]"
    by (auto simp: length_Suc_conv numeral_2_eq_2)
  note k = pool_const_eqD [OF q(2)]
  have f: "blocks q = [Blk 0, Blk 1, Blk 2, Blk 3, Blk 4]" "null_block q = Blk 0" "hash_block_size q = 2"
    using k by (simp_all add: demo_pool_inv)
  have "cacheable q r [Blk 1, Blk 2] 0 2 2 0"
    using h q(3) by (simp add: cacheable_def f hash_list_for_def py_len_def idx_simps)
  from cacheable_state [OF q(1) this, of demo_env] obtain p g where p: "pool_inv p [Blk 3, Blk 4]"
    "pool_const p = pool_const q" "to_bytes4 0 = Inr g"
    "hashes p = hashes q ++ map_of (cache_keys g (Blk 0) [Blk 1, Blk 2] [h0, h1])"
    using h by (auto simp: f hash_list_for_def idx_simps)
  have hp: "hashes p = [Blk 1 \<mapsto> h0 @ g, Blk 2 \<mapsto> h1 @ g]"
    using p(4) unfolding q(3) by (simp add: cache_keys_def fun_upd_twist)
  have "usable p (Blk 1)" "usable p (Blk 2)"
    using pool_const_eqD [OF p(2)] f by (auto simp: usable_def)
  then have "stores p (Blk 1) h0 0" "stores p (Blk 2) h1 0"
    using hp p(3) by (auto simp: stores_def make_block_hash_with_group_id_def)
  then have st: "stores p (Blk 1) (block_hashes r ! 0) 0" "stores p (Blk 2) (block_hashes r ! 1) 0"
    using h by simp_all
  have const: "pool_const p = pool_const demo_pool" using p(2) q(2) by simp
  show ?thesis by (rule that [OF p(1) const r len st]) (simp add: hp)
qed

definition demo_full_spec :: kv_cache_spec where
  "demo_full_spec = FullAttentionSpec ((demo_spec 8)\<lparr>a_block_size := 2\<rparr>)"

lemma demo_all_cached:
  assumes "stores p (Blk 1) (block_hashes r ! 0) 0" "stores p (Blk 2) (block_hashes r ! 1) 0" "length (block_hashes r) = 2"
  shows "list_all (all_cached p [0]) (block_hashes r)"
proof -
  have "all_cached p [0] (block_hashes r ! 0)" "all_cached p [0] (block_hashes r ! 1)"
    using assms(1,2) by (auto simp: all_cached_def)
  then have "all_cached p [0] (block_hashes r ! j)" if "j < 2" for j
    using that by (cases j) auto
  then show ?thesis using assms(3) by (simp add: list_all_length)
qed

theorem full_hit_is_longest_prefix_witness:
  "\<exists>p (r :: request) cs. all_token_ids r = [1, 2, 3, 4, 5] \<and>
     full_find_longest_cache_hit (Plain (block_hashes r)) 4 [0] p demo_full_spec False 2 1 1 = Inr cs \<and>
     length (cs ! 0) = 2 \<and> stores p (cs ! 0 ! 1) (block_hashes r ! 1) 0"
proof -
  obtain p and r :: request where d: "pool_inv p [Blk 3, Blk 4]" "all_token_ids r = [1, 2, 3, 4, 5]" "length (block_hashes r) = 2"
    "stores p (Blk 1) (block_hashes r ! 0) 0" "stores p (Blk 2) (block_hashes r ! 1) 0"
    by (rule demo_cached) blast
  let ?hl = "Plain (block_hashes r)"
  have tw: "takeWhile (all_cached p [0]) (block_hashes r) = block_hashes r"
    using demo_all_cached [OF d(4,5,3)] by (simp add: takeWhile_eq_all_conv list_all_iff)
  have k: "2 = length (takeWhile (all_cached p [0]) (take (nat (4 div 2)) (bhl_list ?hl)))"
    using d(3) by (simp add: tw)
  have k': "(2::nat) = 2 - (if False then 1 else 0)" by simp
  have spec: "gids_ok [0]" "is_full_attention demo_full_spec \<or> is_chunked_spec demo_full_spec"
    "2 = (if 1 < 1 * (1::int) then spec_block_size demo_full_spec * (1 * 1) else spec_block_size demo_full_spec)"
    by (simp_all add: gids_ok_def demo_full_spec_def)
  obtain cs L where c: "full_find_longest_cache_hit ?hl 4 [0] p demo_full_spec False 2 1 1 = Inr cs"
    "L \<le> 2" "\<forall>L'. L < L' \<and> L' \<le> 2 \<longrightarrow> \<not> aligned 2 2 L'"
    "\<forall>g < length [0::int]. length (cs ! g) = L \<and> (\<forall>j < L. stores p (cs ! g ! j) (bhl_list ?hl ! j) ([0] ! g))"
    using full_hit_is_longest_prefix [OF d(1) spec zero_less_numeral zero_le_numeral k k', of 2] by blast
  have "\<not> L < 2" using c(3) by (auto simp: aligned_def)
  then have "L = 2" using c(2) by linarith
  then show ?thesis using c(1) c(4) d(2) by (intro exI [of _ p] exI [of _ r] exI [of _ cs]) simp
qed

section \<open>Sliding windows\<close>

text \<open>
  A prefix of \<open>L\<close> blocks is usable when its last \<open>nd\<close> blocks, those the window of the next token
  reaches, are cached.  \<open>sliding_state\<close> is the invariant of the search at index \<open>i\<close> with \<open>num\<close>
  contiguous hits; \<open>sliding_hit\<close> is what it returns.
\<close>

definition window_cached :: "block_pool \<Rightarrow> int list \<Rightarrow> bytes list \<Rightarrow> nat \<Rightarrow> nat \<Rightarrow> bool" where
  "window_cached p gids hs nd L \<longleftrightarrow> (\<forall>j < L. L \<le> j + nd \<longrightarrow> all_cached p gids (hs ! j))"

definition sliding_state ::
  "block_pool \<Rightarrow> int list \<Rightarrow> bytes list \<Rightarrow> int \<Rightarrow> int \<Rightarrow> nat \<Rightarrow> nat \<Rightarrow> nat \<Rightarrow> nat \<Rightarrow> blk list list \<Rightarrow> bool" where
  "sliding_state p gids hs bs al nd n i num cs \<longleftrightarrow>
     i + num \<le> n \<and> uniform n cs \<and> length cs = length gids \<and> num < nd \<and> (num = 0 \<or> aligned bs al (i + num)) \<and>
     (\<forall>g < length gids. \<forall>j < n. (j < i \<longrightarrow> cs ! g ! j = null_block p) \<and>
        (i \<le> j \<and> j < i + num \<longrightarrow> stores p (cs ! g ! j) (hs ! j) (gids ! g))) \<and>
     (\<forall>L'. i + num < L' \<and> L' \<le> n \<and> aligned bs al L' \<longrightarrow> \<not> window_cached p gids hs nd L')"

definition sliding_hit ::
  "block_pool \<Rightarrow> int list \<Rightarrow> bytes list \<Rightarrow> int \<Rightarrow> int \<Rightarrow> nat \<Rightarrow> nat \<Rightarrow> nat \<Rightarrow> blk list list \<Rightarrow> bool" where
  "sliding_hit p gids hs bs al nd n L cs \<longleftrightarrow>
     uniform L cs \<and> length cs = length gids \<and> L \<le> n \<and> aligned bs al L \<and>
     (\<forall>g < length gids. \<forall>j < L. if L \<le> j + nd then stores p (cs ! g ! j) (hs ! j) (gids ! g)
                                else cs ! g ! j = null_block p) \<and>
     (\<forall>L'. L < L' \<and> L' \<le> n \<and> aligned bs al L' \<longrightarrow> \<not> window_cached p gids hs nd L')"

lemma sliding_miss:
  assumes "sliding_state p gids hs bs al nd n (Suc i) num cs" "\<not> all_cached p gids (hs ! i)"
  shows "sliding_state p gids hs bs al nd n i 0 cs"
proof -
  have "\<not> window_cached p gids hs nd L'" if "i < L'" "L' \<le> n" "aligned bs al L'" for L'
  proof (cases "L' \<le> Suc i + num")
    case True
    then show ?thesis using assms that(1) by (auto simp: window_cached_def sliding_state_def)
  next
    case False
    then show ?thesis using assms(1) that by (auto simp: sliding_state_def)
  qed
  then show ?thesis using assms(1) by (auto simp: sliding_state_def)
qed

lemma sliding_unaligned:
  assumes "sliding_state p gids hs bs al nd n (Suc i) 0 cs" "\<not> aligned bs al (Suc i)"
  shows "sliding_state p gids hs bs al nd n i 0 cs"
proof -
  have "\<not> window_cached p gids hs nd L'" if "i < L'" "L' \<le> n" "aligned bs al L'" for L'
    using assms that by (cases "L' = Suc i") (auto simp: sliding_state_def)
  then show ?thesis using assms(1) by (auto simp: sliding_state_def)
qed

definition set_each :: "nat \<Rightarrow> blk list list \<Rightarrow> blk list \<Rightarrow> blk list list" where
  "set_each i cs bs = map2 (\<lambda>c b. c[i := b]) cs bs"

lemma sliding_accept:
  assumes st: "sliding_state p gids hs bs al nd n (Suc i) num cs" and al: "num = 0 \<Longrightarrow> aligned bs al (Suc i)"
    and hits: "length hits = length gids" "\<And>g. g < length gids \<Longrightarrow> stores p (hits ! g) (hs ! i) (gids ! g)"
  shows "Suc num < nd \<Longrightarrow> sliding_state p gids hs bs al nd n i (Suc num) (set_each i cs hits)"
    "Suc num = nd \<Longrightarrow> sliding_hit p gids hs bs al nd n (i + Suc num) (map (take (i + Suc num)) (set_each i cs hits))"
proof -
  let ?cs = "set_each i cs hits"
  have i: "i < n" "i + Suc num \<le> n" using st by (auto simp: sliding_state_def)
  have u: "uniform n ?cs" "length ?cs = length gids" "?cs \<noteq> []"
    using st hits(1) by (auto simp: sliding_state_def uniform_def set_each_def list_all_length)
  have len: "length (cs ! g) = n" if "g < length gids" for g
    using st that by (auto simp: sliding_state_def uniform_def list_all_length)
  have nth: "?cs ! g ! j = (if j = i then hits ! g else cs ! g ! j)" if "g < length gids" "j < n" for g j
    using that st hits(1) len by (auto simp: sliding_state_def set_each_def)
  have al': "aligned bs al (i + Suc num)" using st al by (auto simp: sliding_state_def)
  have cont: "(j < i \<longrightarrow> ?cs ! g ! j = null_block p) \<and>
      (i \<le> j \<and> j < i + Suc num \<longrightarrow> stores p (?cs ! g ! j) (hs ! j) (gids ! g))" if "g < length gids" "j < n" for g j
    using st that nth [OF that] hits(2) [OF that(1)] by (auto simp: sliding_state_def)
  have max: "\<not> window_cached p gids hs nd L'" if "i + Suc num < L'" "L' \<le> n" "aligned bs al L'" for L'
    using st that by (auto simp: sliding_state_def)
  show "sliding_state p gids hs bs al nd n i (Suc num) ?cs" if "Suc num < nd"
    unfolding sliding_state_def using that u i al' cont max by simp
  show "sliding_hit p gids hs bs al nd n (i + Suc num) (map (take (i + Suc num)) ?cs)" if "Suc num = nd"
    unfolding sliding_hit_def using that u i al' cont max
    by (auto simp: uniform_def list_all_iff)
qed

lemma sliding_loop_hit:
  assumes inv: "pool_inv p xs" and gids: "gids_ok gids" and wf: "bhl_wf hl" "n \<le> length (bhl_list hl)"
    and nd: "nd = max 1 (nat need)" and st: "sliding_state p gids (bhl_list hl) bs al nd n i num cs"
  shows "\<exists>found num' cs' L. sliding_loop hl gids p False bs al need i (int num) cs = Inr (found, int num', cs') \<and>
    (\<not> found \<longrightarrow> num' \<le> n \<and> uniform n cs') \<and>
    sliding_hit p gids (bhl_list hl) bs al nd n L (if found then cs' else map (take num') cs') \<and> (\<not> found \<longrightarrow> L = num')"
  using st
proof (induction i arbitrary: num cs)
  case 0
  then have "sliding_hit p gids (bhl_list hl) bs al nd n num (map (take num) cs)"
    by (auto simp: sliding_state_def sliding_hit_def uniform_def list_all_iff)
  then show ?case using 0
    by (intro exI [of _ False] exI [of _ num] exI [of _ cs] exI [of _ num]) (auto simp: sliding_state_def)
next
  case (Suc i)
  let ?h = "bhl_list hl ! i"
  have "i < length (bhl_list hl)" using Suc.prems wf(2) by (auto simp: sliding_state_def)
  note v = bhl_value_nth [OF wf(1) this] and c = cached_block_cases(1) [OF inv gids, of ?h]
  show ?case
  proof (cases "all_cached p gids ?h")
    case False
    then have "sliding_loop hl gids p False bs al need (Suc i) (int num) cs = sliding_loop hl gids p False bs al need i (int 0) cs"
      using v c by simp
    then show ?thesis using Suc.IH [OF sliding_miss [OF Suc.prems False]] by simp
  next
    case True
    note hits = hit_of_nth [OF inv gids True]
    show ?thesis
    proof (cases "num = 0 \<and> \<not> aligned bs al (Suc i)")
      case un: True
      then have "sliding_loop hl gids p False bs al need (Suc i) (int num) cs = sliding_loop hl gids p False bs al need i (int 0) cs"
        using v c True by (simp add: aligned_def add.commute)
      then show ?thesis using Suc.IH [OF sliding_unaligned] Suc.prems un by simp
    next
      case ok: False
      have acc: "Suc num < nd \<Longrightarrow> sliding_state p gids (bhl_list hl) bs al nd n i (Suc num) (set_each i cs (hit_of p gids ?h))"
        "Suc num = nd \<Longrightarrow> sliding_hit p gids (bhl_list hl) bs al nd n (i + Suc num)
           (map (take (i + Suc num)) (set_each i cs (hit_of p gids ?h)))"
        using sliding_accept [OF Suc.prems _ hits] ok by blast+
      have test: "\<not> (int num = 0 \<and> bs \<noteq> al \<and> ((if False then int i else int i + 1) * bs) mod al \<noteq> 0)"
        using ok by (auto simp: aligned_def add.commute)
      have lt: "num < nd" using Suc.prems by (simp add: sliding_state_def)
      have run: "sliding_loop hl gids p False bs al need (Suc i) (int num) cs =
        (if Suc num = nd then Inr (True, int (Suc num), map (take (i + Suc num)) (set_each i cs (hit_of p gids ?h)))
         else sliding_loop hl gids p False bs al need i (int (Suc num)) (set_each i cs (hit_of p gids ?h)))"
      proof -
        have up: "py_upto c (int i + (int num + 1)) = take (i + Suc num) c" for c :: "blk list"
          by (simp add: idx_simps nat_add_distrib)
        have need: "need \<le> int num + 1 \<longleftrightarrow> Suc num = nd" using lt nd by auto
        show ?thesis
          unfolding sliding_loop.simps v c rbind_Inr if_P [OF True] option.case if_not_P [OF test] Let_def need up
            set_each_def [symmetric] by (simp add: add.commute)
      qed
      show ?thesis
      proof (cases "Suc num = nd")
        case True
        then show ?thesis using run acc(2)
          by (intro exI [of _ True] exI [of _ "Suc num"] exI) auto
      next
        case False
        then show ?thesis using run Suc.IH [OF acc(1)] lt by simp
      qed
    qed
  qed
qed

text \<open>
  C15. For sliding windows without EAGLE and context parallelism the hit is the longest one: the search never fails, every group gets
  \<open>L\<close> blocks of which those inside the window of the next token are registered under the hash at
  their position and the earlier ones are the null block, \<open>L\<close> is aligned, and for every longer
  aligned length some block inside the window is not cached.
\<close>

theorem sliding_hit_is_longest:
  assumes "pool_inv p xs" "gids_ok gids" "bhl_wf hl" "sliding_window_of spec = Some window"
    and "bs = spec_block_size spec" "0 \<le> max_length div bs" "n = nat (max_length div bs)"
    and "n \<le> length (bhl_list hl)" "nd = max 1 (nat (cdiv (window - 1) bs))"
  shows "\<exists>cs L. sliding_find_longest_cache_hit hl max_length gids p spec False al 1 1 = Inr cs \<and>
    length cs = length gids \<and> L \<le> n \<and> aligned bs al L \<and>
    (\<forall>g < length gids. length (cs ! g) = L \<and>
       (\<forall>j < L. if L \<le> j + nd then stores p (cs ! g ! j) (bhl_list hl ! j) (gids ! g)
                else cs ! g ! j = null_block p)) \<and>
    (\<forall>L'. L < L' \<and> L' \<le> n \<and> aligned bs al L' \<longrightarrow>
       (\<exists>j < L'. L' \<le> j + nd \<and> \<not> all_cached p gids (bhl_list hl ! j)))"
proof -
  let ?init = "replicate (length gids) (py_repeat (null_block p) (max_length div bs))"
  let ?hs = "bhl_list hl" and ?need = "cdiv (window - 1) bs"
  have st: "sliding_state p gids ?hs bs al nd n n 0 ?init"
    using assms(2,7,9) by (auto simp: sliding_state_def uniform_def gids_ok_def list_all_iff py_repeat_def)
  obtain found num' cs' L where run:
      "sliding_loop hl gids p False bs al ?need n (int 0) ?init = Inr (found, int num', cs')"
    and fin: "\<not> found \<longrightarrow> num' \<le> n \<and> uniform n cs'" "\<not> found \<longrightarrow> L = num'"
      "sliding_hit p gids ?hs bs al nd n L (if found then cs' else map (take num') cs')"
    using sliding_loop_hit [OF assms(1,2,3,8,9) st] by blast
  define cs where "cs = (if found then cs' else map (take num') cs')"
  have hit: "sliding_hit p gids ?hs bs al nd n L cs" using fin(3) by (simp add: cs_def)
  have "(if found then Inr cs' else align_loop bs al (map (\<lambda>c. py_upto c (int num')) cs')) = Inr cs"
  proof (cases found)
    case False
    have "uniform L cs" "aligned bs al L" using hit by (auto simp: sliding_hit_def)
    then have "align_loop bs al cs = Inr cs"
      using align_loop_uniform [of L cs bs al] by (simp add: aligned_len_id uniform_take_id)
    then show ?thesis using False by (simp add: cs_def idx_simps)
  qed (simp add: cs_def)
  then have "sliding_find_longest_cache_hit hl max_length gids p spec False al 1 1 = Inr cs"
    using run assms(4,5,7) by (auto simp: sliding_find_longest_cache_hit_def split: if_splits)
  moreover have "length (cs ! g) = L" if "g < length gids" for g
    using hit that by (auto simp: sliding_hit_def uniform_def list_all_length)
  ultimately show ?thesis
    using hit unfolding sliding_hit_def window_cached_def by (intro exI [of _ cs] exI [of _ L]) auto
qed

definition demo_sliding_spec :: kv_cache_spec where
  "demo_sliding_spec = SlidingWindowSpec
     \<lparr>a_block_size = 2, a_num_kv_heads = 1, a_head_size = 8, a_dtype = ''bfloat16'',
      a_kv_quant_mode = QUANT_NONE, a_page_size_padded = None, s_sliding_window = 3, s_head_size_v = Some 8\<rparr>"

theorem sliding_hit_is_longest_witness:
  "\<exists>p (r :: request) cs. all_token_ids r = [1, 2, 3, 4, 5] \<and>
     sliding_find_longest_cache_hit (Plain (block_hashes r)) 4 [0] p demo_sliding_spec False 2 1 1 = Inr cs \<and>
     length (cs ! 0) = 2 \<and> cs ! 0 ! 0 = null_block p \<and> stores p (cs ! 0 ! 1) (block_hashes r ! 1) 0"
proof -
  obtain p and r :: request where d: "pool_inv p [Blk 3, Blk 4]" "all_token_ids r = [1, 2, 3, 4, 5]" "length (block_hashes r) = 2"
    "stores p (Blk 1) (block_hashes r ! 0) 0" "stores p (Blk 2) (block_hashes r ! 1) 0"
    by (rule demo_cached) blast
  let ?hl = "Plain (block_hashes r)"
  have spec: "gids_ok [0]" "bhl_wf ?hl" "sliding_window_of demo_sliding_spec = Some 3" "2 = spec_block_size demo_sliding_spec"
    "0 \<le> 4 div (2::int)" "2 = nat (4 div 2)" "2 \<le> length (bhl_list ?hl)" "1 = max 1 (nat (cdiv (3 - 1) 2))"
    using d(3) by (simp_all add: gids_ok_def bhl_wf_def demo_sliding_spec_def cdiv_def)
  obtain cs L where c: "sliding_find_longest_cache_hit ?hl 4 [0] p demo_sliding_spec False 2 1 1 = Inr cs" "L \<le> 2"
    "\<forall>g < length [0::int]. length (cs ! g) = L \<and>
       (\<forall>j < L. if L \<le> j + 1 then stores p (cs ! g ! j) (bhl_list ?hl ! j) ([0] ! g) else cs ! g ! j = null_block p)"
    "\<forall>L'. L < L' \<and> L' \<le> 2 \<and> aligned 2 2 L' \<longrightarrow> (\<exists>j < L'. L' \<le> j + 1 \<and> \<not> all_cached p [0] (bhl_list ?hl ! j))"
    using sliding_hit_is_longest [OF d(1) spec, of 2] by blast
  have "all_cached p [0] (block_hashes r ! j)" if "j < 2" for j
    using demo_all_cached [OF d(4,5,3)] d(3) that by (simp add: list_all_length)
  then have "\<not> L < 2" using c(4) by (fastforce simp: aligned_def)
  then have "L = 2" using c(2) by linarith
  then have "length (cs ! 0) = 2" "cs ! 0 ! 0 = null_block p" "stores p (cs ! 0 ! 1) (block_hashes r ! 1) 0"
    using c(3) by (auto split: if_splits)
  then show ?thesis using c(1) d(2) by blast
qed

end
