(* ===== verification/Hit_Sound.thy ===== *)
theory Hit_Sound
  imports Cache_Hit_Props
begin

text \<open>
  Soundness of \<^verbatim>\<open>find_longest_cache_hit\<close> for every manager class, EAGLE and alignment included: all
  groups get lists of one length that is aligned and within the limit, and every entry is the null
  block or a block registered under the hash at its position.  Such a hit meets \<open>hits_ok\<close>, the
  condition under which the managers take it.
\<close>

definition hit_rows :: "block_pool \<Rightarrow> int list \<Rightarrow> bytes list \<Rightarrow> nat \<Rightarrow> blk list list \<Rightarrow> bool" where
  "hit_rows p gids hs L cs \<longleftrightarrow> length cs = length gids \<and> uniform L cs \<and>
     (\<forall>g < length gids. \<forall>j < L. cs ! g ! j = null_block p \<or> j < length hs \<and> stores p (cs ! g ! j) (hs ! j) (gids ! g))"

lemma hit_rows_uniform: "hit_rows p gids hs L cs \<Longrightarrow> uniform L cs"
  by (simp add: hit_rows_def)

lemma hit_rows_take:
  assumes "hit_rows p gids hs L cs" "k \<le> L"
  shows "hit_rows p gids hs k (map (take k) cs)"
  using assms by (auto simp: hit_rows_def uniform_def list_all_iff)

lemma hit_rows_replicate:
  assumes "gids_ok gids"
  shows "hit_rows p gids hs n (replicate (length gids) (replicate n (null_block p)))"
  using assms by (auto simp: hit_rows_def uniform_def gids_ok_def list_all_iff)

lemma hit_rows_update:
  assumes "hit_rows p gids hs n cs" "i < n" "i < length hs" "length bs = length gids"
    and "\<And>g. g < length gids \<Longrightarrow> stores p (bs ! g) (hs ! i) (gids ! g)"
  shows "hit_rows p gids hs n (map2 (\<lambda>c b. c[i := b]) cs bs)"
proof -
  have len: "length (cs ! g) = n" if "g < length gids" for g
    using assms(1) that by (auto simp: hit_rows_def uniform_def list_all_length)
  have "(cs ! g)[i := bs ! g] ! j = (if j = i then bs ! g else cs ! g ! j)" if "g < length gids" "j < n" for g j
    using that len [OF that(1)] by (auto simp: nth_list_update)
  then show ?thesis using assms by (auto simp: hit_rows_def uniform_def list_all_length)
qed

lemma hit_rows_append:
  assumes "hit_rows p gids hs n cs" "n < length hs" "length bs = length gids"
    and "\<And>g. g < length gids \<Longrightarrow> stores p (bs ! g) (hs ! n) (gids ! g)"
  shows "hit_rows p gids hs (Suc n) (append_each cs bs)"
proof -
  have len: "length (cs ! g) = n" if "g < length gids" for g
    using assms(1) that by (auto simp: hit_rows_def uniform_def list_all_length)
  have "((cs ! g) @ [bs ! g]) ! j = (if j = n then bs ! g else cs ! g ! j)" if "g < length gids" "j < Suc n" for g j
    using that len [OF that(1)] by (auto simp: nth_append)
  then show ?thesis using assms
    by (auto simp: hit_rows_def append_each_def uniform_def list_all_length less_Suc_eq)
qed

text \<open>The shortening steps keep the rows.\<close>

lemma align_loop_rows:
  assumes "hit_rows p gids hs L cs" "align_loop bs al cs = Inr ds"
  shows "\<exists>k \<le> L. aligned bs al k \<and> hit_rows p gids hs k ds"
proof -
  have "ds = map (take (aligned_len bs al L)) cs"
    using align_loop_uniform [OF hit_rows_uniform [OF assms(1)], of bs al] assms(2) by simp
  then show ?thesis
    using hit_rows_take [OF assms(1) aligned_len_le] aligned_len_le aligned_len_aligned by blast
qed

lemma eagle_align_rows:
  assumes "hit_rows p gids hs L cs" "rbind (eagle_pop e cs) (align_loop bs al) = Inr ds"
  shows "\<exists>k \<le> L - of_bool e. aligned bs al k \<and> hit_rows p gids hs k ds"
proof -
  note u = hit_rows_uniform [OF assms(1)]
  have "hit_rows p gids hs (L - of_bool e) (map (take (L - of_bool e)) cs)" by (rule hit_rows_take [OF assms(1)]) simp
  moreover have "align_loop bs al (map (take (L - of_bool e)) cs) = Inr ds"
    using assms(2) eagle_pop_uniform(1) [OF u] by simp
  ultimately show ?thesis by (rule align_loop_rows)
qed

lemma distinct_filter_nthI:
  assumes "\<And>i j. i < length xs \<Longrightarrow> j < length xs \<Longrightarrow> P (xs ! i) \<Longrightarrow> xs ! i = xs ! j \<Longrightarrow> i = j"
  shows "distinct (filter P xs)"
  using assms
proof (induction xs)
  case (Cons x xs)
  have "distinct (filter P xs)"
    by (rule Cons.IH) (use Cons.prems [of "Suc _" "Suc _"] in auto)
  moreover have "x \<notin> set xs" if "P x"
  proof
    assume "x \<in> set xs"
    then obtain j where "j < length xs" "xs ! j = x" by (auto simp: in_set_conv_nth)
    then show False using Cons.prems [of 0 "Suc j"] that by simp
  qed
  ultimately show ?case by auto
qed simp

section \<open>The classes\<close>

lemma full_hit_rows:
  assumes inv: "pool_inv p xs" and gids: "gids_ok gids"
    and run: "full_find_longest_cache_hit hl max_length gids p spec e al dcp pcp = Inr cs"
    and bs: "bs = (if 1 < dcp * pcp then spec_block_size spec * (dcp * pcp) else spec_block_size spec)"
  shows "\<exists>L \<le> nat (max_length div bs) - of_bool e. aligned bs al L \<and> hit_rows p gids (bhl_list hl) L cs"
proof -
  define n where "n = max_length div bs"
  define hs where "hs = full_hashes hl n gids p"
  have spec: "is_full_attention spec \<or> is_chunked_spec spec" and n0: "0 \<le> n"
    using run unfolding full_find_longest_cache_hit_def bs [symmetric]
    by (auto simp: rbind_eq_Inr n_def Let_def split: if_splits)
  have cs: "cs = columns p gids (take (aligned_len bs al (length hs - of_bool e)) hs)"
    using full_hit_columns [OF inv gids spec bs n_def n0 refl, of hl e al] run by (simp add: hs_def)
  define L where "L = aligned_len bs al (length hs - of_bool e)"
  have L: "L \<le> length hs - of_bool e" "aligned bs al L" unfolding L_def by (rule aligned_len_le aligned_len_aligned)+
  have hs: "length hs \<le> nat n" "length hs \<le> length (bhl_list hl)"
    using length_takeWhile_le [of "all_cached p gids" "take (nat n) (bhl_list hl)"] by (auto simp: hs_def full_hashes_def)
  have cached: "list_all (all_cached p gids) (take L hs)"
    by (auto simp: list_all_iff hs_def full_hashes_def dest!: in_set_takeD set_takeWhileD)
  have len: "length (take L hs) = L" using L(1) by simp
  have "take L hs ! j = bhl_list hl ! j" if "j < L" for j
    using that hs len by (simp add: hs_def full_hashes_def takeWhile_nth)
  then have "hit_rows p gids (bhl_list hl) L cs"
    using columns_nth [OF inv gids cached] len hs L(1) columns_uniform [OF gids, of "take L hs" p] cs
    by (auto simp: hit_rows_def L_def [symmetric] columns_def)
  then show ?thesis using L hs(1) by (intro exI [of _ L]) (auto simp: n_def)
qed

lemma sliding_loop_rows:
  assumes inv: "pool_inv p xs" and gids: "gids_ok gids" and wf: "bhl_wf hl" "n \<le> length (bhl_list hl)"
    and "sliding_loop hl gids p e bs al need i (int num) cs = Inr (found, num', cs')"
    and "hit_rows p gids (bhl_list hl) n cs" "i + num \<le> n"
    and "num \<noteq> 0 \<Longrightarrow> aligned bs al (i + num - of_bool e)"
  shows "\<exists>k. num' = int k \<and> k \<le> n \<and>
    (if found then 0 < k \<and> (\<exists>L \<le> n. 0 < L \<and> aligned bs al (L - of_bool e) \<and> hit_rows p gids (bhl_list hl) L cs')
     else hit_rows p gids (bhl_list hl) n cs')"
  using assms(5-8)
proof (induction i arbitrary: num cs)
  case 0
  then show ?case by (auto intro: exI [of _ num])
next
  case (Suc i)
  let ?h = "bhl_list hl ! i"
  have i: "i < length (bhl_list hl)" "i < n" using Suc.prems wf(2) by auto
  note v = bhl_value_nth [OF wf(1) i(1)] and c = cached_block_cases(1) [OF inv gids, of ?h]
  show ?case
  proof (cases "all_cached p gids ?h")
    case False
    then have "sliding_loop hl gids p e bs al need i (int 0) cs = Inr (found, num', cs')"
      using Suc.prems(1) v c by simp
    then show ?thesis using Suc.IH [of 0 cs] Suc.prems(2,3) by simp
  next
    case True
    note hits = hit_of_nth [OF inv gids True]
    let ?cs = "map2 (\<lambda>c b. c[i := b]) cs (hit_of p gids ?h)"
    have rows: "hit_rows p gids (bhl_list hl) n ?cs"
      by (rule hit_rows_update [OF Suc.prems(2) i(2,1) hits])
    show ?thesis
    proof (cases "int num = 0 \<and> bs \<noteq> al \<and> ((if e then int i else int i + 1) * bs) mod al \<noteq> 0")
      case un: True
      then have "sliding_loop hl gids p e bs al need i (int 0) cs = Inr (found, num', cs')"
        using Suc.prems(1) v c True by simp
      then show ?thesis using Suc.IH [of 0 cs] Suc.prems(2,3) by simp
    next
      case ok: False
      have al: "aligned bs al (i + Suc num - of_bool e)"
        using ok Suc.prems(4) by (cases "num = 0") (auto simp: aligned_def add.commute split: if_splits)
      show ?thesis
      proof (cases "need \<le> int num + 1")
        case stop: True
        have "found" "num' = int (Suc num)" "cs' = map (take (i + Suc num)) ?cs"
          using Suc.prems(1) ok v c True stop by (auto simp: idx_simps nat_add_distrib add.commute)
        then show ?thesis using hit_rows_take [OF rows Suc.prems(3) [simplified]] al Suc.prems(3)
          by (intro exI [of _ "Suc num"]) (auto intro!: exI [of _ "i + Suc num"])
      next
        case go: False
        have "sliding_loop hl gids p e bs al need i (int (Suc num)) ?cs = Inr (found, num', cs')"
          using Suc.prems(1) ok v c True go by (auto simp: add.commute)
        then show ?thesis using Suc.IH [OF _ rows, of "Suc num"] Suc.prems(3) al by simp
      qed
    qed
  qed
qed

lemma sliding_tail_eq:
  assumes "uniform L cs" "e \<or> aligned bs al L"
  shows "(if e then rbind (py_get cs 0) (\<lambda>c. if c = [] then Inr cs else rbind (pop_each cs) (align_loop bs al))
          else Inr cs) = rbind (eagle_pop e cs) (align_loop bs al)"
proof -
  obtain c rest where c: "cs = c # rest" "length c = L" using assms(1) by (cases cs) (auto simp: uniform_def)
  have "align_loop bs al cs = Inr cs" if "aligned bs al L"
    using align_loop_uniform [OF assms(1), of bs al] that by (simp add: aligned_len_id uniform_take_id [OF assms(1)])
  then show ?thesis using c assms(2) by (cases e) (auto simp: eagle_pop_def py_get_def)
qed

lemma sliding_hit_rows:
  assumes inv: "pool_inv p xs" and gids: "gids_ok gids"
    and run: "sliding_find_longest_cache_hit hl max_length gids p spec e al dcp pcp = Inr cs"
    and bs: "bs = spec_block_size spec" and wf: "bhl_wf hl" "nat (max_length div bs) \<le> length (bhl_list hl)"
  shows "\<exists>L \<le> nat (max_length div bs) - of_bool e. aligned bs al L \<and> hit_rows p gids (bhl_list hl) L cs"
proof -
  let ?hs = "bhl_list hl"
  define n where "n = nat (max_length div bs)"
  define need where "need = cdiv (the (sliding_window_of spec) - 1) bs + (if e then 1 else 0)"
  obtain found num cs1 cs2 where loop: "sliding_loop hl gids p e bs al need n (int 0)
        (replicate (length gids) (replicate n (null_block p))) = Inr (found, num, cs1)"
    and mid: "(if found then Inr cs1 else align_loop bs al (map (\<lambda>c. py_upto c num) cs1)) = Inr cs2"
    and tail: "(if e then rbind (py_get cs2 0) (\<lambda>c. if c = [] then Inr cs2 else rbind (pop_each cs2) (align_loop bs al))
      else Inr cs2) = Inr cs"
    using run unfolding sliding_find_longest_cache_hit_def bs [symmetric]
    by (auto simp: Let_def rbind_eq_Inr need_def n_def py_repeat_def split: option.splits)
  have wf': "n \<le> length ?hs" using wf(2) by (simp add: n_def)
  have le: "n + 0 \<le> n" by simp
  obtain k where k: "num = int k" "k \<le> n"
    "if found then 0 < k \<and> (\<exists>L \<le> n. 0 < L \<and> aligned bs al (L - of_bool e) \<and> hit_rows p gids ?hs L cs1)
     else hit_rows p gids ?hs n cs1"
    using sliding_loop_rows [OF inv gids wf(1) wf' loop hit_rows_replicate [OF gids] le] by auto
  have "\<exists>L \<le> n. hit_rows p gids ?hs L cs2 \<and> (e \<or> aligned bs al L)"
  proof (cases found)
    case True
    then obtain L where "L \<le> n" "aligned bs al (L - of_bool e)" "hit_rows p gids ?hs L cs1" using k(3) by auto
    then show ?thesis using True mid by (intro exI [of _ L]) (cases e; simp)
  next
    case False
    then have "hit_rows p gids ?hs k (map (take k) cs1)" using k hit_rows_take by simp
    moreover have "align_loop bs al (map (take k) cs1) = Inr cs2"
      using mid False k(1) by (simp add: idx_simps)
    ultimately show ?thesis using align_loop_rows k(2) by (meson order_trans)
  qed
  then obtain L where L: "L \<le> n" "hit_rows p gids ?hs L cs2" "e \<or> aligned bs al L" by blast
  have "rbind (eagle_pop e cs2) (align_loop bs al) = Inr cs"
    using tail sliding_tail_eq [OF hit_rows_uniform [OF L(2)] L(3)] by simp
  from eagle_align_rows [OF L(2) this] show ?thesis
    using L(1) unfolding n_def [symmetric] by (meson diff_le_mono order_trans)
qed

lemma chunked_loop_rows:
  assumes inv: "pool_inv p xs" and gids: "gids_ok gids" and wf: "bhl_wf hl" "n \<le> length (bhl_list hl)"
    and "chunked_loop hl gids p [int i..int n - 1] cs = Inr cs'" "hit_rows p gids (bhl_list hl) i cs" "i \<le> n"
  shows "\<exists>L \<le> n. hit_rows p gids (bhl_list hl) L cs'"
  using assms(5-7)
proof (induction "n - i" arbitrary: i cs)
  case 0
  then show ?case by auto
next
  case (Suc d)
  then have i: "i < n" "i < length (bhl_list hl)" using wf(2) by auto
  let ?h = "bhl_list hl ! i"
  note v = bhl_value_nth [OF wf(1) i(2)] and c = cached_block_cases(1) [OF inv gids, of ?h]
  have range: "[int i..int n - 1] = int i # [int (Suc i)..int n - 1]" using i(1) by (simp add: upto_rec1 add.commute)
  show ?case
  proof (cases "all_cached p gids ?h")
    case False
    then show ?thesis using Suc.prems v c by (auto simp: range)
  next
    case True
    note hits = hit_of_nth [OF inv gids True]
    have "chunked_loop hl gids p [int (Suc i)..int n - 1] (append_each cs (hit_of p gids ?h)) = Inr cs'"
      using Suc.prems(1) v c True unfolding range by simp
    then show ?thesis
      using Suc.hyps(1) [of "Suc i"] Suc.hyps(2) hit_rows_append [OF Suc.prems(2) i(2) hits] i(1) by simp
  qed
qed

lemma chunked_hit_rows:
  assumes inv: "pool_inv p xs" and gids: "gids_ok gids"
    and run: "chunked_find_longest_cache_hit hl max_length gids p spec e al dcp pcp = Inr cs"
    and bs: "bs = spec_block_size spec" "0 < bs" and wf: "bhl_wf hl" "nat (max_length div bs) \<le> length (bhl_list hl)"
    and len: "0 \<le> max_length" and chunk: "\<And>s. spec = ChunkedLocalAttentionSpec s \<Longrightarrow> 0 < c_attention_chunk_size s"
  shows "\<not> e \<and> aligned bs al L \<and> (\<exists>L \<le> nat (max_length div bs). hit_rows p gids (bhl_list hl) L cs)"
proof -
  obtain s where s: "spec = ChunkedLocalAttentionSpec s"
    using run by (auto simp: chunked_find_longest_cache_hit_def split: kv_cache_spec.splits)
  define n where "n = nat (max_length div bs)"
  define start where "start = (if 0 < max_length then max_length div c_attention_chunk_size s * c_attention_chunk_size s else 0)"
  define i where "i = nat (start div bs)"
  have "0 \<le> start" "start \<le> max_length"
    using chunk [OF s] len le_div_iff_mult_le [OF chunk [OF s], of "max_length div c_attention_chunk_size s" max_length]
      pos_imp_zdiv_nonneg_iff [OF chunk [OF s], of max_length]
    by (auto simp: start_def)
  then have i: "int i = start div bs" "i \<le> n" "int n = max_length div bs"
    using bs(2) len by (auto simp: i_def n_def pos_imp_zdiv_nonneg_iff intro!: nat_mono zdiv_mono1)
  have e: "\<not> e" "bs = al" and loop: "chunked_loop hl gids p [int i..int n - 1]
      (replicate (length gids) (replicate i (null_block p))) = Inr cs"
    using run unfolding i(1,3) chunked_find_longest_cache_hit_def s kv_cache_spec.case Let_def
      bs(1) [unfolded s spec_block_size.simps, symmetric] start_def [symmetric] py_repeat_def i_def [symmetric]
    by (auto simp: rbind_eq_Inr)
  have "\<exists>L \<le> n. hit_rows p gids (bhl_list hl) L cs"
    by (rule chunked_loop_rows [OF inv gids wf(1) _ loop hit_rows_replicate [OF gids] i(2)]) (use wf(2) n_def in simp)
  then show ?thesis using e by (simp add: aligned_def n_def)
qed

lemma mamba_loop_rows:
  assumes inv: "pool_inv p xs" and gids: "gids_ok gids" and wf: "bhl_wf hl"
    and "mamba_loop hl gids p bs al i (replicate (length gids) []) = Inr cs" "i \<le> length (bhl_list hl)"
  shows "\<exists>L \<le> i. aligned bs al L \<and> hit_rows p gids (bhl_list hl) L cs"
  using assms(4,5)
proof (induction i)
  case 0
  then show ?case using hit_rows_replicate [OF gids, of p _ 0] by auto
next
  case (Suc i)
  let ?h = "bhl_list hl ! i"
  have i: "i < length (bhl_list hl)" using Suc.prems by simp
  note v = bhl_value_nth [OF wf i] and c = cached_block_cases(1) [OF inv gids, of ?h]
  show ?case
  proof (cases "all_cached p gids ?h \<and> aligned bs al (Suc i)")
    case False
    then have "mamba_loop hl gids p bs al i (replicate (length gids) []) = Inr cs"
      using Suc.prems(1) v c by (auto simp: aligned_def add.commute split: if_splits)
    from Suc.IH [OF this] Suc.prems(2) show ?thesis by (meson Suc_leD le_SucI)
  next
    case True
    then have hits: "length (hit_of p gids ?h) = length gids" "\<And>g. g < length gids \<Longrightarrow> stores p (hit_of p gids ?h ! g) ?h (gids ! g)"
      using hit_of_nth [OF inv gids] by auto
    have "cs = append_each (replicate (length gids) (replicate i (null_block p))) (hit_of p gids ?h)"
      using Suc.prems(1) v c True hits(1)
      by (auto simp: aligned_def add.commute append_each_def py_repeat_def map2_map_map intro!: nth_equalityI split: if_splits)
    then have "hit_rows p gids (bhl_list hl) (Suc i) cs"
      using hit_rows_append [OF hit_rows_replicate [OF gids] i hits] by simp
    then show ?thesis using True by blast
  qed
qed

section \<open>All classes\<close>

text \<open>
  The Mamba search ignores \<^verbatim>\<open>use_eagle\<close>, so only the other classes give up a block for it.
\<close>

definition hit_limit :: "manager_class \<Rightarrow> bool \<Rightarrow> nat \<Rightarrow> nat" where
  "hit_limit cls e n = (if cls = MambaManager then n else n - of_bool e)"

definition spec_ok :: "kv_cache_spec \<Rightarrow> bool" where
  "spec_ok spec \<longleftrightarrow> 0 < spec_block_size spec \<and>
     (case spec of ChunkedLocalAttentionSpec s \<Rightarrow> 0 < c_attention_chunk_size s | _ \<Rightarrow> True)"

lemma find_hit_rows:
  assumes inv: "pool_inv p xs" and gids: "gids_ok gids" and spec: "spec_ok spec"
    and run: "find_longest_cache_hit cls hl max_length gids p spec e al dcp pcp = Inr cs"
    and bs: "bs = (if 1 < dcp * pcp then spec_block_size spec * (dcp * pcp) else spec_block_size spec)"
    and wf: "bhl_wf hl" "nat (max_length div bs) \<le> length (bhl_list hl)" and len: "0 \<le> max_length"
  shows "\<exists>L \<le> hit_limit cls e (nat (max_length div bs)). aligned bs al L \<and> hit_rows p gids (bhl_list hl) L cs"
proof -
  note full = full_hit_rows [OF inv gids _ bs, of hl max_length e al cs]
  have single: "bs = spec_block_size spec" if "dcp = 1" "pcp = 1" using bs that by simp
  have pos: "0 < spec_block_size spec" using spec by (simp add: spec_ok_def)
  show ?thesis
  proof (cases cls)
    case SlidingWindowManager
    then have r: "sliding_find_longest_cache_hit hl max_length gids p spec e al dcp pcp = Inr cs"
      using run by (simp add: find_longest_cache_hit_def)
    then have "dcp = 1" "pcp = 1"
      by (auto simp: sliding_find_longest_cache_hit_def rbind_eq_Inr split: option.splits)
    from sliding_hit_rows [OF inv gids r single [OF this] wf] show ?thesis
      by (simp add: hit_limit_def SlidingWindowManager)
  next
    case ChunkedLocalAttentionManager
    then have r: "chunked_find_longest_cache_hit hl max_length gids p spec e al dcp pcp = Inr cs"
      using run by (simp add: find_longest_cache_hit_def)
    then have one: "dcp = 1" "pcp = 1"
      by (auto simp: chunked_find_longest_cache_hit_def rbind_eq_Inr split: kv_cache_spec.splits)
    have "0 < bs" "\<And>s. spec = ChunkedLocalAttentionSpec s \<Longrightarrow> 0 < c_attention_chunk_size s"
      using spec single [OF one] by (auto simp: spec_ok_def)
    from chunked_hit_rows [OF inv gids r single [OF one] this(1) wf len this(2)] show ?thesis
      by (auto simp: hit_limit_def)
  next
    case MambaManager
    then have r: "mamba_loop hl gids p (spec_block_size spec) al (nat (max_length div spec_block_size spec))
        (replicate (length gids) []) = Inr cs" "dcp = 1" "pcp = 1"
      using run by (auto simp: find_longest_cache_hit_def mamba_find_longest_cache_hit_def rbind_eq_Inr Let_def)
    have eq: "spec_block_size spec = bs" using single [OF r(2,3)] by simp
    from mamba_loop_rows [OF inv gids wf(1) r(1) [unfolded eq] wf(2)] show ?thesis
      by (simp add: hit_limit_def MambaManager)
  next
    case CrossAttentionManager
    then show ?thesis
      using run by (auto simp: find_longest_cache_hit_def cross_find_longest_cache_hit_def split: kv_cache_spec.splits)
  qed (use run full in \<open>auto simp: find_longest_cache_hit_def hit_limit_def\<close>)
qed

text \<open>Hits are registered blocks, pairwise different when the hashes are.\<close>

lemma stores_inj:
  assumes "stores p b h g" "stores p b h' g'"
  shows "h = h'"
  using assms block_key_inj by (auto simp: stores_def)

lemma hit_rows_hits_ok:
  assumes inv: "pool_inv p xs" and rows: "hit_rows p gids hs L cs" and g: "g < length gids" and hs: "distinct hs"
  shows "hits_ok p (cs ! g)"
proof -
  let ?c = "cs ! g"
  have len: "length ?c = L" using rows g by (auto simp: hit_rows_def uniform_def list_all_length)
  have st: "?c ! j = null_block p \<or> j < length hs \<and> stores p (?c ! j) (hs ! j) (gids ! g)" if "j < L" for j
    using rows g that by (auto simp: hit_rows_def)
  have nb: "null_block p \<in> set (blocks p)" using inv by (force simp: pool_state_def pool_wf_def)
  have "set ?c \<subseteq> set (blocks p)" "list_all (\<lambda>b. b \<noteq> null_block p \<longrightarrow> hashes p b \<noteq> None) ?c"
    using st nb len by (fastforce simp: in_set_conv_nth stores_def usable_def, fastforce simp: list_all_length stores_def)
  moreover have "distinct (filter (\<lambda>b. b \<noteq> null_block p) ?c)"
  proof (rule distinct_filter_nthI)
    fix i j assume ij: "i < length ?c" "j < length ?c" "?c ! i \<noteq> null_block p" "?c ! i = ?c ! j"
    then have "stores p (?c ! i) (hs ! i) (gids ! g)" "stores p (?c ! i) (hs ! j) (gids ! g)" "i < length hs" "j < length hs"
      using st [of i] st [of j] len by auto
    then show "i = j" using stores_inj hs nth_eq_iff_index_eq by blast
  qed
  ultimately show ?thesis by (simp add: hits_ok_def)
qed

end
