(* ===== verification/Hybrid_Hit.thy ===== *)
theory Hybrid_Hit
  imports Hit_Sound KV_Coordinator
begin

text \<open>
  The hybrid coordinator's search for a common hit length.  Each pass over the attention groups
  either confirms the length or lowers it, so the loop ends; at the end the hits of all groups cover
  exactly the same number of tokens.
\<close>

section \<open>The search of one class does not fail\<close>

definition hit_class :: "manager_class \<Rightarrow> kv_cache_spec \<Rightarrow> bool" where
  "hit_class cls spec \<longleftrightarrow>
     (case cls of
        SlidingWindowManager \<Rightarrow> sliding_window_of spec \<noteq> None
      | MambaManager \<Rightarrow> is_mamba_spec spec
      | ChunkedLocalAttentionManager \<Rightarrow> False
      | CrossAttentionManager \<Rightarrow> False
      | _ \<Rightarrow> is_full_attention spec)"

lemma sliding_loop_total:
  assumes inv: "pool_inv p xs" and gids: "gids_ok gids" and wf: "bhl_wf hl"
  shows "i \<le> length (bhl_list hl) \<Longrightarrow> sliding_loop hl gids p e bs al need i num cs \<noteq> Inl err"
proof (induction i arbitrary: num cs)
  case (Suc i)
  then have "i < length (bhl_list hl)" by simp
  note v = bhl_value_nth [OF wf this] and c = cached_block_cases(1) [OF inv gids, of "bhl_list hl ! i"]
  have IH: "sliding_loop hl gids p e bs al need i num cs \<noteq> Inl err" for num cs
    using Suc.IH Suc.prems by simp
  show ?case using IH v c by (simp add: Let_def)
qed simp

lemma mamba_loop_total:
  assumes inv: "pool_inv p xs" and gids: "gids_ok gids" and wf: "bhl_wf hl"
  shows "i \<le> length (bhl_list hl) \<Longrightarrow> \<exists>r. mamba_loop hl gids p bs al i cs = Inr r"
proof (induction i)
  case (Suc i)
  then have "i < length (bhl_list hl)" by simp
  note v = bhl_value_nth [OF wf this] and c = cached_block_cases(1) [OF inv gids, of "bhl_list hl ! i"]
  show ?case using Suc v c by auto
qed simp

lemma sliding_find_total:
  assumes inv: "pool_inv p xs" and gids: "gids_ok gids" and wf: "bhl_wf hl"
    and n: "nat (max_length div spec_block_size spec) \<le> length (bhl_list hl)"
    and win: "sliding_window_of spec \<noteq> None"
  shows "\<exists>cs. sliding_find_longest_cache_hit hl max_length gids p spec e al 1 1 = Inr cs"
proof -
  obtain w where w: "sliding_window_of spec = Some w" using win by blast
  let ?bs = "spec_block_size spec" and ?hs = "bhl_list hl"
  define n where "n = nat (max_length div ?bs)"
  define init where "init = replicate (length gids) (py_repeat (null_block p) (max_length div ?bs))"
  define need where "need = cdiv (w - 1) ?bs + (if e then 1 else 0)"
  obtain found num cs1 where r: "sliding_loop hl gids p e ?bs al need n (int 0) init = Inr (found, num, cs1)"
    using sliding_loop_total [OF inv gids wf, of n] assms(4) unfolding n_def
    by (cases "sliding_loop hl gids p e ?bs al need (nat (max_length div ?bs)) (int 0) init") auto
  have init: "hit_rows p gids ?hs n init"
    unfolding init_def py_repeat_def n_def by (rule hit_rows_replicate [OF gids])
  obtain k where k: "num = int k" "k \<le> n"
    "if found then 0 < k \<and> (\<exists>L \<le> n. 0 < L \<and> aligned ?bs al (L - of_bool e) \<and> hit_rows p gids ?hs L cs1)
     else hit_rows p gids ?hs n cs1"
    using sliding_loop_rows [OF inv gids wf _ r init] assms(4) n_def by auto
  have "\<exists>cs2 L. (if found then Inr cs1 else align_loop ?bs al (map (\<lambda>c. py_upto c num) cs1)) = Inr cs2 \<and> uniform L cs2"
  proof (cases found)
    case True
    then show ?thesis using k(3) hit_rows_uniform by fastforce
  next
    case False
    then have "hit_rows p gids ?hs k (map (take k) cs1)" using k hit_rows_take by simp
    then have u: "uniform k (map (\<lambda>c. py_upto c num) cs1)" using k(1) hit_rows_uniform by (simp add: idx_simps)
    then show ?thesis using False align_loop_uniform [OF u, of ?bs al] by (auto simp: uniform_def list_all_iff)
  qed
  then obtain cs2 L where c: "(if found then Inr cs1 else align_loop ?bs al (map (\<lambda>c. py_upto c num) cs1)) = Inr cs2"
    "uniform L cs2" by blast
  have "\<exists>cs. (if e then rbind (py_get cs2 0) (\<lambda>c. if c = [] then Inr cs2 else rbind (pop_each cs2) (align_loop ?bs al))
      else Inr cs2) = Inr cs"
    using eagle_pop_uniform [OF c(2), of e] align_loop_uniform sliding_tail_eq [OF c(2), of e ?bs al] by (cases e) auto
  then show ?thesis using r c(1) w
    by (auto simp: sliding_find_longest_cache_hit_def need_def n_def init_def)
qed

lemma find_hit_total:
  assumes inv: "pool_inv p xs" and gids: "gids_ok gids" and wf: "bhl_wf hl" and spec: "spec_ok spec" "hit_class cls spec"
    and n: "nat (max_length div spec_block_size spec) \<le> length (bhl_list hl)" "0 \<le> max_length"
  shows "\<exists>cs. find_longest_cache_hit cls hl max_length gids p spec e al 1 1 = Inr cs"
proof -
  have pos: "0 \<le> max_length div spec_block_size spec"
    using spec(1) n(2) by (simp add: spec_ok_def pos_imp_zdiv_nonneg_iff)
  have full: "\<exists>cs. full_find_longest_cache_hit hl max_length gids p spec e al 1 1 = Inr cs" if "is_full_attention spec"
    using full_hit_columns [OF inv gids _ refl refl _ refl, where spec = spec and use_eagle = e and al = al and hl = hl and dcp = 1 and pcp = 1 and max_length = max_length] that pos by auto
  show ?thesis
    using spec(2) full sliding_find_total [OF inv gids wf n(1)] mamba_loop_total [OF inv gids wf n(1)]
    by (auto simp: find_longest_cache_hit_def hit_class_def mamba_find_longest_cache_hit_def Let_def split: manager_class.splits)
qed

section \<open>One pass over the attention groups\<close>

abbreviation num_groups :: "coordinator \<Rightarrow> nat" where
  "num_groups co \<equiv> length (kv_cache_groups (co_config co))"

abbreviation group_ids :: "attention_group \<Rightarrow> int list" where
  "group_ids ag \<equiv> fst (snd ag)"

abbreviation group_bs :: "attention_group \<Rightarrow> int" where
  "group_bs ag \<equiv> spec_block_size (fst ag)"

definition hash_view :: "bytes list \<Rightarrow> coordinator \<Rightarrow> kv_cache_spec \<Rightarrow> block_hash_list" where
  "hash_view bhs co spec = hash_list_for (spec_block_size spec) (co_hash_block_size co) bhs"

definition group_ok :: "coordinator \<Rightarrow> attention_group \<Rightarrow> bool" where
  "group_ok co ag \<longleftrightarrow> hit_class (snd (snd ag)) (fst ag) \<and> spec_ok (fst ag) \<and> gids_ok (group_ids ag) \<and>
     group_bs ag mod co_hash_block_size co = 0 \<and> group_bs ag dvd lcm_block_size co \<and>
     list_all (\<lambda>g. nat g < num_groups co) (group_ids ag)"

text \<open>
  What the constructor establishes, with at most one full-attention group and no EAGLE drop on a
  Mamba group.
\<close>

definition hybrid_ok :: "coordinator \<Rightarrow> bool" where
  "hybrid_ok co \<longleftrightarrow> attention_groups co \<noteq> [] \<and> list_all (group_ok co) (attention_groups co) \<and>
     distinct (concat (map group_ids (attention_groups co))) \<and>
     set (concat (map group_ids (attention_groups co))) = int ` {0..<num_groups co} \<and>
     0 < co_hash_block_size co \<and>
     (\<forall>i < length (attention_groups co).
        (0 < i \<longrightarrow> \<not> is_full_attention (fst (attention_groups co ! i))) \<and>
        (snd (snd (attention_groups co ! i)) = MambaManager \<longrightarrow> i \<notin> set (eagle_attn_group_indices co)))"

definition found_ok ::
  "block_pool \<Rightarrow> coordinator \<Rightarrow> bytes list \<Rightarrow> attention_group \<Rightarrow> blk list option list \<Rightarrow> nat \<Rightarrow> bool" where
  "found_ok p co bhs ag found L \<longleftrightarrow>
     (\<exists>cs. hit_rows p (group_ids ag) (bhl_list (hash_view bhs co (fst ag))) L cs \<and>
        (\<forall>k < length (group_ids ag). found ! nat (group_ids ag ! k) = Some (cs ! k)))"

definition pass_inv ::
  "block_pool \<Rightarrow> coordinator \<Rightarrow> bytes list \<Rightarrow> int \<Rightarrow> nat \<Rightarrow> hit_state \<Rightarrow> bool" where
  "pass_inv p co bhs H k st \<longleftrightarrow>
     (case st of (cur, found, verified) \<Rightarrow>
        length found = num_groups co \<and> 0 \<le> cur \<and> cur \<le> H \<and>
        (lcm_block_size co dvd cur \<or> k = 0 \<and> (\<forall>g < num_groups co. found ! g = None)) \<and>
        (\<forall>i < length (attention_groups co). let ag = attention_groups co ! i in
           i < k \<or> is_full_attention (fst ag) \<and> found ! nat (group_ids ag ! 0) \<noteq> None \<longrightarrow>
           (\<exists>L. found_ok p co bhs ag found L \<and> cur \<le> int L * group_bs ag \<and>
              (\<not> is_full_attention (fst ag) \<longrightarrow>
                 int L * group_bs ag \<le> H \<and> (Suc i = k \<longrightarrow> int L * group_bs ag = cur)))))"

lemma set_groups_nth:
  assumes "distinct ids" "list_all (\<lambda>g. 0 \<le> g \<and> nat g < length found) ids" "length cs = length ids"
  shows "length (set_groups ids cs found) = length found"
    "k < length ids \<Longrightarrow> set_groups ids cs found ! nat (ids ! k) = Some (cs ! k)"
    "\<And>j. int j \<notin> set ids \<Longrightarrow> set_groups ids cs found ! j = found ! j"
proof -
  have "length (set_groups ids cs found) = length found \<and>
    (\<forall>k < length ids. set_groups ids cs found ! nat (ids ! k) = Some (cs ! k)) \<and>
    (\<forall>j. int j \<notin> set ids \<longrightarrow> set_groups ids cs found ! j = found ! j)"
    using assms
  proof (induction ids arbitrary: cs found)
    case Nil
    then show ?case by (simp add: set_groups_def)
  next
    case (Cons g ids)
    then obtain c ds where cs: "cs = c # ds" by (cases cs) auto
    let ?f = "found[nat g := Some c]"
    have IH: "length (set_groups ids ds ?f) = length ?f \<and>
      (\<forall>k < length ids. set_groups ids ds ?f ! nat (ids ! k) = Some (ds ! k)) \<and>
      (\<forall>j. int j \<notin> set ids \<longrightarrow> set_groups ids ds ?f ! j = ?f ! j)"
      by (rule Cons.IH) (use Cons.prems cs in auto)
    have step: "set_groups (g # ids) (c # ds) found = set_groups ids ds ?f" by (simp add: set_groups_def)
    have g: "0 \<le> g" "nat g < length found" "g \<notin> set ids" using Cons.prems by auto
    have "set_groups ids ds ?f ! nat g = Some c" using IH g by simp
    then show ?case using IH g(1) unfolding cs step by (auto simp: nth_Cons' nth_list_update split: nat.splits)
  qed
  then show "length (set_groups ids cs found) = length found"
    "k < length ids \<Longrightarrow> set_groups ids cs found ! nat (ids ! k) = Some (cs ! k)"
    "\<And>j. int j \<notin> set ids \<Longrightarrow> set_groups ids cs found ! j = found ! j" by blast+
qed

lemma hash_view_ok:
  assumes "group_ok co ag" "0 < co_hash_block_size co" "0 \<le> limit" "limit div co_hash_block_size co \<le> py_len bhs"
  shows "hashes_for_spec bhs co (fst ag) = Inr (hash_view bhs co (fst ag))" "bhl_wf (hash_view bhs co (fst ag))"
    "nat (limit div group_bs ag) \<le> length (bhl_list (hash_view bhs co (fst ag)))"
proof -
  let ?bs = "group_bs ag" and ?h = "co_hash_block_size co"
  define k where "k = ?bs div ?h"
  have g: "0 < ?bs" "?bs mod ?h = 0" using assms(1) by (auto simp: group_ok_def spec_ok_def)
  then have bs: "?bs = k * ?h" by (simp add: k_def mod_0_imp_dvd)
  then have k: "0 < k" using g(1) assms(2) by (simp add: zero_less_mult_iff)
  show "hashes_for_spec bhs co (fst ag) = Inr (hash_view bhs co (fst ag))"
    using g(2) assms(2) by (simp add: hashes_for_spec_def hash_view_def hash_list_for_def BlockHashListWithBlockSize_def)
  show "bhl_wf (hash_view bhs co (fst ag))"
    using k by (auto simp: bhl_wf_def hash_view_def hash_list_for_def k_def)
  have "limit div ?bs \<le> py_len bhs div k"
  proof -
    have "limit div ?bs = limit div ?h div k" using zdiv_zmult2_eq [of k limit ?h] k by (simp add: bs mult.commute)
    also have "\<dots> \<le> py_len bhs div k"
      using assms(4) k by (intro zdiv_mono1) auto
    finally show ?thesis .
  qed
  moreover have "int (length (bhl_list (hash_view bhs co (fst ag)))) = py_len bhs div k"
    using bhl_len_list(1) [OF hash_view_def assms(2) g(1,2), of bhs] k assms(2)
    by (auto simp: hash_view_def hash_list_for_def py_len_def k_def pos_imp_zdiv_nonneg_iff)
  ultimately show "nat (limit div ?bs) \<le> length (bhl_list (hash_view bhs co (fst ag)))" by linarith
qed

lemma aligned_dvd: "aligned bs al L \<Longrightarrow> al dvd int L * bs"
  by (auto simp: aligned_def)

lemma distinct_concat_nth:
  assumes "distinct (concat xss)" "i < length xss" "j < length xss" "i \<noteq> j"
  shows "set (xss ! i) \<inter> set (xss ! j) = {}"
  using assms
proof (induction xss arbitrary: i j)
  case (Cons ys xss)
  have "set ys \<inter> set (xss ! k) = {}" if "k < length xss" for k
    using Cons.prems(1) nth_mem [OF that] by auto
  then show ?case using Cons by (cases i; cases j) (auto simp: Int_commute)
qed simp

lemma hybrid_groupD:
  assumes "hybrid_ok co" "i < length (attention_groups co)"
  shows "group_ok co (attention_groups co ! i)" "distinct (group_ids (attention_groups co ! i))"
    "j < length (attention_groups co) \<Longrightarrow> j \<noteq> i \<Longrightarrow>
       set (group_ids (attention_groups co ! j)) \<inter> set (group_ids (attention_groups co ! i)) = {}"
    "0 < i \<Longrightarrow> \<not> is_full_attention (fst (attention_groups co ! i))"
proof -
  let ?ags = "attention_groups co"
  have d: "distinct (concat (map group_ids ?ags))" using assms(1) by (simp add: hybrid_ok_def)
  show "group_ok co (?ags ! i)" "0 < i \<Longrightarrow> \<not> is_full_attention (fst (?ags ! i))"
    using assms by (auto simp: hybrid_ok_def list_all_length)
  show "distinct (group_ids (?ags ! i))" using d assms(2) by (auto simp: distinct_concat_iff)
  show "j < length ?ags \<Longrightarrow> j \<noteq> i \<Longrightarrow> set (group_ids (?ags ! j)) \<inter> set (group_ids (?ags ! i)) = {}"
    using distinct_concat_nth [OF d, of j i] assms(2) by simp
qed

text \<open>The result of a lookup stays below the current length.\<close>

lemma lookup_le:
  assumes "0 < bs" "0 \<le> cur" "L \<le> nat ((if e then min (cur + bs) m else cur) div bs) - of_bool e"
  shows "int L * bs \<le> cur"
proof (cases e)
  case True
  have "int L \<le> min (cur + bs) m div bs - 1 \<or> L = 0" using assms(3) True by auto
  moreover have "min (cur + bs) m div bs \<le> cur div bs + 1"
    using zdiv_mono1 [OF min.cobounded1 assms(1), of "cur + bs" m] assms(1) by simp
  ultimately have "int L \<le> cur div bs \<or> L = 0" by linarith
  then show ?thesis using le_div_iff_mult_le [OF assms(1)] assms(2) by auto
next
  case False
  then have "int L \<le> cur div bs" using assms pos_imp_zdiv_nonneg_iff [OF assms(1), of cur] by auto
  then show ?thesis using le_div_iff_mult_le [OF assms(1)] by simp
qed

lemma found_ok_frame:
  assumes "found_ok p co bhs ag found L" "gids_ok (group_ids ag)"
    and "\<And>g. g \<in> set (group_ids ag) \<Longrightarrow> found' ! nat g = found ! nat g"
  shows "found_ok p co bhs ag found' L"
  using assms by (fastforce simp: found_ok_def)

lemma pass_old:
  assumes "pass_inv p co bhs H k (cur, found, verified)" "i < length (attention_groups co)" "ag = attention_groups co ! i"
    and "i < k \<or> is_full_attention (fst ag) \<and> found ! nat (group_ids ag ! 0) \<noteq> None"
  shows "\<exists>L. found_ok p co bhs ag found L \<and> cur \<le> int L * group_bs ag \<and>
      (\<not> is_full_attention (fst ag) \<longrightarrow> int L * group_bs ag \<le> H)"
  using assms unfolding pass_inv_def by (auto simp: Let_def)

text \<open>A full-attention group that was looked up before only accepts the length.\<close>

lemma pass_keep:
  assumes hyb: "hybrid_ok co" and k: "k < length (attention_groups co)" "ag = attention_groups co ! k"
    and st: "pass_inv p co bhs H k (cur, found, verified)"
    and full: "is_full_attention (fst ag)" "found ! nat (group_ids ag ! 0) \<noteq> None"
  shows "cur div group_bs ag * group_bs ag = cur" "pass_inv p co bhs H (Suc k) (cur, found, verified)"
proof -
  let ?ags = "attention_groups co"
  have g: "group_ok co ag" using hybrid_groupD(1) [OF hyb k(1)] k(2) by simp
  have dvd: "lcm_block_size co dvd cur"
    using st full(2) g by (auto simp: pass_inv_def group_ok_def gids_ok_def list_all_length)
  moreover have "group_bs ag dvd lcm_block_size co" using g by (simp add: group_ok_def)
  ultimately show "cur div group_bs ag * group_bs ag = cur" by (metis dvd_div_mult_self dvd_trans)
  show "pass_inv p co bhs H (Suc k) (cur, found, verified)"
    unfolding pass_inv_def prod.case Let_def
  proof (intro conjI allI impI)
    fix i assume i: "i < length ?ags" "i < Suc k \<or> is_full_attention (fst (?ags ! i)) \<and> found ! nat (group_ids (?ags ! i) ! 0) \<noteq> None"
    show "\<exists>L. found_ok p co bhs (?ags ! i) found L \<and> cur \<le> int L * group_bs (?ags ! i) \<and>
       (\<not> is_full_attention (fst (?ags ! i)) \<longrightarrow> int L * group_bs (?ags ! i) \<le> H \<and> (Suc i = Suc k \<longrightarrow> int L * group_bs (?ags ! i) = cur))"
      using pass_old [OF st i(1) refl] i(2) full k(2) by (cases "i = k") auto
  qed (use st dvd in \<open>auto simp: pass_inv_def\<close>)
qed

text \<open>A group that is looked up gets rows for a length that replaces the current one.\<close>

lemma pass_found:
  assumes hyb: "hybrid_ok co" and k: "k < length (attention_groups co)" "ag = attention_groups co ! k"
    and st: "pass_inv p co bhs H k (cur, found, verified)"
    and L: "int L * group_bs ag \<le> cur" "aligned (group_bs ag) (lcm_block_size co) L"
      "hit_rows p (group_ids ag) (bhl_list (hash_view bhs co (fst ag))) L cs"
  shows "pass_inv p co bhs H (Suc k) (int L * group_bs ag, set_groups (group_ids ag) cs found, verified')"
proof -
  let ?ags = "attention_groups co" and ?new = "set_groups (group_ids ag) cs found"
  note g = hybrid_groupD [OF hyb k(1), folded k(2)]
  have cur: "0 \<le> cur" "cur \<le> H" "length found = num_groups co" using st by (auto simp: pass_inv_def)
  have ids: "list_all (\<lambda>g. 0 \<le> g \<and> nat g < length found) (group_ids ag)" and bs: "0 < group_bs ag"
    using g(1) cur(3) by (auto simp: group_ok_def gids_ok_def list_all_iff spec_ok_def)
  have csl: "length cs = length (group_ids ag)" using L(3) by (simp add: hit_rows_def)
  note sg = set_groups_nth [OF g(2) ids csl]
  have new: "found_ok p co bhs ag ?new L" using L(3) sg(2) by (auto simp: found_ok_def)
  have keep: "found_ok p co bhs (?ags ! i) ?new L'" if "found_ok p co bhs (?ags ! i) found L'" "i < length ?ags" "i \<noteq> k" for i L'
  proof (rule found_ok_frame [OF that(1)])
    show gi: "gids_ok (group_ids (?ags ! i))" using hybrid_groupD(1) [OF hyb that(2)] by (simp add: group_ok_def)
    fix x assume x: "x \<in> set (group_ids (?ags ! i))"
    then have "x \<notin> set (group_ids ag)" using g(3) [OF that(2,3)] by auto
    moreover have "0 \<le> x" using gi x by (auto simp: gids_ok_def list_all_iff)
    ultimately show "?new ! nat x = found ! nat x" using sg(3) [of "nat x"] by simp
  qed
  show ?thesis
    unfolding pass_inv_def prod.case Let_def
  proof (intro conjI allI impI)
    show "lcm_block_size co dvd int L * group_bs ag \<or> Suc k = 0 \<and> (\<forall>g<num_groups co. ?new ! g = None)"
      using aligned_dvd [OF L(2)] by simp
    fix i assume i: "i < length ?ags" "i < Suc k \<or> is_full_attention (fst (?ags ! i)) \<and> ?new ! nat (group_ids (?ags ! i) ! 0) \<noteq> None"
    then have le: "i \<le> k" using hybrid_groupD(4) [OF hyb i(1)] by (cases "i = 0") auto
    show "\<exists>L'. found_ok p co bhs (?ags ! i) ?new L' \<and> int L * group_bs ag \<le> int L' * group_bs (?ags ! i) \<and>
       (\<not> is_full_attention (fst (?ags ! i)) \<longrightarrow> int L' * group_bs (?ags ! i) \<le> H \<and>
          (Suc i = Suc k \<longrightarrow> int L' * group_bs (?ags ! i) = int L * group_bs ag))"
    proof (cases "i = k")
      case True
      then show ?thesis using new k(2) L(1) cur(2) by (intro exI [of _ L]) simp
    next
      case False
      then have "i < k" using le by simp
      then show ?thesis using pass_old [OF st i(1) refl] keep [OF _ i(1) False] L(1) by force
    qed
  qed (use sg(1) bs L(1) cur in auto)
qed

lemma check_group_lookup:
  assumes hyb: "hybrid_ok co" and inv: "pool_inv p xs" and k: "k < length (attention_groups co)"
    and ag: "attention_groups co ! k = (spec, ids, cls)" and bs: "bs = spec_block_size spec"
    and cur: "0 \<le> cur" "cur \<le> max_length" and cover: "max_length div co_hash_block_size co \<le> py_len bhs"
    and e: "e \<longleftrightarrow> k \<in> set (eagle_attn_group_indices co) \<and> k \<notin> set verified"
    and limit: "limit = (if e then min (cur + bs) max_length else cur)"
  shows "\<exists>cs L. hashes_for_spec bhs co spec = Inr (hash_view bhs co spec) \<and>
    find_longest_cache_hit cls (hash_view bhs co spec) limit ids p spec e (lcm_block_size co) 1 1 = Inr cs \<and>
    int L * bs \<le> cur \<and> aligned bs (lcm_block_size co) L \<and> hit_rows p ids (bhl_list (hash_view bhs co spec)) L cs"
proof -
  note g = hybrid_groupD(1) [OF hyb k]
  have ok: "hit_class cls spec" "spec_ok spec" "gids_ok ids" "0 < bs"
    using g ag bs by (auto simp: group_ok_def spec_ok_def)
  have lim: "0 \<le> limit" "limit \<le> max_length" using cur ok(4) by (auto simp: limit)
  have hash: "0 < co_hash_block_size co" using hyb by (simp add: hybrid_ok_def)
  have cov: "limit div co_hash_block_size co \<le> py_len bhs" using zdiv_mono1 [OF lim(2) hash] cover by linarith
  note hv = hash_view_ok [OF g hash lim(1) cov, unfolded ag fst_conv bs [symmetric]]
  obtain cs where cs: "find_longest_cache_hit cls (hash_view bhs co spec) limit ids p spec e (lcm_block_size co) 1 1 = Inr cs"
    using find_hit_total [OF inv ok(3) hv(2) ok(2,1) hv(3) [unfolded bs] lim(1)] by blast
  have one: "bs = (if 1 < 1 * (1::int) then spec_block_size spec * (1 * 1) else spec_block_size spec)" by (simp add: bs)
  obtain L where L: "L \<le> hit_limit cls e (nat (limit div bs))" "aligned bs (lcm_block_size co) L"
      "hit_rows p ids (bhl_list (hash_view bhs co spec)) L cs"
    using find_hit_rows [OF inv ok(3,2) cs one hv(2,3) lim(1)] by blast
  have "cls = MambaManager \<Longrightarrow> \<not> e" using hyb k ag by (auto simp: hybrid_ok_def e)
  then have "L \<le> nat ((if e then min (cur + bs) max_length else cur) div bs) - of_bool e"
    using L(1) by (auto simp: hit_limit_def limit split: if_splits)
  then have "int L * bs \<le> cur" by (rule lookup_le [OF ok(4) cur(1)])
  then show ?thesis using cs L hv(1) by blast
qed

lemma check_group_step:
  assumes hyb: "hybrid_ok co" and inv: "pool_inv p xs" and H: "H \<le> max_length"
    and cover: "max_length div co_hash_block_size co \<le> py_len bhs"
    and st: "pass_inv p co bhs H k st" and k: "k < length (attention_groups co)"
  shows "\<exists>st'. check_group bhs max_length co p (k, attention_groups co ! k) st = Inr st' \<and> pass_inv p co bhs H (Suc k) st'"
proof -
  obtain cur found verified where s: "st = (cur, found, verified)" by (cases st) auto
  obtain spec ids cls where ag: "attention_groups co ! k = (spec, ids, cls)" by (cases "attention_groups co ! k") auto
  have ids: "gids_ok ids" "list_all (\<lambda>g. nat g < num_groups co) ids"
    using hybrid_groupD(1) [OF hyb k] ag by (auto simp: group_ok_def)
  have cur: "0 \<le> cur" "cur \<le> max_length" "length found = num_groups co" using st H by (auto simp: pass_inv_def s)
  have g0: "py_get ids 0 = Inr (ids ! 0)" "py_get found (ids ! 0) = Inr (found ! nat (ids ! 0))"
    using ids cur(3) by (auto simp: gids_ok_def py_get_def py_len_def list_all_length nat_less_iff)
  show ?thesis
  proof (cases "is_full_attention spec \<and> found ! nat (ids ! 0) \<noteq> None")
    case True
    note pk = pass_keep [OF hyb k ag [symmetric] st [unfolded s], simplified]
    then show ?thesis using True g0 by (auto simp: check_group_def ag s)
  next
    case False
    let ?e = "k \<in> set (eagle_attn_group_indices co) \<and> k \<notin> set verified"
    obtain cs L where l: "hashes_for_spec bhs co spec = Inr (hash_view bhs co spec)"
      "find_longest_cache_hit cls (hash_view bhs co spec)
         (if ?e then min (cur + spec_block_size spec) max_length else cur) ids p spec ?e (lcm_block_size co) 1 1 = Inr cs"
      "int L * spec_block_size spec \<le> cur" "aligned (spec_block_size spec) (lcm_block_size co) L"
      "hit_rows p ids (bhl_list (hash_view bhs co spec)) L cs"
      using check_group_lookup [OF hyb inv k ag refl cur(1,2) cover refl refl] by blast
    have csl: "py_get cs 0 = Inr (cs ! 0)" "py_len (cs ! 0) = int L"
      using l(5) ids(1) by (auto simp: hit_rows_def gids_ok_def uniform_def py_get_def py_len_def list_all_length)
    show ?thesis
      using pass_found [OF hyb k ag [symmetric] st [unfolded s], simplified, OF l(3-5)] False g0 l(1,2) csl
      by (auto simp: check_group_def ag s Let_def)
  qed
qed

section \<open>The loop\<close>

lemma pass_run:
  assumes hyb: "hybrid_ok co" and inv: "pool_inv p xs" and H: "H \<le> max_length"
    and cover: "max_length div co_hash_block_size co \<le> py_len bhs"
    and "pass_inv p co bhs H k st" "k \<le> length (attention_groups co)"
  shows "\<exists>st'. rfold (check_group bhs max_length co p) (List.enumerate k (drop k (attention_groups co))) st = Inr st' \<and>
    pass_inv p co bhs H (length (attention_groups co)) st'"
  using assms(5,6)
proof (induction "length (attention_groups co) - k" arbitrary: k st)
  case 0
  then show ?case by simp
next
  case (Suc d)
  then have k: "k < length (attention_groups co)" by simp
  then have "List.enumerate k (drop k (attention_groups co)) =
      (k, attention_groups co ! k) # List.enumerate (Suc k) (drop (Suc k) (attention_groups co))"
    by (simp add: Cons_nth_drop_Suc [symmetric])
  moreover obtain st1 where "check_group bhs max_length co p (k, attention_groups co ! k) st = Inr st1"
    "pass_inv p co bhs H (Suc k) st1"
    using check_group_step [OF hyb inv H cover Suc.prems(1) k] by blast
  ultimately show ?case using Suc.hyps(1) [of "Suc k" st1] Suc.hyps(2) k by auto
qed

definition hit_final :: "block_pool \<Rightarrow> coordinator \<Rightarrow> bytes list \<Rightarrow> int \<Rightarrow> blk list option list \<Rightarrow> bool" where
  "hit_final p co bhs len found \<longleftrightarrow> length found = num_groups co \<and> 0 \<le> len \<and> lcm_block_size co dvd len \<and>
     (\<forall>i < length (attention_groups co). let ag = attention_groups co ! i in
        \<exists>L. found_ok p co bhs ag found L \<and> len \<le> int L * group_bs ag \<and>
          (\<not> is_full_attention (fst ag) \<longrightarrow> int L * group_bs ag = len))"

lemma pass_final:
  assumes "pass_inv p co bhs H (length (attention_groups co)) (cur, found, verified)" "attention_groups co \<noteq> []"
    and "H \<le> cur \<or> is_simple_hybrid co" "hybrid_ok co"
  shows "hit_final p co bhs cur found"
proof -
  let ?ags = "attention_groups co"
  have "\<exists>L. found_ok p co bhs (?ags ! i) found L \<and> cur \<le> int L * group_bs (?ags ! i) \<and>
      (\<not> is_full_attention (fst (?ags ! i)) \<longrightarrow> int L * group_bs (?ags ! i) = cur)" if i: "i < length ?ags" for i
  proof -
    obtain L where L: "found_ok p co bhs (?ags ! i) found L" "cur \<le> int L * group_bs (?ags ! i)"
      "\<not> is_full_attention (fst (?ags ! i)) \<longrightarrow>
         int L * group_bs (?ags ! i) \<le> H \<and> (Suc i = length ?ags \<longrightarrow> int L * group_bs (?ags ! i) = cur)"
      using assms(1) i unfolding pass_inv_def by (auto simp: Let_def)
    have "is_simple_hybrid co \<Longrightarrow> is_full_attention (fst (?ags ! i)) \<or> Suc i = length ?ags"
      using i by (cases "i = 0") (auto simp: is_simple_hybrid_def)
    then show ?thesis using L assms(3) by (intro exI [of _ L]) auto
  qed
  then show ?thesis using assms(1,2) by (auto simp: hit_final_def pass_inv_def Let_def)
qed

lemma pass_restart:
  assumes "pass_inv p co bhs H (length (attention_groups co)) (cur, found, verified)" "attention_groups co \<noteq> []"
    and "hybrid_ok co"
  shows "pass_inv p co bhs cur 0 (cur, found, verified)"
  using assms unfolding pass_inv_def by (fastforce simp: Let_def)

lemma hit_loop_ends:
  assumes hyb: "hybrid_ok co" and inv: "pool_inv p xs" and cover: "max_length div co_hash_block_size co \<le> py_len bhs"
    and "H \<le> max_length" "pass_inv p co bhs H 0 (H, found, verified)"
  shows "\<exists>len found' verified'. hit_loop bhs max_length co p (is_simple_hybrid co) (H, found, verified)
      = Some (Inr (len, found', verified')) \<and> len \<le> H \<and> hit_final p co bhs len found'"
  using assms(4,5)
proof (induction "nat H" arbitrary: H found verified rule: less_induct)
  case less
  have ne: "attention_groups co \<noteq> []" using hyb by (simp add: hybrid_ok_def)
  obtain cur found1 verified1 where r: "rfold (check_group bhs max_length co p) (List.enumerate 0 (attention_groups co))
      (H, found, verified) = Inr (cur, found1, verified1)"
    and p1: "pass_inv p co bhs H (length (attention_groups co)) (cur, found1, verified1)"
    using pass_run [OF hyb inv less.prems(1) cover less.prems(2)] by auto
  have cur: "0 \<le> cur" "cur \<le> H" using p1 by (auto simp: pass_inv_def)
  show ?case
  proof (cases "H \<le> cur \<or> is_simple_hybrid co")
    case True
    then have "hit_loop bhs max_length co p (is_simple_hybrid co) (H, found, verified) = Some (Inr (cur, found1, verified1))"
      using r cur by (subst hit_loop.simps) auto
    then show ?thesis using pass_final [OF p1 ne True hyb] cur by blast
  next
    case False
    then have "hit_loop bhs max_length co p (is_simple_hybrid co) (H, found, verified) =
        hit_loop bhs max_length co p (is_simple_hybrid co) (cur, found1, verified1)"
      using r by (subst hit_loop.simps) simp
    moreover have "nat cur < nat H" "cur \<le> max_length" using False cur less.prems(1) by auto
    ultimately show ?thesis using less.hyps [OF _ _ pass_restart [OF p1 ne hyb]] cur by fastforce
  qed
qed

section \<open>Cutting the full-attention lists\<close>

lemma fold_update_nth:
  fixes found :: "'a list" and h :: "'a \<Rightarrow> 'a"
  assumes "distinct ids" "list_all (\<lambda>g. 0 \<le> g \<and> nat g < length found) ids"
  defines "r \<equiv> fold (\<lambda>g fs. fs[nat g := h (fs ! nat g)]) ids found"
  shows "length r = length found" "\<And>g. g \<in> set ids \<Longrightarrow> r ! nat g = h (found ! nat g)"
    "\<And>j. int j \<notin> set ids \<Longrightarrow> r ! j = found ! j"
proof -
  have "length r = length found \<and> (\<forall>g \<in> set ids. r ! nat g = h (found ! nat g)) \<and>
      (\<forall>j. int j \<notin> set ids \<longrightarrow> r ! j = found ! j)"
    using assms(1,2) unfolding r_def
  proof (induction ids arbitrary: found)
    case (Cons g ids)
    let ?f = "found[nat g := h (found ! nat g)]"
    have IH: "length (fold (\<lambda>g fs. fs[nat g := h (fs ! nat g)]) ids ?f) = length ?f \<and>
      (\<forall>x \<in> set ids. fold (\<lambda>g fs. fs[nat g := h (fs ! nat g)]) ids ?f ! nat x = h (?f ! nat x)) \<and>
      (\<forall>j. int j \<notin> set ids \<longrightarrow> fold (\<lambda>g fs. fs[nat g := h (fs ! nat g)]) ids ?f ! j = ?f ! j)"
      by (rule Cons.IH) (use Cons.prems in auto)
    have g: "0 \<le> g" "nat g < length found" "g \<notin> set ids" using Cons.prems by auto
    have "\<forall>x \<in> set ids. nat x \<noteq> nat g"
      using g Cons.prems(2) by (auto simp: list_all_iff nat_eq_iff)
    then show ?case using IH g by (auto simp: nth_list_update)
  qed simp
  then show "length r = length found" "\<And>g. g \<in> set ids \<Longrightarrow> r ! nat g = h (found ! nat g)"
    "\<And>j. int j \<notin> set ids \<Longrightarrow> r ! j = found ! j" by blast+
qed

text \<open>In the end every group holds rows of exactly \<open>len\<close> tokens.\<close>

definition hit_agrees :: "block_pool \<Rightarrow> coordinator \<Rightarrow> bytes list \<Rightarrow> int \<Rightarrow> blk list option list \<Rightarrow> bool" where
  "hit_agrees p co bhs len found \<longleftrightarrow> length found = num_groups co \<and>
     (\<forall>i < length (attention_groups co). let ag = attention_groups co ! i in
        \<exists>L. found_ok p co bhs ag found L \<and> int L * group_bs ag = len)"

lemma trim_full_agrees:
  assumes hyb: "hybrid_ok co" and fin: "hit_final p co bhs len found"
  shows "\<exists>found'. trim_full co len found = Inr found' \<and> hit_agrees p co bhs len found'"
proof -
  let ?ags = "attention_groups co"
  have ne: "0 < length ?ags" using hyb by (simp add: hybrid_ok_def)
  obtain spec ids cls where ag: "?ags ! 0 = (spec, ids, cls)" by (cases "?ags ! 0") auto
  have g0: "py_get ?ags 0 = Inr (spec, ids, cls)" using ne ag by (simp add: py_get_def py_len_def)
  have fin': "\<exists>L. found_ok p co bhs (?ags ! i) found L \<and> len \<le> int L * group_bs (?ags ! i) \<and>
      (\<not> is_full_attention (fst (?ags ! i)) \<longrightarrow> int L * group_bs (?ags ! i) = len)" if "i < length ?ags" for i
    using fin that unfolding hit_final_def Let_def by blast
  have len: "length found = num_groups co" "0 \<le> len" "lcm_block_size co dvd len" using fin by (auto simp: hit_final_def)
  show ?thesis
  proof (cases "is_full_attention spec")
    case False
    have "\<not> is_full_attention (fst (?ags ! i))" if "i < length ?ags" for i
      using hybrid_groupD(4) [OF hyb that] False ag by (cases "i = 0") auto
    then have "hit_agrees p co bhs len found" using fin' len unfolding hit_agrees_def Let_def by blast
    then show ?thesis using False g0 by (simp add: trim_full_def)
  next
    case True
    define k where "k = nat (len div spec_block_size spec)"
    let ?h = "map_option (\<lambda>c. py_upto c (len div spec_block_size spec))"
    define found' where "found' = fold (\<lambda>g fs. fs[nat g := ?h (fs ! nat g)]) ids found"
    note g = hybrid_groupD [OF hyb ne, unfolded ag]
    have ok: "distinct ids" "list_all (\<lambda>g. 0 \<le> g \<and> nat g < length found) ids" "0 < spec_block_size spec"
        "spec_block_size spec dvd len" "gids_ok ids"
      using g(1,2) len by (auto simp: group_ok_def gids_ok_def list_all_iff spec_ok_def elim: dvd_trans)
    have k: "int k * spec_block_size spec = len" "len div spec_block_size spec = int k"
      using ok(3,4) len(2) by (auto simp: k_def pos_imp_zdiv_nonneg_iff)
    note up = fold_update_nth [OF ok(1,2), where h = ?h, folded found'_def]
    have first: "found_ok p co bhs (?ags ! 0) found' k"
    proof -
      obtain L cs where L: "hit_rows p ids (bhl_list (hash_view bhs co spec)) L cs" "len \<le> int L * spec_block_size spec"
        "\<forall>j < length ids. found ! nat (ids ! j) = Some (cs ! j)"
        using fin' [OF ne] ag by (auto simp: found_ok_def)
      have "int k * spec_block_size spec \<le> int L * spec_block_size spec" using L(2) k(1) by simp
      then have "k \<le> L" using ok(3) by simp
      note rows = hit_rows_take [OF L(1) this]
      have "length cs = length ids" using L(1) by (simp add: hit_rows_def)
      then have "\<forall>j < length ids. found' ! nat (ids ! j) = Some (map (take k) cs ! j)"
        using up(2) L(3) k(2) by (simp add: idx_simps)
      then show ?thesis using rows unfolding found_ok_def ag by (intro exI [of _ "map (take k) cs"]) simp
    qed
    have rest: "found_ok p co bhs (?ags ! i) found' L" if "found_ok p co bhs (?ags ! i) found L" "0 < i" "i < length ?ags" for i L
    proof (rule found_ok_frame [OF that(1)])
      show gi: "gids_ok (group_ids (?ags ! i))" using hybrid_groupD(1) [OF hyb that(3)] by (simp add: group_ok_def)
      fix x assume x: "x \<in> set (group_ids (?ags ! i))"
      then have "x \<notin> set ids" using g(3) [OF that(3)] that(2) by auto
      moreover have "0 \<le> x" using gi x by (auto simp: gids_ok_def list_all_iff)
      ultimately show "found' ! nat x = found ! nat x" using up(3) [of "nat x"] by simp
    qed
    have "\<exists>L. found_ok p co bhs (?ags ! i) found' L \<and> int L * group_bs (?ags ! i) = len" if "i < length ?ags" for i
      using first k(1) ag fin' [OF that] rest [OF _ _ that] hybrid_groupD(4) [OF hyb that] by (cases "i = 0") auto
    then have "hit_agrees p co bhs len found'" using up(1) len(1) by (simp add: hit_agrees_def Let_def)
    then show ?thesis using True g0 by (simp add: trim_full_def found'_def)
  qed
qed

lemma hybrid_find_agrees:
  assumes hyb: "hybrid_ok co" and inv: "pool_inv p xs" and len: "0 \<le> max_length"
    and cover: "max_length div co_hash_block_size co \<le> py_len bhs"
  shows "\<exists>found h. hybrid_find_longest_cache_hit bhs max_length co p =
      Some (Inr (map (\<lambda>c. case c of None \<Rightarrow> [] | Some bs \<Rightarrow> bs) found, h)) \<and>
    hit_agrees p co bhs h found \<and> 0 \<le> h \<and> h \<le> max_length \<and> lcm_block_size co dvd h"
proof -
  let ?none = "replicate (num_groups co) (None :: blk list option)"
  have ids: "nat (group_ids (attention_groups co ! i) ! 0) < num_groups co" if "i < length (attention_groups co)" for i
    using hybrid_groupD(1) [OF hyb that] by (auto simp: group_ok_def gids_ok_def list_all_length)
  have "pass_inv p co bhs max_length 0 (max_length, ?none, [])"
    using len ids by (auto simp: pass_inv_def Let_def)
  from hit_loop_ends [OF hyb inv cover _ this] obtain h found verified where
    "hit_loop bhs max_length co p (is_simple_hybrid co) (max_length, ?none, []) = Some (Inr (h, found, verified))"
    "h \<le> max_length" "hit_final p co bhs h found" by auto
  moreover from trim_full_agrees [OF hyb this(3)] obtain found' where
    "trim_full co h found = Inr found'" "hit_agrees p co bhs h found'" by blast
  ultimately show ?thesis by (auto simp: hybrid_find_longest_cache_hit_def hit_final_def)
qed

end
