(* ===== verification/Hybrid_Props.thy ===== *)
theory Hybrid_Props
  imports Hybrid_Hit "HOL-Library.Multiset"
begin

text \<open>
  The hybrid coordinator as its constructor builds it: the attention groups partition the KV cache
  groups, so the search of \<open>Hybrid_Hit\<close> applies.  The last section shows what happens with EAGLE on a
  Mamba group.
\<close>

section \<open>The constructor\<close>

lemma fold_lcm_dvd_start: "(a::int) dvd fold lcm xs a"
  by (induction xs arbitrary: a) (auto intro: dvd_trans [OF dvd_lcm2])

lemma fold_lcm_dvd: "(x::int) \<in> set xs \<Longrightarrow> x dvd fold lcm xs a"
  by (induction xs arbitrary: a) (auto intro: dvd_trans [OF dvd_lcm1 fold_lcm_dvd_start])

definition hit_spec :: "kv_cache_spec \<Rightarrow> bool" where
  "hit_spec spec \<longleftrightarrow> spec_ok spec \<and> (is_full_attention spec \<or> sliding_window_of spec \<noteq> None \<or> is_mamba_spec spec)"

lemma factory_class:
  assumes "get_manager_for_kv_cache_spec spec batched len None caching gid dcp pcp p = Inr (m, p')" "hit_spec spec"
  shows "hit_class (mgr_class m) spec" "mgr_class m = MambaManager \<longleftrightarrow> is_mamba_spec spec"
  using assms
  by (auto simp: get_manager_for_kv_cache_spec_def hit_spec_def hit_class_def new_sink_manager_def new_manager_def
      Let_def rbind_eq_Inr split: kv_cache_spec.splits option.splits)

lemma build_managers_nth:
  assumes "build_managers gs i batched len None caching dcp pcp p = Inr (ms, p')" "list_all (\<lambda>g. hit_spec (group_spec g)) gs"
  shows "length ms = length gs \<and> (\<forall>j < length gs. hit_class (mgr_class (ms ! j)) (group_spec (gs ! j)) \<and>
    (mgr_class (ms ! j) = MambaManager \<longleftrightarrow> is_mamba_spec (group_spec (gs ! j))))"
  using assms
proof (induction gs arbitrary: i p ms)
  case (Cons g gs)
  then obtain m p1 ms1 where m: "get_manager_for_kv_cache_spec (group_spec g) batched len None caching i dcp pcp p = Inr (m, p1)"
    "build_managers gs (i + 1) batched len None caching dcp pcp p1 = Inr (ms1, p')" "ms = m # ms1"
    by (auto simp: rbind_eq_Inr)
  then show ?case
    using Cons.IH [OF m(2)] Cons.prems(2) factory_class [OF m(1)] by (auto simp: nth_Cons' split: if_splits)
qed simp

text \<open>The attention groups collect the groups seen so far by their spec.\<close>

definition split_ok :: "kv_cache_group_spec list \<Rightarrow> manager list \<Rightarrow> nat \<Rightarrow> attention_group list \<Rightarrow> bool" where
  "split_ok gs ms k ags \<longleftrightarrow> distinct (map fst ags) \<and> mset (concat (map group_ids ags)) = mset (map int [0..<k]) \<and>
     (\<forall>ag \<in> set ags. group_ids ag \<noteq> [] \<and>
        (\<forall>g \<in> set (group_ids ag). group_spec (gs ! nat g) = fst ag \<and> mgr_class (ms ! nat g) = snd (snd ag)))"

lemma add_group:
  assumes "add_to_attention_groups i spec cls ags = Inr ags'"
  shows "mset (concat (map group_ids ags')) = add_mset i (mset (concat (map group_ids ags))) \<and>
    (distinct (map fst ags) \<longrightarrow> distinct (map fst ags')) \<and> set (map fst ags') = insert spec (set (map fst ags)) \<and>
    (\<forall>ag \<in> set ags'. (\<exists>ids. ag = (spec, ids @ [i], cls) \<and> (ids = [] \<or> (spec, ids, cls) \<in> set ags)) \<or> ag \<in> set ags)"
  using assms
proof (induction ags arbitrary: ags')
  case Nil
  then show ?case by auto
next
  case (Cons ag ags)
  obtain s ids c where ag: "ag = (s, ids, c)" by (cases ag) auto
  show ?case
  proof (cases "s = spec")
    case True
    then show ?thesis using Cons.prems ag by (auto simp: rbind_eq_Inr)
  next
    case False
    then obtain rest where r: "add_to_attention_groups i spec cls ags = Inr rest" "ags' = ag # rest"
      using Cons.prems ag by (auto simp: rbind_eq_Inr)
    then show ?thesis using Cons.IH [OF r(1)] False ag by auto
  qed
qed

lemma split_groups_ok:
  assumes "split_groups gs ms = Inr ags" "length ms = length gs"
  shows "split_ok gs ms (length gs) ags"
proof -
  define f :: "nat \<times> kv_cache_group_spec \<Rightarrow> attention_group list \<Rightarrow> attention_group list res" where
    "f = (\<lambda>(i, g) ags. rbind (py_get ms (int i)) (\<lambda>m.
      add_to_attention_groups (int i) (group_spec g) (mgr_class m) ags))"
  have "split_ok gs ms (length gs) ags"
    if "rfold f (List.enumerate k (drop k gs)) acc = Inr ags" "split_ok gs ms k acc" "k \<le> length gs" for k acc
    using that
  proof (induction "length gs - k" arbitrary: k acc)
    case 0
    then show ?case by simp
  next
    case (Suc d)
    then have k: "k < length gs" by simp
    then have e: "List.enumerate k (drop k gs) = (k, gs ! k) # List.enumerate (Suc k) (drop (Suc k) gs)"
      by (simp add: Cons_nth_drop_Suc [symmetric])
    have m: "py_get ms (int k) = Inr (ms ! k)" using k assms(2) by (simp add: py_get_def py_len_def)
    obtain acc' where a: "add_to_attention_groups (int k) (group_spec (gs ! k)) (mgr_class (ms ! k)) acc = Inr acc'"
      "rfold f (List.enumerate (Suc k) (drop (Suc k) gs)) acc' = Inr ags"
      using Suc.prems(1) m unfolding e by (auto simp: f_def rbind_eq_Inr)
    have "split_ok gs ms (Suc k) acc'"
      using add_group [OF a(1)] Suc.prems(2) unfolding split_ok_def by (fastforce simp: add.commute)
    then show ?case using Suc.hyps(1) [of "Suc k" acc'] Suc.hyps(2) a(2) k by simp
  qed
  from this [of 0 "[]"] show ?thesis using assms(1) by (simp add: split_groups_def f_def split_ok_def)
qed

lemma split_okD:
  assumes "split_ok gs ms (length gs) ags"
  shows "distinct (map fst ags)" "set (concat (map group_ids ags)) = int ` {0..<length gs}"
    "distinct (concat (map group_ids ags))" "ag \<in> set ags \<Longrightarrow> group_ids ag \<noteq> []"
    "ag \<in> set ags \<Longrightarrow> g \<in> set (group_ids ag) \<Longrightarrow>
       0 \<le> g \<and> nat g < length gs \<and> group_spec (gs ! nat g) = fst ag \<and> mgr_class (ms ! nat g) = snd (snd ag)"
    "ag \<in> set ags \<Longrightarrow> \<exists>j < length gs. fst ag = group_spec (gs ! j) \<and> snd (snd ag) = mgr_class (ms ! j)"
proof -
  have m: "mset (concat (map group_ids ags)) = mset (map int [0..<length gs])" using assms by (simp add: split_ok_def)
  show "distinct (map fst ags)" "ag \<in> set ags \<Longrightarrow> group_ids ag \<noteq> []" using assms by (auto simp: split_ok_def)
  show ids: "set (concat (map group_ids ags)) = int ` {0..<length gs}" using mset_eq_setD [OF m] by simp
  show "distinct (concat (map group_ids ags))" using mset_eq_imp_distinct_iff [OF m] by (simp add: distinct_map)
  show all: "0 \<le> g \<and> nat g < length gs \<and> group_spec (gs ! nat g) = fst ag \<and> mgr_class (ms ! nat g) = snd (snd ag)"
    if "ag \<in> set ags" "g \<in> set (group_ids ag)" for ag g
  proof -
    have "g \<in> set (concat (map group_ids ags))" using that by auto
    then have "g \<in> int ` {0..<length gs}" unfolding ids .
    then show ?thesis using assms that by (auto simp: split_ok_def)
  qed
  assume mem: "ag \<in> set ags"
  then have "hd (group_ids ag) \<in> set (group_ids ag)" using assms by (simp add: split_ok_def)
  from all [OF mem this] show "\<exists>j < length gs. fst ag = group_spec (gs ! j) \<and> snd (snd ag) = mgr_class (ms ! j)"
    by (intro exI [of _ "nat (hd (group_ids ag))"]) simp
qed

lemma full_first_facts:
  "mset (full_first ags) = mset ags" "set (full_first ags) = set ags"
  "mset (concat (map group_ids (full_first ags))) = mset (concat (map group_ids ags))"
proof -
  show m: "mset (full_first ags) = mset ags"
    by (simp add: full_first_def comp_def multiset_partition [symmetric])
  show "set (full_first ags) = set ags" using m by (rule mset_eq_setD)
  have "mset (concat (map group_ids (filter P ags @ filter (\<lambda>x. \<not> P x) ags))) = mset (concat (map group_ids ags))" for P
    by (induction ags) (auto simp: ac_simps)
  then show "mset (concat (map group_ids (full_first ags))) = mset (concat (map group_ids ags))"
    by (simp only: full_first_def comp_def)
qed

text \<open>
  The configurations for which the search is proved: groups of full attention (one spec), sliding
  windows and Mamba, with no EAGLE drop on a Mamba group.
\<close>

definition hybrid_config :: "kv_cache_config \<Rightarrow> bool \<Rightarrow> int \<Rightarrow> bool" where
  "hybrid_config cfg use_eagle hash_bs \<longleftrightarrow>
     (let gs = kv_cache_groups cfg
      in 0 < hash_bs \<and> int (length gs) < 2 ^ 32 \<and> nelssa_config_of cfg = None \<and>
         list_all (\<lambda>g. hit_spec (group_spec g)) gs \<and>
         length (remdups (filter is_full_attention (map group_spec gs))) \<le> 1 \<and>
         list_all (\<lambda>i. \<not> is_mamba_spec (group_spec (gs ! nat i))) (flagged_groups gs use_eagle))"

lemma hybrid_initD:
  assumes "hybrid_init cfg len batched use_eagle caching evs dcp pcp hash_bs metrics ih = Inr (co, p0)"
  obtains ags where "split_groups (kv_cache_groups cfg) (single_type_managers co) = Inr ags" "1 < length ags"
    "attention_groups co = full_first ags" "lcm_block_size co = fold lcm (map (spec_block_size \<circ> fst) ags) 1"
    "eagle_attn_group_indices co = map fst (filter (\<lambda>(i, (_, ids, _)). list_ex (\<lambda>g. g \<in> set (eagle_group_ids co)) ids)
        (List.enumerate 0 (full_first ags)))"
    "eagle_group_ids co = flagged_groups (kv_cache_groups cfg) use_eagle" "co_config co = cfg" "co_hash_block_size co = hash_bs"
    "list_all (\<lambda>g. spec_block_size (group_spec g) mod hash_bs = 0) (kv_cache_groups cfg)"
    "\<exists>p p1. build_managers (kv_cache_groups cfg) 0 batched len (nelssa_config_of cfg) caching dcp pcp p = Inr (single_type_managers co, p1)"
  using assms
  by (auto simp: hybrid_init_def base_coordinator_def verify_and_split_kv_cache_groups_def rbind_eq_Inr Let_def) blast

lemma one_full:
  assumes "distinct (map fst ags)" "set (map fst ags) \<subseteq> set specs"
    and "length (remdups (filter is_full_attention specs)) \<le> 1" "0 < i" "i < length ags"
  shows "\<not> is_full_attention (fst (full_first ags ! i))"
proof -
  let ?f = "filter (is_full_attention \<circ> fst) ags"
  have "length ?f = card (set (map fst ?f))"
    using assms(1) distinct_card [of "map fst ?f"] by (simp add: distinct_map_filter)
  also have "\<dots> \<le> card (set (filter is_full_attention specs))"
    using assms(2) by (intro card_mono) auto
  also have "\<dots> \<le> 1" using assms(3) by (simp add: length_remdups_card_conv)
  finally have f: "length ?f \<le> 1" .
  have "full_first ags ! i = filter (\<lambda>ag. \<not> is_full_attention (fst ag)) ags ! (i - length ?f)"
    using f assms(4) by (simp add: full_first_def nth_append)
  moreover have "i - length ?f < length (filter (\<lambda>ag. \<not> is_full_attention (fst ag)) ags)"
    using assms(4,5) f sum_length_filter_compl [of "is_full_attention \<circ> fst" ags] by (simp add: comp_def)
  ultimately show ?thesis using nth_mem by fastforce
qed

lemma hybrid_init_ok:
  assumes init: "hybrid_init cfg len batched use_eagle caching evs dcp pcp hash_bs metrics ih = Inr (co, p0)"
    and cfg: "hybrid_config cfg use_eagle hash_bs"
  shows "hybrid_ok co"
proof -
  let ?gs = "kv_cache_groups cfg" and ?ms = "single_type_managers co"
  obtain ags where a: "split_groups ?gs ?ms = Inr ags" "1 < length ags"
    "attention_groups co = full_first ags" "lcm_block_size co = fold lcm (map (spec_block_size \<circ> fst) ags) 1"
    "eagle_attn_group_indices co = map fst (filter (\<lambda>(i, (_, ids, _)). list_ex (\<lambda>g. g \<in> set (eagle_group_ids co)) ids)
        (List.enumerate 0 (full_first ags)))"
    "eagle_group_ids co = flagged_groups ?gs use_eagle" "co_config co = cfg" "co_hash_block_size co = hash_bs"
    "list_all (\<lambda>g. spec_block_size (group_spec g) mod hash_bs = 0) ?gs"
    "\<exists>p p1. build_managers ?gs 0 batched len (nelssa_config_of cfg) caching dcp pcp p = Inr (?ms, p1)"
    by (rule hybrid_initD [OF init])
  note c = cfg [unfolded hybrid_config_def Let_def]
  have ms: "length ?ms = length ?gs" "\<And>j. j < length ?gs \<Longrightarrow> hit_class (mgr_class (?ms ! j)) (group_spec (?gs ! j)) \<and>
      (mgr_class (?ms ! j) = MambaManager \<longleftrightarrow> is_mamba_spec (group_spec (?gs ! j)))"
    using a(10) c build_managers_nth by auto
  note so = split_groups_ok [OF a(1) ms(1)]
  note s = split_okD [OF so] and rng = split_okD(5) [OF so] and specs = split_okD(6) [OF so]
  have gok: "group_ok co ag" if mem: "ag \<in> set ags" for ag
  proof -
    obtain j where j: "j < length ?gs" "fst ag = group_spec (?gs ! j)" "snd (snd ag) = mgr_class (?ms ! j)" using specs [OF mem] by blast
    have "gids_ok (group_ids ag)" "list_all (\<lambda>g. nat g < length ?gs) (group_ids ag)"
      using rng [OF mem] s(4) [OF mem] c by (force simp: gids_ok_def list_all_iff)+
    moreover have "group_bs ag dvd lcm_block_size co" using mem unfolding a(4) by (intro fold_lcm_dvd) auto
    moreover have "hit_spec (fst ag)" "group_bs ag mod hash_bs = 0" using j c a(9) by (auto simp: list_all_length)
    ultimately show ?thesis
      using ms(2) [OF j(1)] j(2,3) a(7,8) by (simp add: group_ok_def hit_spec_def)
  qed
  have len: "length (full_first ags) = length ags" using full_first_facts(1) by (rule mset_eq_length)
  have nofull: "\<not> is_full_attention (fst (full_first ags ! i))" if "0 < i" "i < length ags" for i
  proof (rule one_full [OF _ _ _ that, of "map group_spec ?gs"])
    show "set (map fst ags) \<subseteq> set (map group_spec ?gs)" using specs by (force simp: in_set_conv_nth)
  qed (use s(1) c in auto)
  have nomamba: "i \<notin> set (eagle_attn_group_indices co)"
    if "i < length ags" "snd (snd (full_first ags ! i)) = MambaManager" for i
  proof
    have mem: "full_first ags ! i \<in> set ags" using that(1) nth_mem [of i "full_first ags"] len full_first_facts(2) by auto
    assume "i \<in> set (eagle_attn_group_indices co)"
    then obtain g where g: "g \<in> set (group_ids (full_first ags ! i))" "g \<in> set (flagged_groups ?gs use_eagle)"
      unfolding a(5,6) using that(1) by (auto simp: in_set_enumerate_eq list_ex_iff)
    have "mgr_class (?ms ! nat g) = MambaManager" using rng [OF mem g(1)] that(2) by simp
    then have "is_mamba_spec (group_spec (?gs ! nat g))" using ms(2) rng [OF mem g(1)] by blast
    then show False using c g(2) by (auto simp: list_all_iff)
  qed
  have "distinct (concat (map group_ids (full_first ags)))"
    using mset_eq_imp_distinct_iff [OF full_first_facts(3), of ags] s(3) by simp
  moreover have "set (concat (map group_ids (full_first ags))) = int ` {0..<length ?gs}"
    using mset_eq_setD [OF full_first_facts(3), of ags] s(2) by simp
  moreover have "list_all (group_ok co) (full_first ags)" using gok full_first_facts(2) by (simp add: list_all_iff)
  moreover have "full_first ags \<noteq> []" using a(2) len by auto
  ultimately show ?thesis
    using nofull nomamba c a(3,7,8) len unfolding hybrid_ok_def by simp
qed

lemma hybrid_group_of:
  assumes init: "hybrid_init cfg len batched use_eagle caching evs dcp pcp hash_bs metrics ih = Inr (co, p0)"
    and cfg: "hybrid_config cfg use_eagle hash_bs" and g: "g < length (kv_cache_groups cfg)"
  shows "\<exists>i k. i < length (attention_groups co) \<and> k < length (group_ids (attention_groups co ! i)) \<and>
    group_ids (attention_groups co ! i) ! k = int g \<and> fst (attention_groups co ! i) = group_spec (kv_cache_groups cfg ! g)"
proof -
  obtain ags p p1 where a: "split_groups (kv_cache_groups cfg) (single_type_managers co) = Inr ags"
    "attention_groups co = full_first ags"
    "build_managers (kv_cache_groups cfg) 0 batched len (nelssa_config_of cfg) caching dcp pcp p = Inr (single_type_managers co, p1)"
    by (rule hybrid_initD [OF init]) (elim exE)
  have "length (single_type_managers co) = length (kv_cache_groups cfg)"
    using build_managers_nth a(3) cfg unfolding hybrid_config_def Let_def by (metis (no_types))
  note s = split_okD [OF split_groups_ok [OF a(1) this]]
  have "int g \<in> set (concat (map group_ids ags))" unfolding s(2) using g by simp
  then obtain ag where ag: "ag \<in> set ags" "int g \<in> set (group_ids ag)" by auto
  then have "ag \<in> set (full_first ags)" using full_first_facts(2) by simp
  then obtain i where i: "i < length (attention_groups co)" "attention_groups co ! i = ag"
    unfolding a(2) by (auto simp: in_set_conv_nth)
  obtain k where "k < length (group_ids ag)" "group_ids ag ! k = int g" using ag(2) by (auto simp: in_set_conv_nth)
  moreover have "fst ag = group_spec (kv_cache_groups cfg ! g)" using s(5) [OF ag] by simp
  ultimately show ?thesis using i by blast
qed

section \<open>All groups agree\<close>

text \<open>
  C4. The fixed-point search of the hybrid coordinator terminates and its groups agree: for every
  coordinator the constructor builds for groups of one full-attention spec, sliding windows and Mamba (no
  chunked-local groups, no NELSSA, no EAGLE drop on a Mamba group), the search returns a length that
  is within the limit and a multiple of the common block size, and for each KV cache group a list of
  exactly that many tokens whose entries are the null block or blocks registered for this group under
  the hash at their position.
\<close>

theorem hybrid_hit_terminates_and_agrees:
  assumes "hybrid_init cfg len batched use_eagle caching evs dcp pcp hash_bs metrics ih = Inr (co, p0)"
    and "hybrid_config cfg use_eagle hash_bs" "pool_inv p xs"
    and "0 \<le> max_length" "max_length div hash_bs \<le> py_len bhs"
  shows "\<exists>bs h. hybrid_find_longest_cache_hit bhs max_length co p = Some (Inr (bs, h)) \<and>
    0 \<le> h \<and> h \<le> max_length \<and> lcm_block_size co dvd h \<and> length bs = length (kv_cache_groups cfg) \<and>
    (\<forall>g < length (kv_cache_groups cfg). let spec = group_spec (kv_cache_groups cfg ! g) in
       py_len (bs ! g) * spec_block_size spec = h \<and>
       (\<forall>j < length (bs ! g). bs ! g ! j = null_block p \<or>
          stores p (bs ! g ! j) (bhl_list (hash_view bhs co spec) ! j) (int g)))"
proof -
  let ?gs = "kv_cache_groups cfg"
  have hyb: "hybrid_ok co" by (rule hybrid_init_ok [OF assms(1,2)])
  have co: "co_config co = cfg" "co_hash_block_size co = hash_bs" by (rule hybrid_initD [OF assms(1)], assumption)+
  obtain found h where r: "hybrid_find_longest_cache_hit bhs max_length co p =
      Some (Inr (map (\<lambda>c. case c of None \<Rightarrow> [] | Some bs \<Rightarrow> bs) found, h))"
    "hit_agrees p co bhs h found" "0 \<le> h" "h \<le> max_length" "lcm_block_size co dvd h"
    using hybrid_find_agrees [OF hyb assms(3,4), of bhs] assms(5) co(2) by blast
  define bs where "bs = map (\<lambda>c. case c of None \<Rightarrow> [] | Some bs \<Rightarrow> bs) found"
  have len: "length bs = length ?gs" using r(2) co(1) by (simp add: bs_def hit_agrees_def)
  have "py_len (bs ! g) * spec_block_size (group_spec (?gs ! g)) = h \<and>
       (\<forall>j < length (bs ! g). bs ! g ! j = null_block p \<or>
          stores p (bs ! g ! j) (bhl_list (hash_view bhs co (group_spec (?gs ! g))) ! j) (int g))" if g: "g < length ?gs" for g
  proof -
    obtain i k where ik: "i < length (attention_groups co)" "k < length (group_ids (attention_groups co ! i))"
      "group_ids (attention_groups co ! i) ! k = int g" "fst (attention_groups co ! i) = group_spec (?gs ! g)"
      using hybrid_group_of [OF assms(1,2) g] by blast
    let ?ag = "attention_groups co ! i"
    obtain L cs where L: "hit_rows p (group_ids ?ag) (bhl_list (hash_view bhs co (fst ?ag))) L cs" "int L * group_bs ?ag = h"
      "found ! g = Some (cs ! k)"
      using r(2) ik(1-3) unfolding hit_agrees_def found_ok_def Let_def by (metis nat_int)
    have "bs ! g = cs ! k" using L(3) g len by (simp add: bs_def)
    moreover have "length (cs ! k) = L" using L(1) ik(2) by (auto simp: hit_rows_def uniform_def list_all_length)
    moreover have "cs ! k ! j = null_block p \<or> stores p (cs ! k ! j) (bhl_list (hash_view bhs co (fst ?ag)) ! j) (int g)"
      if "j < L" for j
      using L(1) ik(2) that unfolding hit_rows_def ik(3) [symmetric] by blast
    ultimately show ?thesis using L(2) ik(4) by (simp add: py_len_def)
  qed
  then show ?thesis using r(1,3-5) len unfolding bs_def [symmetric] Let_def by blast
qed

section \<open>Two groups on a concrete pool\<close>

text \<open>
  Blocks 1 and 2 hold the two full blocks of a request for group 0 and block 3 holds its second one
  for group 1.
\<close>

lemma demo_two_groups:
  obtains p and r :: request where "pool_inv p [Blk 3, Blk 4]" "pool_const p = pool_const demo_pool"
    "all_token_ids r = [1, 2, 3, 4, 5]" "length (block_hashes r) = 2"
    "stores p (Blk 1) (block_hashes r ! 0) 0" "stores p (Blk 2) (block_hashes r ! 1) 0" "stores p (Blk 3) (block_hashes r ! 1) 1"
proof -
  obtain q and r :: request where q: "pool_inv q [Blk 3, Blk 4]" "pool_const q = pool_const demo_pool" "all_token_ids r = [1, 2, 3, 4, 5]"
    "length (block_hashes r) = 2" "stores q (Blk 1) (block_hashes r ! 0) 0" "stores q (Blk 2) (block_hashes r ! 1) 0"
    "\<And>b. b \<noteq> Blk 1 \<Longrightarrow> b \<noteq> Blk 2 \<Longrightarrow> hashes q b = None"
    by (rule demo_cached) blast
  note k = pool_const_eqD [OF q(2)]
  have f: "blocks q = [Blk 0, Blk 1, Blk 2, Blk 3, Blk 4]" "null_block q = Blk 0" "hash_block_size q = 2"
    using k by (simp_all add: demo_pool_inv)
  obtain h0 h1 where h: "block_hashes r = [h0, h1]" using q(4) by (auto simp: length_Suc_conv numeral_2_eq_2)
  have "cacheable q r [Blk 0, Blk 3] 1 2 2 1"
    using h q(7) by (simp add: cacheable_def f hash_list_for_def py_len_def idx_simps)
  from cacheable_state [OF q(1) this, of demo_env] obtain p g where p: "pool_inv p [Blk 3, Blk 4]"
    "pool_const p = pool_const q" "to_bytes4 1 = Inr g"
    "hashes p = hashes q ++ map_of (cache_keys g (Blk 0) [Blk 3] [h1])"
    using h by (auto simp: f hash_list_for_def idx_simps)
  have hp: "hashes p = (hashes q)(Blk 3 \<mapsto> h1 @ g)" using p(4) by (simp add: cache_keys_def)
  have us: "usable p b = usable q b" for b using pool_const_eqD [OF p(2)] by (simp add: usable_def)
  have "usable q (Blk 3)" using f by (auto simp: usable_def)
  then have "stores p (Blk 3) h1 1"
    using hp p(3) by (simp add: stores_def us make_block_hash_with_group_id_def)
  moreover have "stores p (Blk 1) h0 0" "stores p (Blk 2) h1 0"
    using q(5,6) hp by (simp_all add: stores_def us h)
  ultimately show ?thesis using that [OF p(1) _ q(3,4)] p(2) q(2) h by simp
qed

definition demo_group :: "kv_cache_spec \<Rightarrow> kv_cache_group_spec" where
  "demo_group spec = \<lparr>layer_names = [], group_spec = spec, is_eagle_group = False\<rparr>"

definition demo_config :: "kv_cache_spec list \<Rightarrow> kv_cache_config" where
  "demo_config specs = \<lparr>num_blocks = 5, kv_cache_tensors = [], kv_cache_groups = map demo_group specs, nelssa_config_of = None\<rparr>"

lemmas demo_config_simps = demo_config_def demo_group_def demo_full_spec_def demo_sliding_spec_def demo_spec_def

theorem hybrid_hit_terminates_and_agrees_witness:
  "\<exists>p (r :: request) co bs h. all_token_ids r = [1, 2, 3, 4, 5] \<and>
     hybrid_find_longest_cache_hit (block_hashes r) 4 co p = Some (Inr (bs, h)) \<and>
     length bs = 2 \<and> py_len (bs ! 0) * 2 = h \<and> py_len (bs ! 1) * 2 = h"
proof -
  obtain p and r :: request where d: "pool_inv p [Blk 3, Blk 4]" "all_token_ids r = [1, 2, 3, 4, 5]" "length (block_hashes r) = 2"
    by (rule demo_two_groups) blast
  let ?cfg = "demo_config [demo_full_spec, demo_sliding_spec]"
  obtain co where init: "hybrid_init ?cfg 100 8 True True False 1 1 2 None False = Inr (co, demo_pool)"
    by (simp add: hybrid_init_def base_coordinator_def demo_config_simps demo_pool_init get_manager_for_kv_cache_spec_def
        verify_and_split_kv_cache_groups_def split_groups_def new_manager_def Let_def py_get_def py_len_def)
  have cfg: "hybrid_config ?cfg True 2"
    by (simp add: hybrid_config_def demo_config_simps hit_spec_def flagged_groups_def spec_ok_def)
  have "4 div 2 \<le> py_len (block_hashes r)" using d(3) by (simp add: py_len_def)
  from hybrid_hit_terminates_and_agrees [OF init cfg d(1) _ this] obtain bs h where
    "hybrid_find_longest_cache_hit (block_hashes r) 4 co p = Some (Inr (bs, h))" "length bs = 2"
    "py_len (bs ! 0) * 2 = h" "py_len (bs ! 1) * 2 = h"
    by (auto simp: demo_config_simps Let_def less_Suc_eq numeral_2_eq_2)
  then show ?thesis using d(2) by blast
qed

section \<open>EAGLE and Mamba\<close>

text \<open>
  With EAGLE and no flagged group every group is searched with one more block, but the Mamba search
  does not drop its last block again.
\<close>

definition demo_mamba_spec :: kv_cache_spec where
  "demo_mamba_spec = MambaSpec \<lparr>b_block_size = 2, b_shapes = [[1]], b_dtypes = [''bfloat16''], b_page_size_padded = None,
     b_mamba_type = ''mamba2'', b_mamba_cache_mode = ''all'', b_num_speculative_blocks = 0\<rparr>"

lemma full_lookup_eagle:
  assumes "pool_inv p xs" "all_cached p [0] h0" "all_cached p [0] h1"
  shows "\<exists>b. full_find_longest_cache_hit (Plain [h0, h1]) 4 [0] p demo_full_spec True 2 1 1 = Inr [[b]]"
proof -
  have g: "gids_ok [0]" by (simp add: gids_ok_def)
  obtain b0 b1 where "hit_of p [0] h0 = [b0]" "hit_of p [0] h1 = [b1]"
    using hit_of_nth(1) [OF assms(1) g] assms(2,3) by (fastforce simp: length_Suc_conv)
  then show ?thesis
    using assms cached_block_cases(1) [OF assms(1) g]
    by (simp add: full_find_longest_cache_hit_def demo_full_spec_def numeral_2_eq_2 append_each_def eagle_pop_def
        pop_each_def align_loop.simps py_get_def py_len_def)
qed

lemma mamba_lookup:
  assumes "pool_inv p xs" "all_cached p [1] h1"
  shows "\<exists>b. mamba_find_longest_cache_hit (Plain [h0, h1]) 4 [1] p demo_mamba_spec 2 1 1 = Inr [[null_block p, b]]"
proof -
  have g: "gids_ok [1]" by (simp add: gids_ok_def)
  obtain b1 where "hit_of p [1] h1 = [b1]"
    using hit_of_nth(1) [OF assms(1) g] assms(2) by (fastforce simp: length_Suc_conv)
  then show ?thesis
    using assms cached_block_cases(1) [OF assms(1) g]
    by (simp add: mamba_find_longest_cache_hit_def demo_mamba_spec_def numeral_2_eq_2 py_repeat_def py_get_def py_len_def)
qed

text \<open>
  C32. A hit of the hybrid coordinator can be longer than the blocks it returns for full attention:
  with EAGLE, one full-attention and one Mamba group of block size 2 and four cached tokens, the
  search of a freshly built coordinator answers 4 tokens, while the list of the full-attention group
  has a single block of 2 tokens.
\<close>

theorem hybrid_eagle_mamba_hit_too_long:
  "\<exists>co p r b b'. hybrid_init (demo_config [demo_full_spec, demo_mamba_spec]) 100 8 True True False 1 1 2 None False
       = Inr (co, demo_pool) \<and>
     pool_inv p [Blk 3, Blk 4] \<and> all_token_ids (r :: request) = [1, 2, 3, 4, 5] \<and>
     hybrid_find_longest_cache_hit (block_hashes r) 4 co p = Some (Inr ([[b], [null_block p, b']], 4))"
proof -
  obtain p and r :: request where d: "pool_inv p [Blk 3, Blk 4]" "all_token_ids r = [1, 2, 3, 4, 5]" "length (block_hashes r) = 2"
    "stores p (Blk 1) (block_hashes r ! 0) 0" "stores p (Blk 2) (block_hashes r ! 1) 0" "stores p (Blk 3) (block_hashes r ! 1) 1"
    by (rule demo_two_groups) blast
  obtain h0 h1 where h: "block_hashes r = [h0, h1]" using d(3) by (auto simp: length_Suc_conv numeral_2_eq_2)
  have c: "all_cached p [0] h0" "all_cached p [0] h1" "all_cached p [1] h1"
    using d(4-6) h by (auto simp: all_cached_def)
  obtain b where b: "full_find_longest_cache_hit (Plain [h0, h1]) 4 [0] p demo_full_spec True 2 1 1 = Inr [[b]]"
    using full_lookup_eagle [OF d(1) c(1,2)] by blast
  obtain b' where b': "mamba_find_longest_cache_hit (Plain [h0, h1]) 4 [1] p demo_mamba_spec 2 1 1 = Inr [[null_block p, b']]"
    using mamba_lookup [OF d(1) c(3)] by blast
  obtain co where init: "hybrid_init (demo_config [demo_full_spec, demo_mamba_spec]) 100 8 True True False 1 1 2 None False
      = Inr (co, demo_pool)"
    and co: "co_hash_block_size co = 2" "attention_groups co = [(demo_full_spec, [0], FullAttentionManager), (demo_mamba_spec, [1], MambaManager)]"
      "lcm_block_size co = 2" "eagle_attn_group_indices co = [0, 1]" "length (kv_cache_groups (co_config co)) = 2"
    by (simp add: hybrid_init_def base_coordinator_def demo_config_simps demo_mamba_spec_def demo_pool_init get_manager_for_kv_cache_spec_def
        verify_and_split_kv_cache_groups_def split_groups_def new_manager_def Let_def py_get_def py_len_def
        full_first_def flagged_groups_def numeral_2_eq_2)
  have sp: "spec_block_size demo_full_spec = 2" "spec_block_size demo_mamba_spec = 2" "is_full_attention demo_full_spec"
    "\<not> is_full_attention demo_mamba_spec"
    by (simp_all add: demo_full_spec_def demo_mamba_spec_def)
  have "hit_loop [h0, h1] 4 co p True (4, [None, None], []) = Some (Inr (4, [Some [b], Some [null_block p, b']], [1, 0]))"
    by (subst hit_loop.simps) (simp add: co sp check_group_def Let_def py_get_def py_len_def find_longest_cache_hit_def
        hashes_for_spec_def set_groups_def b b')
  then have "hybrid_find_longest_cache_hit (block_hashes r) 4 co p = Some (Inr ([[b], [null_block p, b']], 4))"
    by (simp add: hybrid_find_longest_cache_hit_def is_simple_hybrid_def co sp h trim_full_def py_get_def py_len_def
        numeral_2_eq_2 idx_simps)
  then show ?thesis using init d(1,2) by blast
qed

end
