(* ===== verification/Coordinator_Props.thy ===== *)
theory Coordinator_Props
  imports Hybrid_Props KV_Manager
begin

text \<open>
  Where the order of the coordinator's loops over its managers matters: with external tokens in several
  groups, one block can end up in two tables.
\<close>

section \<open>External tokens in several groups\<close>

lemma allocate_computed_tables:
  assumes inv: "pool_inv p xs" and new: "\<not> is_running m rid" "blocks_of m rid = []" "mgr_enable_caching m"
    and cls: "mgr_class m \<noteq> CrossAttentionManager" and hits: "set (used_hits m hits (nl + ne)) \<subseteq> set (blocks p)"
    and n: "n = external_blocks m hits nl ne" "0 \<le> n" "n \<le> py_len free"
    and free: "free = filter (\<lambda>b. b \<notin> set (used_hits m hits (nl + ne))) xs"
  shows "\<exists>m' p'. allocate_new_computed_blocks rid hits nl ne m p = Inr (m', p') \<and> pool_inv p' (drop (nat n) free) \<and>
    pool_const p' = pool_const p \<and> blocks_of m' rid = computed_table m hits (nl + ne) @ take (nat n) free"
proof -
  let ?req = "computed_table m hits (nl + ne)"
  obtain p1 where p1: "touch (used_hits m hits (nl + ne)) p = Inr p1" "pool_inv p1 free" "pool_const p1 = pool_const p"
    using touch_state [OF inv hits] unfolding free by blast
  obtain p2 where p2: "get_new_blocks n p1 = Inr (take (nat n) free, p2)" "pool_inv p2 (drop (nat n) free)" "pool_const p2 = pool_const p1"
    using get_new_blocks_state [OF p1(2) n(2,3)] by blast
  have call: "allocate_new_computed_blocks rid hits nl ne m p = base_allocate_new_computed_blocks rid hits nl ne m p"
    using cls by (simp add: allocate_new_computed_blocks_def split: manager_class.splits)
  define ext where "ext = (if 0 < computed_skipped m (nl + ne)
      then min (nl + ne - get_num_skipped_tokens m (nl + ne)) ne else ne)"
  have n_eq: "n = (if 0 < ext then cdiv (nl + ne) (mgr_block_size m) - py_len ?req else 0)"
    by (simp add: n(1) external_blocks_def ext_def Let_def)
  note eq = base_allocate_new_computed_blocks_eq [OF new(1,2), of hits nl ne p, unfolded p1(1) ext_def [symmetric]]
  show ?thesis
    using eq call new(3) n_eq p1 p2 by (cases "0 < ext") (simp_all add: Let_def)
qed

text \<open>
  C31. The blocks of external tokens can be taken from the hits of a later group: when the first of
  two groups needs a new block for external tokens and the next free block is a prefix-cache hit of
  the second group, \<open>allocate_new_computed_blocks\<close> succeeds and the same physical block is in the
  tables of both groups.
\<close>

theorem external_tokens_share_block:
  assumes ms: "single_type_managers co = [m1, m2]" and inv: "pool_inv p xs"
    and new: "\<forall>m \<in> {m1, m2}. \<not> is_running m rid \<and> blocks_of m rid = [] \<and> mgr_enable_caching m \<and> mgr_class m \<noteq> CrossAttentionManager"
    and h1: "set (used_hits m1 h1 (nl + ne)) \<subseteq> set (blocks p)" and h2: "set (used_hits m2 h2 (nl + ne)) \<subseteq> set (blocks p)"
    and f1: "free1 = filter (\<lambda>b. b \<notin> set (used_hits m1 h1 (nl + ne))) xs"
    and n1: "0 \<le> external_blocks m1 h1 nl ne" "external_blocks m1 h1 nl ne \<le> py_len free1"
    and f2: "free2 = filter (\<lambda>b. b \<notin> set (used_hits m2 h2 (nl + ne))) (drop (nat (external_blocks m1 h1 nl ne)) free1)"
    and n2: "0 \<le> external_blocks m2 h2 nl ne" "external_blocks m2 h2 nl ne \<le> py_len free2"
    and b: "b \<in> set (take (nat (external_blocks m1 h1 nl ne)) free1)" "b \<in> set (used_hits m2 h2 (nl + ne))"
  shows "\<exists>m1' m2' p'. co_allocate_new_computed_blocks rid [h1, h2] nl ne co p = Inr (with_managers co [m1', m2'], p') \<and>
    b \<in> set (blocks_of m1' rid) \<and> b \<in> set (blocks_of m2' rid)"
proof -
  let ?n1 = "external_blocks m1 h1 nl ne" and ?n2 = "external_blocks m2 h2 nl ne"
  obtain m1' p1 where r1: "allocate_new_computed_blocks rid h1 nl ne m1 p = Inr (m1', p1)" "pool_inv p1 (drop (nat ?n1) free1)"
    "pool_const p1 = pool_const p" "blocks_of m1' rid = computed_table m1 h1 (nl + ne) @ take (nat ?n1) free1"
    using allocate_computed_tables [OF inv _ _ _ _ h1 refl n1 f1, of rid] new by auto
  have "set (used_hits m2 h2 (nl + ne)) \<subseteq> set (blocks p1)" using h2 pool_const_eqD [OF r1(3)] by simp
  from allocate_computed_tables [OF r1(2) _ _ _ _ this refl n2 f2, of rid] new obtain m2' p2 where
    r2: "allocate_new_computed_blocks rid h2 nl ne m2 p1 = Inr (m2', p2)"
      "blocks_of m2' rid = computed_table m2 h2 (nl + ne) @ take (nat ?n2) free2" by auto
  have "co_allocate_new_computed_blocks rid [h1, h2] nl ne co p = Inr (with_managers co [m1', m2'], p2)"
    using r1(1) r2(1) by (simp add: co_allocate_new_computed_blocks_def ms py_get_def py_len_def)
  moreover have "b \<in> set (blocks_of m1' rid)" "b \<in> set (blocks_of m2' rid)"
    using r1(4) r2(2) b by (auto simp: computed_table_def)
  ultimately show ?thesis by blast
qed

theorem external_tokens_share_block_witness:
  "\<exists>p (r :: request) co m1 m2 p'. all_token_ids r = [1, 2, 3, 4, 5] \<and> pool_inv p [Blk 3, Blk 4] \<and>
     stores p (Blk 3) (block_hashes r ! 1) 1 \<and>
     hybrid_init (demo_config [demo_full_spec, demo_sliding_spec]) 100 8 False True False 1 1 2 None False = Inr (co, demo_pool) \<and>
     co_allocate_new_computed_blocks ''a'' [[Blk 1, Blk 2], [Blk 0, Blk 3]] 4 1 co p = Inr (with_managers co [m1, m2], p') \<and>
     Blk 3 \<in> set (blocks_of m1 ''a'') \<and> Blk 3 \<in> set (blocks_of m2 ''a'')"
proof -
  obtain p and r :: request where d: "pool_inv p [Blk 3, Blk 4]" "pool_const p = pool_const demo_pool"
    "all_token_ids r = [1, 2, 3, 4, 5]" "stores p (Blk 3) (block_hashes r ! 1) 1"
    by (rule demo_two_groups) blast
  have bl: "blocks p = [Blk 0, Blk 1, Blk 2, Blk 3, Blk 4]" using pool_const_eqD [OF d(2)] by (simp add: demo_pool_inv)
  let ?m1 = "new_manager FullAttentionManager demo_full_spec demo_pool True 0 1 1 None"
  obtain c where c: "get_manager_for_kv_cache_spec demo_sliding_spec 8 100 None True 1 1 1 demo_pool =
      Inr ((new_manager SlidingWindowManager demo_sliding_spec demo_pool True 1 1 1 c)\<lparr>sliding_window := 3\<rparr>, demo_pool)"
    by (simp add: get_manager_for_kv_cache_spec_def demo_sliding_spec_def)
  have full: "get_manager_for_kv_cache_spec demo_full_spec 8 100 None True 0 1 1 demo_pool = Inr (?m1, demo_pool)"
    by (simp add: get_manager_for_kv_cache_spec_def demo_full_spec_def)
  have bs: "spec_block_size demo_full_spec = 2" "spec_block_size demo_sliding_spec = 2" "demo_full_spec \<noteq> demo_sliding_spec"
    by (simp_all add: demo_config_simps)
  obtain co where init: "hybrid_init (demo_config [demo_full_spec, demo_sliding_spec]) 100 8 False True False 1 1 2 None False
      = Inr (co, demo_pool)"
    and co: "single_type_managers co = [?m1, (new_manager SlidingWindowManager demo_sliding_spec demo_pool True 1 1 1 c)\<lparr>sliding_window := 3\<rparr>]"
    using c full bs by (simp add: hybrid_init_def base_coordinator_def demo_config_def demo_group_def demo_pool_init
        verify_and_split_kv_cache_groups_def split_groups_def Let_def py_get_def py_len_def)
  let ?m2 = "(new_manager SlidingWindowManager demo_sliding_spec demo_pool True 1 1 1 c)\<lparr>sliding_window := 3\<rparr>"
  have new: "\<forall>m \<in> {?m1, ?m2}. \<not> is_running m ''a'' \<and> blocks_of m ''a'' = [] \<and> mgr_enable_caching m \<and> mgr_class m \<noteq> CrossAttentionManager"
    by (simp add: new_manager_def is_running_def blocks_of_def)
  have used: "used_hits ?m1 [Blk 1, Blk 2] (4 + 1) = [Blk 1, Blk 2]" "used_hits ?m2 [Blk 0, Blk 3] (4 + 1) = [Blk 3]"
    by (simp_all add: used_hits_def computed_skipped_def get_num_skipped_tokens_def new_manager_def demo_config_simps idx_simps)
  have ext: "external_blocks ?m1 [Blk 1, Blk 2] 4 1 = 1" "external_blocks ?m2 [Blk 0, Blk 3] 4 1 = 1"
    using used by (simp_all add: external_blocks_def computed_table_def computed_skipped_def get_num_skipped_tokens_def new_manager_def
        demo_config_simps cdiv_def py_repeat_def py_len_def)
  have "\<exists>m1 m2 p'. co_allocate_new_computed_blocks ''a'' [[Blk 1, Blk 2], [Blk 0, Blk 3]] 4 1 co p = Inr (with_managers co [m1, m2], p') \<and>
      Blk 3 \<in> set (blocks_of m1 ''a'') \<and> Blk 3 \<in> set (blocks_of m2 ''a'')"
    using bl by (intro external_tokens_share_block [OF co d(1) new _ _ refl _ _ refl]; (unfold used ext)?) (auto simp: py_len_def)
  then show ?thesis using init d(1,3,4) by blast
qed

end
