(* ===== verification/KV_Manager_Props.thy ===== *)
theory KV_Manager_Props
  imports Coordinator_Steps Coordinator_Props
begin

text \<open>
  The KV cache manager as the scheduler uses it: the invariant of a manager whose configuration and requests
  are supported, and \<open>allocate_slots\<close> as a sequence of manager steps, so that the accounting of
  \<open>Manager_Props\<close> holds after it.
\<close>

section \<open>Supported configurations and requests\<close>

abbreviation km_managers :: "kv_manager \<Rightarrow> manager list" where
  "km_managers km \<equiv> managers (km_coordinator km)"

definition km_ready :: "kv_manager \<Rightarrow> bool" where
  "km_ready km \<longleftrightarrow> 0 < hash_block_size (km_pool km) \<and> km_enable_caching km = enable_caching (km_pool km) \<and>
     length (km_managers km) = km_num_groups km \<and>
     list_all (\<lambda>m. \<not> is_align m \<and> 0 \<le> nelssa_head_size m \<and> 0 \<le> kv_cache_group_id m \<and> kv_cache_group_id m < 2 ^ 32 \<and>
        0 < mgr_block_size m \<and> mgr_block_size m mod hash_block_size (km_pool km) = 0) (km_managers km)"

text \<open>
  The result of \<open>km'\<close> has the same managers up to their tables, the same pool up to its blocks, and
  the same settings.
\<close>

definition km_like :: "kv_manager \<Rightarrow> kv_manager \<Rightarrow> bool" where
  "km_like km km' \<longleftrightarrow> co_like (km_coordinator km) (km_pool km) (km_coordinator km') (km_pool km') \<and>
     km_enable_caching km' = km_enable_caching km \<and> km_max_model_len km' = km_max_model_len km \<and>
     km_num_groups km' = km_num_groups km"

lemma co_likeD:
  assumes "co_like co p co' p'"
  shows "same_consts (managers co) (managers co')" "pool_const p' = pool_const p" "length (managers co') = length (managers co)"
  using assms same_consts_nth(1) by (auto simp: co_like_def)

lemma same_consts_all:
  assumes "same_consts ms ms'" "list_all P ms" "\<And>m m'. mgr_const m' = mgr_const m \<Longrightarrow> P m \<Longrightarrow> P m'"
  shows "list_all P ms'"
  using assms same_consts_nth [OF assms(1)] by (metis list_all_length)

lemma km_like_ready:
  assumes "km_like km km'" "km_ready km"
  shows "km_ready km'"
proof -
  note l = co_likeD [OF assms(1) [unfolded km_like_def, THEN conjunct1]]
  note k = pool_const_eqD [OF l(2)]
  have "list_all (\<lambda>m. \<not> is_align m \<and> 0 \<le> nelssa_head_size m \<and> 0 \<le> kv_cache_group_id m \<and> kv_cache_group_id m < 2 ^ 32 \<and>
        0 < mgr_block_size m \<and> mgr_block_size m mod hash_block_size (km_pool km) = 0) (km_managers km')"
    by (rule same_consts_all [OF l(1)]) (use assms(2) in \<open>auto simp: km_ready_def is_align_def mgr_const_def\<close>)
  then show ?thesis using assms k l(3) by (simp add: km_ready_def km_like_def)
qed

lemma km_update_like: "co_like (km_coordinator km) (km_pool km) co p \<Longrightarrow> km_like km (km_update km co p)"
  by (simp add: km_like_def km_update_def)

lemma km_update_fields [simp]:
  "km_coordinator (km_update km co p) = co" "km_pool (km_update km co p) = p"
  by (simp_all add: km_update_def)

text \<open>The state of the KV cache manager is reachable by manager steps.\<close>

definition km_inv :: "hash_env \<Rightarrow> kv_manager \<Rightarrow> bool" where
  "km_inv env km \<longleftrightarrow> co_reach env (km_coordinator km) (km_pool km) \<and> km_ready km"

lemma km_invI:
  assumes "km_inv env km" "co_like (km_coordinator km) (km_pool km) co p" "co_reach env co p"
  shows "km_inv env (km_update km co p)"
  using assms km_like_ready [OF km_update_like] by (simp add: km_inv_def)

lemma full_block_hashes:
  assumes "hashes_ok env hbs r" "0 < bs" "bs mod hbs = 0" "tokens \<le> num_tokens r"
  shows "tokens div bs \<le> py_len (block_hashes r)" "tokens div bs \<le> bhl_len (hash_list_for bs hbs (block_hashes r))"
proof -
  have hbs: "0 < hbs" using assms(1) by (simp add: hashes_ok_def)
  obtain k where k: "bs = hbs * k" using assms(3) by (auto simp: mod_eq_0_iff_dvd)
  then have k0: "0 < k" using assms(2) hbs by (simp add: zero_less_mult_iff)
  have len: "py_len (block_hashes r) = num_tokens r div hbs"
    using assms(1) hbs by (simp add: hashes_ok_def full_blocks_def py_len_def num_tokens_def pos_imp_zdiv_nonneg_iff)
  have "tokens div bs \<le> num_tokens r div bs" using assms(2,4) by (simp add: zdiv_mono1)
  also have eq: "num_tokens r div bs = (num_tokens r div hbs) div k"
    using hbs k0 by (simp add: k zdiv_zmult2_eq)
  finally have t: "tokens div bs \<le> (num_tokens r div hbs) div k" .
  have "0 \<le> num_tokens r div hbs" using len by (metis py_len_simps(6))
  then have "(num_tokens r div hbs) div k \<le> num_tokens r div hbs"
    using k0 by (metis div_by_1 int_one_le_iff_zero_less zdiv_mono2 zero_less_one)
  then show "tokens div bs \<le> py_len (block_hashes r)" using t len by linarith
  show "tokens div bs \<le> bhl_len (hash_list_for bs hbs (block_hashes r))"
    using t len k k0 hbs by (auto simp: hash_list_for_def)
qed

section \<open>Allocation of slots\<close>

definition slots_ready :: "hash_env \<Rightarrow> request \<Rightarrow> kv_cache_blocks option \<Rightarrow> int \<Rightarrow> kv_manager \<Rightarrow> bool" where
  "slots_ready env r hits lookahead km \<longleftrightarrow>
     (let hs = group_blocks (blocks_or_empty km hits)
      in 0 \<le> lookahead \<and> num_tokens r \<le> km_max_model_len km \<and> list_all (hits_ok (km_pool km)) hs \<and>
         (km_enable_caching km \<or> list_all (\<lambda>h. h = []) hs) \<and>
         (km_enable_caching km \<longrightarrow> hashes_ok env (hash_block_size (km_pool km)) r))"

text \<open>The path of a call that returns.\<close>

lemma allocate_slots_path:
  assumes "allocate_slots env r num_new nc hits lookahead ext delay encoder km = Inr (res, r', km')"
    and done_tokens: "done_tokens = min (num_computed_tokens r + nc + ext) (km_max_model_len km)"
    and slot: "slot = min (done_tokens + num_new + lookahead) (km_max_model_len km)"
    and hs: "hs = blocks_or_empty km hits"
  obtains co1 p1 needed co3 where "co_remove_skipped_blocks (request_id r) done_tokens (km_coordinator km) (km_pool km) = Inr (co1, p1)"
    "co_get_num_blocks_to_allocate (request_id r) slot (group_blocks hs) encoder (num_computed_tokens r + nc + ext)
       (done_tokens + num_new) (if request.nelssa_long_mask r then km_mark_long_request (request_id r) (num_tokens r) co1 else co1) p1
       = Inr (needed, co3)"
    "get_num_free_blocks p1 < needed" "res = None" "r' = r" "km' = km_update km co3 p1"
  | co1 p1 needed co3 co4 p4 new co5 p5 co6 p6 where
    "co_remove_skipped_blocks (request_id r) done_tokens (km_coordinator km) (km_pool km) = Inr (co1, p1)"
    "co_get_num_blocks_to_allocate (request_id r) slot (group_blocks hs) encoder (num_computed_tokens r + nc + ext)
       (done_tokens + num_new) (if request.nelssa_long_mask r then km_mark_long_request (request_id r) (num_tokens r) co1 else co1) p1
       = Inr (needed, co3)"
    "(if \<not> shared_empty hs \<or> 0 < ext
      then co_allocate_new_computed_blocks (request_id r) (group_blocks hs) (num_computed_tokens r + nc) ext co3 p1
      else Inr (co3, p1)) = Inr (co4, p4)"
    "co_allocate_new_blocks (request_id r) slot (done_tokens + num_new) encoder co4 p4 = Inr (new, co5, p5)"
    "(if \<not> km_enable_caching km \<or> delay then Inr (r, co5, p5)
      else co_cache_blocks env r (min (done_tokens + num_new) (num_tokens r)) co5 p5) = Inr (r', co6, p6)"
    "needed \<le> get_num_free_blocks p1" "res = Some (create_kv_cache_blocks km new)" "km' = km_update km co6 p6"
proof -
  let ?rid = "request_id r" and ?main = "done_tokens + num_new"
  have guard: "\<not> (num_new = 0 \<and> ext = 0)" using assms(1) by (auto simp: allocate_slots_def)
  note run = assms(1) [unfolded allocate_slots_def if_not_P [OF guard] Let_def, folded done_tokens hs, folded slot]
  obtain co1 p1 where 1: "co_remove_skipped_blocks ?rid done_tokens (km_coordinator km) (km_pool km) = Inr (co1, p1)"
    using run by (cases "co_remove_skipped_blocks ?rid done_tokens (km_coordinator km) (km_pool km)") auto
  let ?co2 = "if request.nelssa_long_mask r then km_mark_long_request ?rid (num_tokens r) co1 else co1"
  obtain needed co3 where 3: "co_get_num_blocks_to_allocate ?rid slot (group_blocks hs) encoder (num_computed_tokens r + nc + ext)
      ?main ?co2 p1 = Inr (needed, co3)"
    using run 1 by (cases "co_get_num_blocks_to_allocate ?rid slot (group_blocks hs) encoder (num_computed_tokens r + nc + ext) ?main ?co2 p1") auto
  note run3 = run [unfolded 1 3 rbind_Inr prod.case]
  show thesis
  proof (cases "get_num_free_blocks p1 < needed")
    case True
    then show thesis using run3 by (intro that(1) [OF 1 3]) auto
  next
    case False
    let ?c = "if \<not> shared_empty hs \<or> 0 < ext
      then co_allocate_new_computed_blocks ?rid (group_blocks hs) (num_computed_tokens r + nc) ext co3 p1 else Inr (co3, p1)"
    note run4 = run3 [unfolded if_not_P [OF False]]
    obtain co4 p4 where 4: "?c = Inr (co4, p4)" using run4 by (cases ?c) auto
    note run5 = run4 [unfolded 4 rbind_Inr prod.case]
    obtain new co5 p5 where 5: "co_allocate_new_blocks ?rid slot ?main encoder co4 p4 = Inr (new, co5, p5)"
      using run5 by (cases "co_allocate_new_blocks ?rid slot ?main encoder co4 p4") auto
    note run6 = run5 [unfolded 5 rbind_Inr prod.case]
    have le: "needed \<le> get_num_free_blocks p1" using False by simp
    show thesis
    proof (cases "\<not> km_enable_caching km \<or> delay")
      case True
      then show thesis using run6 by (intro that(2) [OF 1 3 4 5 _ le]) auto
    next
      case False
      obtain r2 co6 p6 where 6: "co_cache_blocks env r (min ?main (num_tokens r)) co5 p5 = Inr (r2, co6, p6)"
        using run6 False by (cases "co_cache_blocks env r (min ?main (num_tokens r)) co5 p5") auto
      then show thesis using run6 False by (intro that(2) [OF 1 3 4 5 _ le]) auto
    qed
  qed
qed

lemma ready_managers:
  assumes "km_ready km" "co_like (km_coordinator km) (km_pool km) co p"
  shows "list_all (\<lambda>m. \<not> is_align m) (managers co)"
    "m \<in> set (managers co) \<Longrightarrow> \<not> is_align m \<and> 0 \<le> nelssa_head_size m \<and> 0 \<le> kv_cache_group_id m \<and> kv_cache_group_id m < 2 ^ 32 \<and>
       0 < mgr_block_size m \<and> mgr_block_size m mod hash_block_size p = 0" "0 < hash_block_size p" "enable_caching p = km_enable_caching km"
  using km_like_ready [OF km_update_like [OF assms(2)] assms(1)] by (auto simp: km_ready_def list_all_iff km_update_def)

lemma div_le_cdiv: "0 < (b::int) \<Longrightarrow> a div b \<le> cdiv a b"
  using cdiv_mult_ge [of b a] zdiv_mono1 [of a "cdiv a b * b" b] by simp

lemma slots_cacheable:
  assumes ready: "km_ready km" "co_like (km_coordinator km) (km_pool km) co p"
    and cover: "list_all (\<lambda>m. is_cross m \<or> cdiv slot (mgr_block_size m) \<le> py_len (blocks_of m (request_id r))) (managers co)"
    and r: "hashes_ok env (hash_block_size (km_pool km)) r" "tokens \<le> slot" "tokens \<le> num_tokens r"
  shows "co_cacheable co p r tokens"
  unfolding co_cacheable_def list_all_iff
proof (intro ballI disjCI)
  fix m assume m: "m \<in> set (managers co)" "\<not> cache_ready p m r tokens"
  note g = ready_managers(2) [OF ready m(1)]
  have hbs: "hash_block_size p = hash_block_size (km_pool km)" using pool_const_eqD(6) [OF co_likeD(2) [OF ready(2)]] .
  note h = full_block_hashes [OF r(1), of "mgr_block_size m" tokens] 
  show "is_cross m"
  proof (rule ccontr)
    assume "\<not> is_cross m"
    then have c: "cdiv slot (mgr_block_size m) \<le> py_len (blocks_of m (request_id r))" using cover m(1) by (auto simp: list_all_iff)
    have "tokens div mgr_block_size m \<le> cdiv tokens (mgr_block_size m)" by (rule div_le_cdiv) (use g in simp)
    also have "\<dots> \<le> cdiv slot (mgr_block_size m)" by (rule cdiv_mono) (use g r(2) in auto)
    finally have "tokens div mgr_block_size m \<le> py_len (blocks_of m (request_id r))" using c by simp
    then have "cache_ready p m r tokens" using g h r(3) ready_managers(3) [OF ready] hbs by (simp add: cache_ready_def Let_def)
    then show False using m(2) by simp
  qed
qed

text \<open>Releasing skipped blocks, marking a long request and the estimate.\<close>

lemma slots_prepare:
  assumes inv: "km_inv env km"
    and 1: "co_remove_skipped_blocks rid computed (km_coordinator km) (km_pool km) = Inr (co1, p1)"
    and 3: "co_get_num_blocks_to_allocate rid slot hs encoder n main (if long then km_mark_long_request rid len co1 else co1) p1
      = Inr (needed, co3)"
  shows "co_reach env co3 p1 \<and> co_like (km_coordinator km) (km_pool km) co3 p1 \<and> hashes p1 = hashes (km_pool km)"
proof -
  let ?co2 = "if long then km_mark_long_request rid len co1 else co1"
  have reach: "co_reach env (km_coordinator km) (km_pool km)" and kr: "km_ready km" using inv by (simp_all add: km_inv_def)
  have c1: "co_reach env co1 p1 \<and> co_like (km_coordinator km) (km_pool km) co1 p1 \<and> hashes p1 = hashes (km_pool km)"
    by (rule co_remove_phase [OF 1 reach ready_managers(1) [OF kr co_like_refl]])
  then have c2: "co_reach env ?co2 p1 \<and> co_like co1 p1 ?co2 p1" using co_mark_phase [of env co1 p1] by simp
  have c3: "co_reach env co3 p1 \<and> co_like ?co2 p1 co3 p1" using co_estimate_phase [OF 3] c2 by blast
  have "co_like (km_coordinator km) (km_pool km) ?co2 p1" using c1 c2 co_like_trans by blast
  then show ?thesis using c1 c3 co_like_trans by blast
qed

text \<open>Taking the hits and the new blocks.\<close>

lemma slots_take:
  assumes kr: "km_ready km" and s: "co_reach env co3 p1" "co_like (km_coordinator km) (km_pool km) co3 p1"
    and hits: "list_all (hits_ok p1) (group_blocks hs)" "enable_caching p1 \<or> list_all (\<lambda>h. h = []) (group_blocks hs)"
    and 4: "(if \<not> shared_empty hs \<or> 0 < (0::int)
      then co_allocate_new_computed_blocks rid (group_blocks hs) nl 0 co3 p1 else Inr (co3, p1)) = Inr (co4, p4)"
    and 5: "co_allocate_new_blocks rid slot main encoder co4 p4 = Inr (new, co5, p5)"
  shows "co_reach env co5 p5 \<and> co_like (km_coordinator km) (km_pool km) co5 p5 \<and>
    list_all (\<lambda>m. is_cross m \<or> cdiv slot (mgr_block_size m) \<le> py_len (blocks_of m rid)) (managers co5)"
proof -
  have c4: "co_reach env co4 p4 \<and> co_like (km_coordinator km) (km_pool km) co4 p4"
  proof (cases "shared_empty hs")
    case True
    then show ?thesis using 4 s by simp
  next
    case False
    then have "co_allocate_new_computed_blocks rid (group_blocks hs) nl 0 co3 p1 = Inr (co4, p4)" using 4 by simp
    from co_computed_phase [OF this s(1) hits] show ?thesis using s(2) co_like_trans by blast
  qed
  then show ?thesis
    using co_allocate_phase [OF 5 conjunct1 [OF c4] ready_managers(1) [OF kr conjunct2 [OF c4]]] co_like_trans by blast
qed

lemma allocate_slots_inv:
  assumes inv: "km_inv env km" and ready: "slots_ready env r hits lookahead km"
    and run: "allocate_slots env r num_new nc hits lookahead 0 delay encoder km = Inr (res, r', km')"
  shows "km_inv env km'"
proof -
  define hs where "hs = blocks_or_empty km hits"
  define computed where "computed = min (num_computed_tokens r + nc + 0) (km_max_model_len km)"
  define slot where "slot = min (computed + num_new + lookahead) (km_max_model_len km)"
  note sr = ready [unfolded slots_ready_def hs_def [symmetric] Let_def]
  have kr: "km_ready km" using inv by (simp add: km_inv_def)
  from run computed_def slot_def hs_def show ?thesis
  proof (cases rule: allocate_slots_path)
    case (1 co1 p1 needed co3)
    then show ?thesis using slots_prepare [OF inv 1(1,2)] km_invI [OF inv] by simp
  next
    case (2 co1 p1 needed co3 co4 p4 new co5 p5 co6 p6)
    note s = slots_prepare [OF inv 2(1,2)]
    note k = pool_const_eqD [OF co_likeD(2) [OF s [THEN conjunct2, THEN conjunct1]]]
    have hits: "list_all (hits_ok p1) (group_blocks hs)" "enable_caching p1 \<or> list_all (\<lambda>h. h = []) (group_blocks hs)"
      using sr kr s k by (auto simp: hits_ok_def list_all_iff km_ready_def)
    note 5 = slots_take [OF kr conjunct1 [OF s] _ hits 2(3,4)]
    then have l5: "co_like (km_coordinator km) (km_pool km) co5 p5" using s by blast
    have "co_reach env co6 p6 \<and> co_like (km_coordinator km) (km_pool km) co6 p6"
    proof (cases "\<not> km_enable_caching km \<or> delay")
      case True
      then show ?thesis using 2(5) 5 s by auto
    next
      case False
      then have cache: "co_cache_blocks env r (min (computed + num_new) (num_tokens r)) co5 p5 = Inr (r', co6, p6)" using 2(5) by simp
      have "co_cacheable co5 p5 r (min (computed + num_new) (num_tokens r))"
        by (rule slots_cacheable [OF kr l5]) (use 5 s sr False in \<open>auto simp: slot_def\<close>)
      then show ?thesis
        using co_cache_phase [OF cache] 5 s l5 ready_managers(4) [OF kr l5] False co_like_trans by blast
    qed
    then show ?thesis using 2(8) km_invI [OF inv] by simp
  qed
qed

end
