(* ===== verification/KV_Manager_Reach.thy ===== *)
theory KV_Manager_Reach
  imports KV_Manager_Props
begin

text \<open>
  The states the KV cache manager reaches by the calls of the scheduler, from its constructor on.
  Mamba in \<^verbatim>\<open>align\<close> mode, sink attention and external tokens are left out: the first needs room for
  speculative blocks, the second takes blocks without references, the third can put one block into
  two tables (\<open>Coordinator_Props\<close>).
\<close>

section \<open>Construction\<close>

definition spec_supported :: "kv_cache_spec \<Rightarrow> bool" where
  "spec_supported spec \<longleftrightarrow>
     (case spec of SinkFullAttentionSpec _ \<Rightarrow> False | MambaSpec s \<Rightarrow> b_mamba_cache_mode s \<noteq> ''align'' | _ \<Rightarrow> True)"

definition config_ok :: "kv_cache_config \<Rightarrow> int \<Rightarrow> int \<Rightarrow> int \<Rightarrow> bool" where
  "config_ok cfg hash_bs dcp pcp \<longleftrightarrow> 0 < hash_bs \<and> 0 < dcp \<and> 0 < pcp \<and> int (length (kv_cache_groups cfg)) < 2 ^ 32 \<and>
     (case nelssa_config_of cfg of None \<Rightarrow> True | Some c \<Rightarrow> 0 \<le> first_n c) \<and>
     list_all (\<lambda>g. spec_supported (group_spec g) \<and> 0 < spec_block_size (group_spec g) \<and>
        spec_block_size (group_spec g) * (dcp * pcp) mod hash_bs = 0) (kv_cache_groups cfg)"

lemma factory_ready:
  assumes "get_manager_for_kv_cache_spec spec batched len nelssa caching gid dcp pcp p = Inr (m, p')"
    and "spec_supported spec" "0 < spec_block_size spec" "0 < dcp" "0 < pcp" "case nelssa of None \<Rightarrow> True | Some c \<Rightarrow> 0 \<le> first_n c"
  shows "p' = p" "built_manager p caching m" "\<not> is_align m" "0 \<le> nelssa_head_size m" "kv_cache_group_id m = gid"
    "mgr_block_size m = spec_block_size spec * (dcp * pcp)"
proof -
  have d: "1 \<le> dcp * pcp" using mult_mono [of 1 dcp 1 pcp] assms(4,5) by simp
  then have bs: "(if 1 < dcp * pcp then spec_block_size spec * (dcp * pcp) else spec_block_size spec) = spec_block_size spec * (dcp * pcp)"
    by (cases "dcp * pcp = 1") auto
  have pos: "0 < spec_block_size spec * (dcp * pcp)" using assms(3) d by simp
  show out: "p' = p" "\<not> is_align m" "0 \<le> nelssa_head_size m" "kv_cache_group_id m = gid"
    "mgr_block_size m = spec_block_size spec * (dcp * pcp)"
    using assms(1,2,6) bs
    by (auto simp: get_manager_for_kv_cache_spec_def spec_supported_def new_manager_def is_align_def
        split: option.splits kv_cache_spec.splits)
  have "mgr_class m \<noteq> SinkFullAttentionManager"
    using assms(1,2) by (auto simp: get_manager_for_kv_cache_spec_def spec_supported_def new_manager_def
        split: option.splits kv_cache_spec.splits)
  moreover have "get_manager_for_kv_cache_spec spec batched len nelssa caching gid dcp pcp p = Inr (m, p)"
    using assms(1) out(1) by simp
  moreover have "0 < mgr_block_size m" using out(5) pos by simp
  ultimately show "built_manager p caching m" unfolding built_manager_def by blast
qed

lemma build_managers_ready:
  assumes "build_managers gs i batched len nelssa caching dcp pcp p = Inr (ms, p')" "0 \<le> i" "i + int (length gs) < 2 ^ 32"
    and "0 < dcp" "0 < pcp" "case nelssa of None \<Rightarrow> True | Some c \<Rightarrow> 0 \<le> first_n c"
    and "list_all (\<lambda>g. spec_supported (group_spec g) \<and> 0 < spec_block_size (group_spec g) \<and>
        spec_block_size (group_spec g) * (dcp * pcp) mod hbs = 0) gs"
  shows "p' = p \<and> length ms = length gs \<and> list_all (built_manager p caching) ms \<and>
    list_all (\<lambda>m. \<not> is_align m \<and> 0 \<le> nelssa_head_size m \<and> 0 \<le> kv_cache_group_id m \<and> kv_cache_group_id m < 2 ^ 32 \<and>
        0 < mgr_block_size m \<and> mgr_block_size m mod hbs = 0) ms"
  using assms
proof (induction gs arbitrary: i p ms)
  case (Cons g gs)
  obtain m p1 ms1 where r: "get_manager_for_kv_cache_spec (group_spec g) batched len nelssa caching i dcp pcp p = Inr (m, p1)"
    "build_managers gs (i + 1) batched len nelssa caching dcp pcp p1 = Inr (ms1, p')" "ms = m # ms1"
    using Cons.prems(1) by (auto simp: rbind_eq_Inr)
  have g: "spec_supported (group_spec g)" "0 < spec_block_size (group_spec g)" "spec_block_size (group_spec g) * (dcp * pcp) mod hbs = 0"
    using Cons.prems(7) by auto
  note f = factory_ready [OF r(1) g(1,2) Cons.prems(4-6)]
  have "0 < mgr_block_size m" using f(2) by (simp add: built_manager_def)
  then show ?case using Cons.IH [OF r(2)] Cons.prems(2-7) f g r(3) by simp
qed simp

lemma coordinator_parts:
  assumes "get_kv_cache_coordinator cfg len batched use_eagle caching evs dcp pcp hash_bs metrics ih = Inr (co, p)"
  obtains q where "pool_init (num_blocks cfg) caching hash_bs evs metrics ih = Inr q"
    "build_managers (kv_cache_groups cfg) 0 batched len (nelssa_config_of cfg) caching dcp pcp q = Inr (managers co, p)"
proof -
  have "\<exists>cls co1. base_coordinator cls cfg len batched use_eagle caching evs dcp pcp hash_bs metrics ih = Inr (co1, p) \<and>
      managers co = managers co1"
    using assms
    by (auto simp: get_kv_cache_coordinator_def unitary_init_def hybrid_init_def verify_and_split_kv_cache_groups_def
        rbind_eq_Inr Let_def split: if_splits) (intro exI conjI, assumption, rule refl)+
  then show ?thesis using that by (auto simp: base_coordinator_def rbind_eq_Inr)
qed

lemma km_init_inv:
  assumes "kv_manager_init cfg len hash_bs batched caching use_eagle log_stats evs dcp pcp metrics ih = Inr km"
    and "config_ok cfg hash_bs dcp pcp"
  shows "km_inv env km"
proof -
  obtain tokens where co: "get_kv_cache_coordinator cfg len tokens use_eagle caching evs dcp pcp hash_bs metrics ih
      = Inr (km_coordinator km, km_pool km)" "km_enable_caching km = caching" "km_num_groups km = length (kv_cache_groups cfg)"
    using assms(1) by (auto simp: kv_manager_init_def Let_def rbind_eq_Inr)
  obtain q where q: "pool_init (num_blocks cfg) caching hash_bs evs metrics ih = Inr q"
    "build_managers (kv_cache_groups cfg) 0 tokens len (nelssa_config_of cfg) caching dcp pcp q = Inr (km_managers km, km_pool km)"
    by (rule coordinator_parts [OF co(1)])
  have b: "km_pool km = q \<and> length (km_managers km) = length (kv_cache_groups cfg) \<and> list_all (built_manager q caching) (km_managers km) \<and>
    list_all (\<lambda>m. \<not> is_align m \<and> 0 \<le> nelssa_head_size m \<and> 0 \<le> kv_cache_group_id m \<and> kv_cache_group_id m < 2 ^ 32 \<and>
        0 < mgr_block_size m \<and> mgr_block_size m mod hash_bs = 0) (km_managers km)"
    by (rule build_managers_ready [OF q(2)]) (use assms(2) in \<open>auto simp: config_ok_def\<close>)
  have "0 < num_blocks cfg" using q(1) by (auto simp: pool_init_def py_assert_def rbind_def split: if_splits)
  then have "enable_caching q = caching \<and> hash_block_size q = hash_bs"
    using pool_init_state [of "num_blocks cfg" caching hash_bs evs metrics ih] q(1) by auto
  then have "km_ready km" using b co assms(2) by (simp add: km_ready_def config_ok_def)
  moreover have "mgrs_reach env (km_managers km) (km_pool km)" using b mgrs_init [OF q(1)] by simp
  ultimately show ?thesis by (simp add: km_inv_def)
qed

section \<open>Calls\<close>

text \<open>One call of the KV cache manager that returns.\<close>

inductive km_step :: "hash_env \<Rightarrow> kv_manager \<Rightarrow> kv_manager \<Rightarrow> bool" for env where
  km_lookup: "get_computed_blocks r km = Some (Inr (res, km')) \<Longrightarrow> km_step env km km'"
| km_fit: "can_fit_full_sequence r nc hits ext encoder km = Inr (ok, km') \<Longrightarrow> km_step env km km'"
| km_slots: "slots_ready env r hits lookahead km \<Longrightarrow>
    allocate_slots env r num_new nc hits lookahead 0 delay encoder km = Inr (res, r', km') \<Longrightarrow> km_step env km km'"
| km_freed: "km_free r km = Inr km' \<Longrightarrow> km_step env km km'"
| km_removed: "km_remove_skipped_blocks rid n km = Inr km' \<Longrightarrow> km_step env km km'"
| km_evicted: "list_all (\<lambda>i. 0 \<le> i \<and> i < num_gpu_blocks (km_pool km)) bids \<Longrightarrow> km_evict_blocks bids km = Inr km' \<Longrightarrow>
    km_step env km km'"
| km_reset: "km_reset_prefix_cache km = Inr (ok, km') \<Longrightarrow> km_step env km km'"
| km_prefix: "km_get_num_common_prefix_blocks rid km = (ns, km') \<Longrightarrow> km_step env km km'"
| km_events: "km_take_events km = (evs, km') \<Longrightarrow> km_step env km km'"
| km_cached: "co_cacheable (km_coordinator km) (km_pool km) r n \<Longrightarrow> km_cache_blocks env r n km = Inr (r', km') \<Longrightarrow>
    km_step env km km'"
| km_sparse: "free_sparse_kv rid km = Inr km' \<Longrightarrow> km_step env km km'"
| km_ids: "km_take_new_block_ids km = (ids, km') \<Longrightarrow> km_step env km km'"
| km_new_step: "km_step env km (km_new_step_starts km)"
| km_stats: "make_prefix_cache_stats km = (s, km') \<Longrightarrow> km_step env km km'"

inductive km_reach :: "hash_env \<Rightarrow> kv_manager \<Rightarrow> bool" for env where
  km_start: "kv_manager_init cfg len hash_bs batched caching use_eagle log_stats evs dcp pcp metrics ih = Inr km \<Longrightarrow>
    config_ok cfg hash_bs dcp pcp \<Longrightarrow> km_reach env km"
| km_call: "km_reach env km \<Longrightarrow> km_step env km km' \<Longrightarrow> km_reach env km'"

lemma km_inv_stats [simp]: "km_inv env (km\<lparr>km_stats := s\<rparr>) = km_inv env km"
  by (simp add: km_inv_def km_ready_def)

lemma lookup_inv:
  assumes "get_computed_blocks r km = Some (Inr (res, km'))" "km_inv env km"
  shows "km_inv env km'"
proof -
  have "km' = km \<or> (\<exists>s. km' = km\<lparr>km_stats := s\<rparr>)"
    using assms(1) by (auto simp: get_computed_blocks_def log_hit_def rbind_eq_Inr split: if_splits option.splits)
  then show ?thesis using assms(2) by auto
qed

lemma pool_call_inv:
  assumes "km_inv env km" "mgrs_reach env (km_managers km) p" "pool_const p = pool_const (km_pool km)"
  shows "km_inv env (km_update km (km_coordinator km) p)"
proof (rule km_invI [OF assms(1) _ assms(2)])
  show "co_like (km_coordinator km) (km_pool km) (km_coordinator km) p"
    using assms(3) by (simp add: co_like_def with_managers_def)
qed

lemma evict_inv:
  assumes "km_inv env km" "list_all (\<lambda>i. 0 \<le> i \<and> i < num_gpu_blocks (km_pool km)) bids" "km_evict_blocks bids km = Inr km'"
  shows "km_inv env km'"
proof -
  have reach: "mgrs_reach env (km_managers km) (km_pool km)" using assms(1) by (simp add: km_inv_def)
  obtain p where p: "evict_blocks bids (km_pool km) = Inr p" "km' = km_update km (km_coordinator km) p"
    using assms(3) by (auto simp: km_evict_blocks_def rbind_eq_Inr)
  obtain xs where "pool_inv (km_pool km) xs" using mgrs_reach_inv [OF reach] by (auto simp: clients_inv_def)
  then have "pool_const p = pool_const (km_pool km)" using evict_blocks_state [OF _ assms(2)] p(1) by auto
  then show ?thesis using pool_call_inv [OF assms(1) mgrs_evict [OF reach assms(2) p(1)]] p(2) by simp
qed

lemma reset_inv:
  assumes "km_inv env km" "km_reset_prefix_cache km = Inr (ok, km')"
  shows "km_inv env km'"
proof -
  let ?p = "snd (pool_reset_prefix_cache (km_pool km))"
  have reach: "mgrs_reach env (km_managers km) (km_pool km)" using assms(1) by (simp add: km_inv_def)
  obtain xs where inv: "pool_inv (km_pool km) xs" using mgrs_reach_inv [OF reach] by (auto simp: clients_inv_def)
  have "pool_const ?p = pool_const (km_pool km)"
    using pool_reset_state [OF inv] pool_reset_fails [OF inv] by (cases "py_len xs = num_gpu_blocks (km_pool km) - 1") auto
  note km = pool_call_inv [OF assms(1) mgrs_reset [OF reach] this]
  have "km' = km_update km (km_coordinator km) ?p \<or> (\<exists>s. km' = km_update km (km_coordinator km) ?p\<lparr>km_stats := s\<rparr>)"
    using assms(2) by (auto simp: km_reset_prefix_cache_def Let_def split: prod.splits if_splits option.splits)
  then show ?thesis using km by auto
qed

lemma events_inv:
  assumes "km_inv env km" "km_take_events km = (evs, km')"
  shows "km_inv env km'"
proof -
  let ?p = "snd (pool_take_events (km_pool km))"
  have "mgrs_reach env (km_managers km) ?p" using assms(1) by (intro mgrs_events) (simp add: km_inv_def)
  moreover have "pool_const ?p = pool_const (km_pool km)" by (simp add: pool_take_events_def pool_const_def)
  ultimately have "km_inv env (km_update km (km_coordinator km) ?p)" by (rule pool_call_inv [OF assms(1)])
  then show ?thesis using assms(2) by (auto simp: km_take_events_def split: prod.splits)
qed

lemma map_call_inv:
  assumes "km_inv env km" "\<And>m. g m = m \<or> mgr_step env m (km_pool km) (g m) (km_pool km)"
  shows "km_inv env (km_update km (with_managers (km_coordinator km) (map g (km_managers km))) (km_pool km))"
proof -
  have "mgrs_reach env ([] @ map g (km_managers km)) (km_pool km) \<and> same_consts (km_managers km) (map g (km_managers km))"
    by (rule map_managers_reach) (use assms in \<open>auto simp: km_inv_def\<close>)
  then show ?thesis by (intro km_invI [OF assms(1)]) (simp_all add: co_likeI)
qed

lemma prefix_inv:
  assumes "km_inv env km" "km_get_num_common_prefix_blocks rid km = (ns, km')"
  shows "km_inv env km'"
proof (cases "co_class (km_coordinator km) = KVCacheCoordinatorNoPrefixCache")
  case True
  then show ?thesis
    using assms by (auto simp: km_get_num_common_prefix_blocks_def co_get_num_common_prefix_blocks_def km_update_def)
next
  case False
  have "km_inv env (km_update km (with_managers (km_coordinator km)
      (map (\<lambda>m. snd (get_num_common_prefix_blocks rid m (km_pool km))) (km_managers km))) (km_pool km))"
    by (rule map_call_inv [OF assms(1)]) (simp add: step_prefix)
  then show ?thesis using assms(2) False
    by (auto simp: km_get_num_common_prefix_blocks_def co_get_num_common_prefix_blocks_def Let_def comp_def)
qed

lemma sparse_inv:
  assumes "km_inv env km" "free_sparse_kv rid km = Inr km'"
  shows "km_inv env km'"
proof -
  let ?co = "km_coordinator km" and ?p = "km_pool km"
  let ?f = "\<lambda>i m q. if mgr_class m = NELSSACacheManager then free_middle_blocks rid m q else Inr (m, q)"
  have kr: "km_ready km" and reach: "co_reach env ?co ?p" using assms(1) by (simp_all add: km_inv_def)
  obtain ms p where r: "each_manager ?f 0 (managers ?co) ?p = Inr (ms, p)" "km' = km_update km (with_managers ?co ms) p"
    using assms(2) by (auto simp: free_sparse_kv_def rbind_eq_Inr)
  have step: "(mgr_step env m q m' q' \<or> m' = m \<and> q' = q) \<and> True \<and> True"
    if "m \<in> set (managers ?co)" "?f i m q = Inr (m', q')" for m q m' q' and i :: nat
    using that step_middle ready_managers(2) [OF kr co_like_refl that(1)] by (auto split: if_splits)
  have "mgrs_reach env ([] @ ms) p \<and> True \<and> same_consts (managers ?co) ms \<and> (\<forall>k < length (managers ?co). True) \<and>
      pool_const p = pool_const ?p"
  proof (rule each_manager_run [OF r(1), where q = "\<lambda>p. p" and J = "\<lambda>_ _. True" and Q = "\<lambda>_ _. True"])
    show "(mgr_step env (managers ?co ! k) q m' q' \<or> m' = managers ?co ! k \<and> q' = q) \<and> True \<and> True"
      if "k < length (managers ?co)" "?f (0 + k) (managers ?co ! k) q = Inr (m', q')" for k q m' q'
      using step [OF nth_mem [OF that(1)], of q m' q'] that(2) by blast
  qed (use reach in simp_all)
  then show ?thesis using r(2) km_invI [OF assms(1)] by (simp add: co_likeI)
qed

lemma loop_call_inv:
  assumes "km_inv env km" "co_reach env co p \<and> co_like (km_coordinator km) (km_pool km) co p"
  shows "km_inv env (km_update km co p)"
  using assms km_invI by blast

lemma fit_inv:
  assumes "km_inv env km" "can_fit_full_sequence r nc hits ext encoder km = Inr (ok, km')"
  shows "km_inv env km'"
proof -
  have reach: "co_reach env (km_coordinator km) (km_pool km)" using assms(1) by (simp add: km_inv_def)
  obtain tokens n m k co where "co_get_num_blocks_to_allocate (request_id r) tokens (group_blocks (blocks_or_empty km hits)) encoder n m
      (km_coordinator km) (km_pool km) = Inr (k, co)" and km': "km' = km_update km co (km_pool km)"
    using assms(2) by (auto simp: can_fit_full_sequence_def Let_def rbind_eq_Inr)
  from loop_call_inv [OF assms(1) co_estimate_phase [OF this(1) reach]] show ?thesis unfolding km' .
qed

lemma free_inv:
  assumes "km_inv env km"
  shows "\<exists>km'. km_free r km = Inr km' \<and> km_inv env km' \<and> pool_const (km_pool km') = pool_const (km_pool km) \<and>
    length (km_managers km') = length (km_managers km) \<and>
    (\<forall>k < length (km_managers km). set (req_ids (km_managers km' ! k)) = set (req_ids (km_managers km ! k)) - {request_id r})"
proof -
  have reach: "co_reach env (km_coordinator km) (km_pool km)" using assms by (simp add: km_inv_def)
  obtain co p where r: "co_free (request_id r) (km_coordinator km) (km_pool km) = Inr (co, p)" "co_reach env co p"
    "co_like (km_coordinator km) (km_pool km) co p"
    "\<forall>k < length (km_managers km). set (req_ids (managers co ! k)) = set (req_ids (km_managers km ! k)) - {request_id r}"
    using co_free_phase [OF reach, of "request_id r"] by blast
  show ?thesis
    using r(1,4) km_invI [OF assms r(3,2)] co_likeD(2,3) [OF r(3)] by (intro exI [of _ "km_update km co p"]) (simp add: km_free_def)
qed

lemma remove_inv:
  assumes "km_inv env km" "km_remove_skipped_blocks rid n km = Inr km'"
  shows "km_inv env km'"
proof -
  have reach: "co_reach env (km_coordinator km) (km_pool km)" and kr: "km_ready km" using assms(1) by (simp_all add: km_inv_def)
  obtain co p where r: "co_remove_skipped_blocks rid n (km_coordinator km) (km_pool km) = Inr (co, p)" "km' = km_update km co p"
    using assms(2) by (auto simp: km_remove_skipped_blocks_def rbind_eq_Inr)
  show ?thesis
    using loop_call_inv [OF assms(1)] co_remove_phase [OF r(1) reach ready_managers(1) [OF kr co_like_refl]] r(2) by blast
qed

lemma cached_inv:
  assumes "km_inv env km" "co_cacheable (km_coordinator km) (km_pool km) r n" "km_cache_blocks env r n km = Inr (r', km')"
  shows "km_inv env km'"
proof (cases "km_enable_caching km")
  case True
  then obtain co p where c: "co_cache_blocks env r n (km_coordinator km) (km_pool km) = Inr (r', co, p)" "km' = km_update km co p"
    using assms(3) by (auto simp: km_cache_blocks_def rbind_eq_Inr)
  have "co_reach env (km_coordinator km) (km_pool km)" "enable_caching (km_pool km)"
    using assms(1) True by (auto simp: km_inv_def km_ready_def)
  then show ?thesis using co_cache_phase [OF c(1) _ _ assms(2)] loop_call_inv [OF assms(1)] c(2) by blast
qed (use assms in \<open>simp add: km_cache_blocks_def\<close>)

lemma ids_inv:
  assumes "km_inv env km" "km_take_new_block_ids km = (ids, km')"
  shows "km_inv env km'"
proof -
  have "km_inv env (km_update km (with_managers (km_coordinator km) (map (\<lambda>m. snd (take_new_block_ids m)) (km_managers km))) (km_pool km))"
    by (rule map_call_inv [OF assms(1)]) (simp add: step_ids)
  then show ?thesis using assms(2) by (auto simp: km_take_new_block_ids_def Let_def km_update_def comp_def)
qed

lemma new_step_inv:
  assumes "km_inv env km"
  shows "km_inv env (km_new_step_starts km)"
proof -
  have "km_inv env (km_update km (with_managers (km_coordinator km) (map new_step_starts (km_managers km))) (km_pool km))"
    by (rule map_call_inv [OF assms]) (simp add: step_new_step)
  then show ?thesis by (simp add: km_new_step_starts_def co_new_step_starts_def km_update_def)
qed

lemma stats_inv: "make_prefix_cache_stats km = (s, km') \<Longrightarrow> km_inv env km \<Longrightarrow> km_inv env km'"
  by (auto simp: make_prefix_cache_stats_def split: if_splits)

lemma km_step_inv:
  assumes "km_step env km km'" and inv: "km_inv env km"
  shows "km_inv env km'"
  using assms(1)
proof cases
  case (km_freed r)
  then show ?thesis using free_inv [OF inv, of r] by auto
next
  case km_lookup
  then show ?thesis by (rule lookup_inv [OF _ inv])
next
  case km_fit
  then show ?thesis by (rule fit_inv [OF inv])
next
  case km_slots
  then show ?thesis by (rule allocate_slots_inv [OF inv])
next
  case km_removed
  then show ?thesis by (rule remove_inv [OF inv])
next
  case km_evicted
  then show ?thesis by (rule evict_inv [OF inv])
next
  case km_reset
  then show ?thesis by (rule reset_inv [OF inv])
next
  case km_prefix
  then show ?thesis by (rule prefix_inv [OF inv])
next
  case km_events
  then show ?thesis by (rule events_inv [OF inv])
next
  case km_cached
  then show ?thesis by (rule cached_inv [OF inv])
next
  case km_sparse
  then show ?thesis by (rule sparse_inv [OF inv])
next
  case km_ids
  then show ?thesis by (rule ids_inv [OF inv])
next
  case km_stats
  then show ?thesis by (rule stats_inv [OF _ inv])
next
  case km_new_step
  then show ?thesis using new_step_inv [OF inv] by simp
qed

lemma km_reach_inv: "km_reach env km \<Longrightarrow> km_inv env km"
  by (induction rule: km_reach.induct) (auto intro: km_init_inv km_step_inv)

end
