(* ===== verification/KV_Manager_Unitary.thy ===== *)
theory KV_Manager_Unitary
  imports KV_Manager_Reach
begin

text \<open>
  \<open>allocate_slots\<close> for a model with one full-attention group: it never raises, it answers \<^verbatim>\<open>None\<close> and
  changes nothing exactly when the estimate exceeds the free blocks, and otherwise the request's table
  keeps its blocks, continues with the hits and covers all slots.
\<close>

section \<open>The phases for one full-attention manager\<close>

lemma with_managers_same: "managers co = ms \<Longrightarrow> with_managers co ms = co"
  by (simp add: with_managers_def)

lemma km_update_same: "km_update km (km_coordinator km) (km_pool km) = km"
  by (simp add: km_update_def)

lemma unitary_remove:
  assumes "managers co = [m]" "mgr_class m = FullAttentionManager"
  shows "co_remove_skipped_blocks rid n co p = Inr (co, p)"
proof -
  have "remove_skipped_blocks rid n m p = Inr (m, p)"
    using assms(2) by (simp add: remove_skipped_blocks_def base_remove_skipped_blocks_def no_skip_tables)
  then show ?thesis using assms(1) by (simp add: co_remove_skipped_blocks_def with_managers_same)
qed

lemma unitary_mark:
  assumes "managers co = [m]" "mgr_class m = FullAttentionManager"
  shows "km_mark_long_request rid n co = co"
  using assms by (simp add: km_mark_long_request_def with_managers_same)

lemma full_estimate:
  assumes "mgr_class m = FullAttentionManager" "max_admission m = None"
    and "if is_running m rid then h = [] else blocks_of m rid = []"
  shows "get_num_blocks_to_allocate rid tokens h n main m p =
    Inr (max (cdiv tokens (mgr_block_size m) - py_len (blocks_of m rid @ h)) 0 + get_num_evictable_blocks h p, m)"
  using assms
  by (simp add: get_num_blocks_to_allocate_def base_get_num_blocks_to_allocate_def no_skip_tables Let_def py_len_def
      get_num_evictable_blocks_def idx_simps split: if_splits)

lemma unitary_estimate:
  assumes "managers co = [m]" "mgr_class m = FullAttentionManager" "get_num_blocks_to_allocate rid tokens h n main m p = Inr (k, m)"
  shows "co_get_num_blocks_to_allocate rid tokens [h] encoder n main co p = Inr (k, co)"
  using assms by (simp add: co_get_num_blocks_to_allocate_def is_cross_def py_get_def py_len_def with_managers_same)

text \<open>Taking the hits and the new blocks, with and without hits to take.\<close>

lemma unitary_take:
  assumes m: "managers co = [m]" "mgr_class m = FullAttentionManager" "max_admission m = None" and inv: "mgr_inv oth m p xs"
    and req: "if is_running m rid then h = [] else blocks_of m rid = []"
    and hits: "hits_ok p h" "enable_caching p \<or> h = []"
    and tokens: "nl \<le> slot" "py_len h \<le> cdiv nl (mgr_block_size m)"
    and est: "get_num_blocks_to_allocate rid slot h nl main m p = Inr (k, m)" "k \<le> get_num_free_blocks p"
    and none: "no_hits \<longrightarrow> h = []"
  shows "\<exists>co1 p1 new m2 p2. (if \<not> no_hits \<or> 0 < (0::int) then co_allocate_new_computed_blocks rid [h] nl 0 co p else Inr (co, p)) = Inr (co1, p1) \<and>
    co_allocate_new_blocks rid slot main encoder co1 p1 = Inr ([new], with_managers co [m2], p2) \<and>
    take (length (blocks_of m rid @ h)) (blocks_of m2 rid) = blocks_of m rid @ h \<and>
    cdiv slot (mgr_block_size m) \<le> py_len (blocks_of m2 rid) \<and> mgr_class m2 = FullAttentionManager"
proof (cases no_hits)
  case True
  then have h: "h = []" using none by simp
  have "max (cdiv slot (mgr_block_size m) - py_len (blocks_of m rid)) 0 \<le> py_len xs"
    using est full_estimate [OF m(2,3) req, of slot nl main p] free_count [OF mgr_invD(1) [OF inv]] h
    by (simp add: get_num_evictable_blocks_def py_len_def)
  then obtain new m2 p2 xs' where r: "base_allocate_new_blocks rid slot m p = Inr (new, m2, p2)"
    "blocks_of m2 rid = blocks_of m rid @ new"
    using base_allocate_succeeds [OF inv, of slot rid] by auto
  have a: "allocate_new_blocks rid slot main m p = Inr (new, m2, p2)" using m(2) r(1) by (simp add: allocate_new_blocks_def)
  have "mgr_ok_step oth m p m2 p2" by (rule alloc_step [OF inv _ a]) (simp add: is_align_def m(2))
  then have "mgr_class m2 = FullAttentionManager" using mgr_constD(1) [of m2 m] m(2) by (simp add: mgr_ok_step_def)
  then show ?thesis
    using True h a r(2) base_alloc_covers [OF inv r(1)] m(1,2)
    by (intro exI [of _ co] exI [of _ p] exI [of _ new] exI [of _ m2] exI [of _ p2]) (simp add: co_allocate_new_blocks_def is_cross_def)
next
  case False
  obtain m1 p1 new m2 p2 xs' where r: "allocate_new_computed_blocks rid h nl 0 m p = Inr (m1, p1)"
    "allocate_new_blocks rid slot main m1 p1 = Inr (new, m2, p2)"
    "take (length (blocks_of m rid @ h)) (blocks_of m2 rid) = blocks_of m rid @ h"
    "cdiv slot (mgr_block_size m) \<le> py_len (blocks_of m2 rid)"
    using full_admission [OF inv m(2,3) req hits, of nl 0 slot main k m] tokens est unfolding add_0_right by blast
  have "computed_ready p m rid h nl 0" using hits by (simp add: computed_ready_def external_blocks_def Let_def)
  from computed_step [OF inv this r(1)] obtain xs1 where 1: "mgr_inv oth m1 p1 xs1" "mgr_const m1 = mgr_const m"
    by (auto simp: mgr_ok_step_def)
  have "mgr_ok_step oth m1 p1 m2 p2" by (rule alloc_step [OF 1(1) _ r(2)]) (simp add: is_align_def m(2) mgr_constD(1) [OF 1(2)])
  then have "mgr_const m2 = mgr_const m1" by (simp add: mgr_ok_step_def)
  then have "mgr_class m1 = FullAttentionManager" "mgr_class m2 = FullAttentionManager"
    using m(2) mgr_constD(1) [OF 1(2)] mgr_constD(1) [of m2 m1] by simp_all
  then show ?thesis
    using False r m(1,2)
    by (intro exI [of _ "with_managers co [m1]"] exI [of _ p1] exI [of _ new] exI [of _ m2] exI [of _ p2])
      (simp add: co_allocate_new_computed_blocks_def co_allocate_new_blocks_def is_cross_def py_get_def py_len_def)
qed

lemma unitary_cache:
  assumes "managers co = [m]" "mgr_class m = FullAttentionManager" "co_reach env co p" "enable_caching p" "co_cacheable co p r tokens"
  shows "\<exists>r' m' p'. co_cache_blocks env r tokens co p = Inr (r', with_managers co [m'], p') \<and> (\<forall>s. blocks_of m' s = blocks_of m s)"
proof -
  obtain oth xs where inv: "mgr_inv oth m p xs" using reach_mgr_inv [of env "[]" m "[]" p] assms(1,3) by auto
  have ready: "cache_ready p m r tokens" using assms(1,2,5) by (simp add: co_cacheable_def is_cross_def)
  obtain r' m' p' where "base_cache_blocks env r tokens m p = Inr (r', m', p')" "\<forall>s. blocks_of m' s = blocks_of m s"
    using base_cache_blocks_inv [OF inv assms(4) refl refl ready, of env] by blast
  then show ?thesis
    using assms(1,2) by (intro exI [of _ r'] exI [of _ m'] exI [of _ p']) (simp add: co_cache_blocks_def cache_blocks_def)
qed

section \<open>The whole call\<close>

text \<open>What the scheduler guarantees for a request of a single-group model.\<close>

definition unitary_call :: "hash_env \<Rightarrow> request \<Rightarrow> int \<Rightarrow> int \<Rightarrow> kv_cache_blocks option \<Rightarrow> int \<Rightarrow> manager \<Rightarrow> blk list \<Rightarrow> kv_manager \<Rightarrow> bool" where
  "unitary_call env r num_new nc hits lookahead m h km \<longleftrightarrow>
     (let hs = blocks_or_empty km hits; rid = request_id r; computed = num_computed_tokens r + nc
      in single_type_managers (km_coordinator km) = [m] \<and> mgr_class m = FullAttentionManager \<and> max_admission m = None \<and>
         slots_ready env r hits lookahead km \<and> group_blocks hs = [h] \<and> (shared_empty hs \<longrightarrow> h = []) \<and>
         (if is_running m rid then h = [] else blocks_of m rid = []) \<and>
         computed \<le> km_max_model_len km \<and> py_len h \<le> cdiv computed (mgr_block_size m) \<and> 0 < num_new)"

lemma unitary_callD:
  assumes "unitary_call env r num_new nc hits lookahead m h km" and nl: "nl = num_computed_tokens r + nc"
    and hs: "hs = blocks_or_empty km hits"
  shows "single_type_managers (km_coordinator km) = [m]" "mgr_class m = FullAttentionManager" "max_admission m = None"
    "slots_ready env r hits lookahead km" "group_blocks hs = [h]" "shared_empty hs \<longrightarrow> h = []"
    "if is_running m (request_id r) then h = [] else blocks_of m (request_id r) = []"
    "nl \<le> km_max_model_len km" "py_len h \<le> cdiv nl (mgr_block_size m)" "0 < num_new" "0 \<le> lookahead"
    "hits_ok (km_pool km) h" "km_enable_caching km \<or> h = []"
    "km_enable_caching km \<Longrightarrow> hashes_ok env (hash_block_size (km_pool km)) r" "num_tokens r \<le> km_max_model_len km"
proof -
  note c = assms(1) [unfolded unitary_call_def Let_def nl [symmetric] hs [symmetric]]
  show "single_type_managers (km_coordinator km) = [m]" "mgr_class m = FullAttentionManager" "max_admission m = None"
    "slots_ready env r hits lookahead km" "group_blocks hs = [h]" "shared_empty hs \<longrightarrow> h = []"
    "if is_running m (request_id r) then h = [] else blocks_of m (request_id r) = []"
    "nl \<le> km_max_model_len km" "py_len h \<le> cdiv nl (mgr_block_size m)" "0 < num_new"
    using c by blast+
  have "slots_ready env r hits lookahead km" "group_blocks hs = [h]" using c by blast+
  then show "0 \<le> lookahead" "hits_ok (km_pool km) h" "km_enable_caching km \<or> h = []"
    "km_enable_caching km \<Longrightarrow> hashes_ok env (hash_block_size (km_pool km)) r" "num_tokens r \<le> km_max_model_len km"
    unfolding slots_ready_def Let_def hs [symmetric] by auto
qed

lemma unitary_run:
  assumes call: "unitary_call env r num_new nc hits lookahead m h km"
    and nl: "nl = num_computed_tokens r + nc" and hs: "hs = blocks_or_empty km hits"
    and slot: "slot = min (nl + num_new + lookahead) (km_max_model_len km)"
    and est: "get_num_blocks_to_allocate (request_id r) slot h nl (nl + num_new) m (km_pool km) = Inr (k, m)"
  shows "allocate_slots env r num_new nc hits lookahead 0 delay encoder km =
    (if get_num_free_blocks (km_pool km) < k then Inr (None, r, km)
     else rbind (if \<not> shared_empty hs \<or> 0 < (0::int)
                 then co_allocate_new_computed_blocks (request_id r) [h] nl 0 (km_coordinator km) (km_pool km)
                 else Inr (km_coordinator km, km_pool km))
       (\<lambda>(co4, p4). rbind (co_allocate_new_blocks (request_id r) slot (nl + num_new) encoder co4 p4) (\<lambda>(new, co5, p5).
          if \<not> km_enable_caching km \<or> delay then Inr (Some (create_kv_cache_blocks km new), r, km_update km co5 p5)
          else rbind (co_cache_blocks env r (min (nl + num_new) (num_tokens r)) co5 p5)
            (\<lambda>(r', co6, p6). Inr (Some (create_kv_cache_blocks km new), r', km_update km co6 p6)))))"
proof -
  note c = unitary_callD [OF call nl hs]
  have new: "\<not> (num_new = 0 \<and> (0::int) = 0)" and lim: "min nl (km_max_model_len km) = nl" using c(8,10) by simp_all
  have est': "co_get_num_blocks_to_allocate (request_id r) slot [h] encoder nl (nl + num_new) (km_coordinator km) (km_pool km)
      = Inr (k, km_coordinator km)"
    by (rule unitary_estimate [OF c(1,2) est])
  have mark: "(if request.nelssa_long_mask r then km_mark_long_request (request_id r) (num_tokens r) (km_coordinator km)
      else km_coordinator km) = km_coordinator km"
    using unitary_mark [OF c(1,2)] by simp
  show ?thesis
    unfolding allocate_slots_def Let_def if_not_P [OF new] hs [symmetric] nl [symmetric] add_0_right lim slot [symmetric] c(5)
      unitary_remove [OF c(1,2)] rbind_Inr prod.case mark est' km_update_same ..
qed

lemma unitary_slots:
  assumes inv: "km_inv env km" and call: "unitary_call env r num_new nc hits lookahead m h km"
    and slot: "slot = min (num_computed_tokens r + nc + num_new + lookahead) (km_max_model_len km)"
    and k: "k = max (cdiv slot (mgr_block_size m) - py_len (blocks_of m (request_id r) @ h)) 0 + get_num_evictable_blocks h (km_pool km)"
  shows "get_num_free_blocks (km_pool km) < k \<Longrightarrow>
      allocate_slots env r num_new nc hits lookahead 0 delay encoder km = Inr (None, r, km)"
    "k \<le> get_num_free_blocks (km_pool km) \<Longrightarrow> \<exists>new r' km' m'.
      allocate_slots env r num_new nc hits lookahead 0 delay encoder km = Inr (Some new, r', km') \<and>
      single_type_managers (km_coordinator km') = [m'] \<and>
      take (length (blocks_of m (request_id r) @ h)) (blocks_of m' (request_id r)) = blocks_of m (request_id r) @ h \<and>
      cdiv slot (mgr_block_size m) \<le> py_len (blocks_of m' (request_id r))"
proof -
  let ?rid = "request_id r" and ?co = "km_coordinator km" and ?p = "km_pool km"
  define hs where "hs = blocks_or_empty km hits"
  define nl where "nl = num_computed_tokens r + nc"
  note c = unitary_callD [OF call nl_def hs_def] and sl = slot [folded nl_def]
  have est: "get_num_blocks_to_allocate ?rid slot h nl (nl + num_new) m ?p = Inr (k, m)"
    using full_estimate [OF c(2,3,7), of slot nl "nl + num_new" ?p] k by simp
  note run = unitary_run [OF call nl_def hs_def sl est, of delay encoder]
  show "get_num_free_blocks ?p < k \<Longrightarrow> allocate_slots env r num_new nc hits lookahead 0 delay encoder km = Inr (None, r, km)"
    unfolding run by simp
  assume le: "k \<le> get_num_free_blocks ?p"
  have kr: "km_ready km" and reach: "co_reach env ?co ?p" using inv by (simp_all add: km_inv_def)
  then have caching: "enable_caching ?p = km_enable_caching km" by (simp add: km_ready_def)
  obtain oth xs where mi: "mgr_inv oth m ?p xs" using reach_mgr_inv [of env "[]" m "[]" ?p] reach c(1) by auto
  have nls: "nl \<le> slot" using c(8,10,11) sl by simp
  obtain co1 p1 new m2 p2 where
    4: "(if \<not> shared_empty hs \<or> 0 < (0::int) then co_allocate_new_computed_blocks ?rid [h] nl 0 ?co ?p else Inr (?co, ?p)) = Inr (co1, p1)"
    and 5: "co_allocate_new_blocks ?rid slot (nl + num_new) encoder co1 p1 = Inr ([new], with_managers ?co [m2], p2)"
    and tab: "take (length (blocks_of m ?rid @ h)) (blocks_of m2 ?rid) = blocks_of m ?rid @ h"
      "cdiv slot (mgr_block_size m) \<le> py_len (blocks_of m2 ?rid)" "mgr_class m2 = FullAttentionManager"
    using unitary_take [OF c(1-3) mi c(7,12) _ nls c(9) est le c(6), of encoder] caching c(13) by blast
  have hits: "list_all (hits_ok ?p) (group_blocks hs)" "enable_caching ?p \<or> list_all (\<lambda>h. h = []) (group_blocks hs)"
    using c(5,12,13) caching by auto
  have taken: "co_reach env (with_managers ?co [m2]) p2 \<and> co_like ?co ?p (with_managers ?co [m2]) p2 \<and>
      list_all (\<lambda>m. is_cross m \<or> cdiv slot (mgr_block_size m) \<le> py_len (blocks_of m ?rid)) (managers (with_managers ?co [m2]))"
    by (rule slots_take [where nl = nl, OF kr reach co_like_refl hits _ 5]) (use 4 c(5) in \<open>simp split: if_splits\<close>)
  show "\<exists>new r' km' m'. allocate_slots env r num_new nc hits lookahead 0 delay encoder km = Inr (Some new, r', km') \<and>
      single_type_managers (km_coordinator km') = [m'] \<and>
      take (length (blocks_of m ?rid @ h)) (blocks_of m' ?rid) = blocks_of m ?rid @ h \<and>
      cdiv slot (mgr_block_size m) \<le> py_len (blocks_of m' ?rid)"
  proof (cases "\<not> km_enable_caching km \<or> delay")
    case True
    then show ?thesis using run le 4 5 tab(1,2)
      by (intro exI [of _ "create_kv_cache_blocks km [new]"] exI [of _ r] exI [of _ "km_update km (with_managers ?co [m2]) p2"] exI [of _ m2]) simp
  next
    case False
    have "co_cacheable (with_managers ?co [m2]) p2 r (min (nl + num_new) (num_tokens r))"
      by (rule slots_cacheable [OF kr taken [THEN conjunct2, THEN conjunct1] taken [THEN conjunct2, THEN conjunct2] c(14)])
        (use False c(11,15) sl in auto)
    moreover have "enable_caching p2" using ready_managers(4) [OF kr taken [THEN conjunct2, THEN conjunct1]] False by simp
    ultimately have "\<exists>r' m' p'. co_cache_blocks env r (min (nl + num_new) (num_tokens r)) (with_managers ?co [m2]) p2
        = Inr (r', with_managers (with_managers ?co [m2]) [m'], p') \<and> (\<forall>s. blocks_of m' s = blocks_of m2 s)"
      using taken by (intro unitary_cache tab(3)) simp_all
    then obtain r' m3 p3 where "co_cache_blocks env r (min (nl + num_new) (num_tokens r)) (with_managers ?co [m2]) p2
        = Inr (r', with_managers ?co [m3], p3)" "\<forall>s. blocks_of m3 s = blocks_of m2 s"
      unfolding managers_with(2) by blast
    then show ?thesis using run le 4 5 tab(1,2) False
      by (intro exI [of _ "create_kv_cache_blocks km [new]"] exI [of _ r'] exI [of _ "km_update km (with_managers ?co [m3]) p3"] exI [of _ m3]) simp
  qed
qed

section \<open>Scheduling a new request\<close>

text \<open>The coordinator of a model with one full-attention group, without context parallelism.\<close>

definition unitary_km :: "kv_manager \<Rightarrow> manager \<Rightarrow> bool" where
  "unitary_km km m \<longleftrightarrow> (let co = km_coordinator km in
     co_class co = UnitaryKVCacheCoordinator \<and> single_type_managers co = [m] \<and> mgr_class m = FullAttentionManager \<and>
     max_admission m = None \<and> co_dcp co = 1 \<and> co_pcp co = 1 \<and> co_block_size co = mgr_block_size m \<and>
     hash_block_size (km_pool km) = mgr_block_size m \<and> km_enable_caching km \<and>
     (\<exists>g. kv_cache_groups (co_config co) = [g] \<and> is_full_attention (group_spec g) \<and>
        spec_block_size (group_spec g) = mgr_block_size m))"

lemma unitary_lookup:
  assumes inv: "km_inv env km" and km: "unitary_km km m" and r: "hashes_ok env (mgr_block_size m) r" "distinct (block_hashes r)" "0 < num_tokens r"
  shows "\<exists>h L. co_find_longest_cache_hit (block_hashes r) (num_tokens r - 1) (km_coordinator km) (km_pool km) =
      Some (Inr ([h], int L * mgr_block_size m)) \<and> length h = L \<and> hits_ok (km_pool km) h \<and> int L * mgr_block_size m < num_tokens r \<and>
      (\<forall>j < L. h ! j = null_block (km_pool km) \<or> stores (km_pool km) (h ! j) (block_hashes r ! j) 0)"
proof -
  let ?co = "km_coordinator km" and ?p = "km_pool km" and ?bs = "mgr_block_size m"
  obtain g where k: "co_class ?co = UnitaryKVCacheCoordinator" "managers ?co = [m]" "mgr_class m = FullAttentionManager"
    "co_dcp ?co = 1" "co_pcp ?co = 1" "co_block_size ?co = ?bs" "kv_cache_groups (co_config ?co) = [g]"
    "is_full_attention (group_spec g)" "spec_block_size (group_spec g) = ?bs"
    using km by (auto simp: unitary_km_def Let_def)
  have bs: "0 < ?bs" using r(1) by (simp add: hashes_ok_def)
  have "co_reach env ?co ?p" using inv by (simp add: km_inv_def)
  then obtain xs where pinv: "pool_inv ?p xs" using mgrs_reach_inv by (fastforce simp: clients_inv_def)
  have spec: "spec_ok (group_spec g)" "hit_class FullAttentionManager (group_spec g)"
    using k(8,9) bs by (auto simp: spec_ok_def hit_class_def split: kv_cache_spec.splits)
  have gids: "gids_ok [0]" and wf: "bhl_wf (Plain (block_hashes r))" by (simp_all add: gids_ok_def bhl_wf_def)
  have "(num_tokens r - 1) div ?bs \<le> py_len (block_hashes r)"
    by (rule full_block_hashes(1) [OF r(1) bs]) simp_all
  then have n: "nat ((num_tokens r - 1) div ?bs) \<le> length (bhl_list (Plain (block_hashes r)))"
    by (simp add: py_len_def nat_le_iff)
  define e where "e = (0 \<in> set (eagle_group_ids ?co))"
  obtain cs where cs: "find_longest_cache_hit FullAttentionManager (Plain (block_hashes r)) (num_tokens r - 1) [0] ?p (group_spec g) e ?bs 1 1 = Inr cs"
    using find_hit_total [OF pinv gids wf spec, of "num_tokens r - 1" e ?bs] n r(3) k(9) by auto
  obtain L where L: "L \<le> hit_limit FullAttentionManager e (nat ((num_tokens r - 1) div ?bs))" "hit_rows ?p [0] (block_hashes r) L cs"
    using find_hit_rows [OF pinv gids spec(1) cs _ wf, of ?bs] n r(3) k(9) by auto
  obtain h where h: "cs = [h]" using L(2) by (auto simp: hit_rows_def length_Suc_conv)
  have len: "length h = L" using L(2) h by (simp add: hit_rows_def uniform_def)
  have "int L \<le> (num_tokens r - 1) div ?bs"
    using L(1) pos_imp_zdiv_nonneg_iff [OF bs, of "num_tokens r - 1"] r(3) by (simp add: hit_limit_def)
  then have "int L * ?bs \<le> (num_tokens r - 1) div ?bs * ?bs" using bs by simp
  also have "\<dots> \<le> num_tokens r - 1"
    using minus_mod_eq_div_mult [of "num_tokens r - 1" ?bs] pos_mod_sign [OF bs, of "num_tokens r - 1"] by linarith
  finally have lt: "int L * ?bs < num_tokens r" by simp
  have "hits_ok ?p h" using hit_rows_hits_ok [OF pinv L(2) _ r(2), of 0] h by simp
  moreover have "h ! j = null_block ?p \<or> stores ?p (h ! j) (block_hashes r ! j) 0" if "j < L" for j
    using L(2) h that by (auto simp: hit_rows_def)
  moreover have "co_find_longest_cache_hit (block_hashes r) (num_tokens r - 1) ?co ?p = Some (Inr ([h], int L * ?bs))"
    using k cs h len by (simp add: co_find_longest_cache_hit_def unitary_find_longest_cache_hit_def py_get_def py_len_def e_def)
  ultimately show ?thesis using len lt by blast
qed

end
