(* ===== verification/KV_Manager_Safe.thy ===== *)
theory KV_Manager_Safe
  imports KV_Manager_Unitary
begin

text \<open>
  The properties of the KV cache manager: block accounting in every reachable state, the shape of
  its results, that freeing all requests makes the prefix cache resettable, and that scheduling a new
  request of a model with one full-attention group never raises.
\<close>

section \<open>Statistics\<close>

definition stats_ok :: "kv_manager \<Rightarrow> bool" where
  "stats_ok km \<longleftrightarrow> (km_log_stats km \<longrightarrow> km_stats km \<noteq> None)"

lemma stats_ok_update [simp]: "stats_ok (km_update km co p) = stats_ok km"
  by (simp add: stats_ok_def km_update_def)

lemma allocate_slots_update:
  assumes "allocate_slots env r num_new nc hits lookahead ext delay encoder km = Inr (res, r', km')"
  shows "\<exists>co p. km' = km_update km co p"
  using assms by (cases rule: allocate_slots_path [OF _ refl refl refl]) auto

lemma km_step_stats:
  assumes "km_step env km km'" "stats_ok km"
  shows "stats_ok km'"
  using assms(1)
proof cases
  case km_lookup
  then show ?thesis
    using assms(2) by (auto simp: stats_ok_def get_computed_blocks_def log_hit_def rbind_eq_Inr split: if_splits option.splits)
next
  case km_slots
  then show ?thesis using allocate_slots_update assms(2) by force
next
  case km_reset
  then show ?thesis
    using assms(2) by (auto simp: stats_ok_def km_reset_prefix_cache_def km_update_def Let_def split: prod.splits if_splits option.splits)
qed (use assms(2) in \<open>auto simp: can_fit_full_sequence_def km_free_def km_remove_skipped_blocks_def km_evict_blocks_def
      km_get_num_common_prefix_blocks_def km_take_events_def km_cache_blocks_def free_sparse_kv_def
      km_take_new_block_ids_def km_new_step_starts_def make_prefix_cache_stats_def Let_def rbind_eq_Inr stats_ok_def km_update_def
      split: prod.splits if_splits\<close>)

lemma km_reach_stats: "km_reach env km \<Longrightarrow> stats_ok km"
proof (induction rule: km_reach.induct)
  case km_start
  then show ?case by (auto simp: kv_manager_init_def Let_def rbind_eq_Inr stats_ok_def)
next
  case (km_call km km')
  then show ?case using km_step_stats by blast
qed

section \<open>A concrete state\<close>

definition demo_init :: "kv_manager res" where
  "demo_init = kv_manager_init (demo_config [demo_full_spec]) 100 2 (Some 8) True False False False 1 1 None False"

lemma demo_km:
  obtains km m where "km_reach env km" "unitary_km km m" "req_to_blocks m = []" "num_cached_block m = []"
    "km_max_model_len km = 100" "km_pool km = demo_pool" "mgr_block_size m = 2" "km_num_groups km = 1"
proof -
  let ?m = "new_manager FullAttentionManager demo_full_spec demo_pool True 0 1 1 None"
  have full: "get_manager_for_kv_cache_spec demo_full_spec 8 100 None True 0 1 1 demo_pool = Inr (?m, demo_pool)"
    by (simp add: get_manager_for_kv_cache_spec_def demo_full_spec_def)
  have bs: "spec_block_size demo_full_spec = 2" "is_full_attention demo_full_spec" "spec_supported demo_full_spec"
    by (simp_all add: demo_full_spec_def spec_supported_def)
  obtain km where init: "demo_init = Inr km" and km: "managers (km_coordinator km) = [?m]" "co_class (km_coordinator km) = UnitaryKVCacheCoordinator"
    "co_dcp (km_coordinator km) = 1" "co_pcp (km_coordinator km) = 1" "co_block_size (km_coordinator km) = 2"
    "co_config (km_coordinator km) = demo_config [demo_full_spec]" "km_pool km = demo_pool" "km_max_model_len km = 100" "km_enable_caching km"
    "km_num_groups km = 1"
    using full bs
    by (simp add: demo_init_def kv_manager_init_def get_kv_cache_coordinator_def unitary_init_def base_coordinator_def demo_config_def
        demo_group_def demo_pool_init py_get_def py_len_def)
  have "config_ok (demo_config [demo_full_spec]) 2 1 1" using bs by (simp add: config_ok_def demo_config_def demo_group_def)
  then have "km_reach env km" using km_start init unfolding demo_init_def by blast
  moreover have "unitary_km km ?m"
    using km bs by (simp add: unitary_km_def Let_def new_manager_def demo_pool_inv demo_config_def demo_group_def)
  ultimately show ?thesis using km(7,8,10) bs by (intro that [of km ?m]) (simp_all add: new_manager_def)
qed

lemma demo_request:
  obtains r where "hashes_ok demo_env 2 r" "length (block_hashes r) = 1" "num_tokens r = 3" "request_id r = ''a''"
    "num_computed_tokens r = 0" "\<not> skip_reading_prefix_cache r"
proof -
  define r0 where "r0 = request_fields (16, WAITING, None) 3 ''a'' (Some [1, 2, 3]) (Some demo_sp) None 0 None [] None None 0 (Some 2) False"
  obtain r where init: "request_init demo_env ''a'' (Some ([1, 2, 3] @ [])) (Some demo_sp) None 0 None [] None None 0 (Some 2) False = Inr r"
    and r: "hashes_ok demo_env 2 r" "all_token_ids r = [1, 2, 3]"
    using demo_requests [of "[1, 2, 3]" "[]" "[]"] by auto
  have up: "update_block_hashes demo_env r0 = Inr r"
    using init by (simp add: request_init_def initial_limits_def demo_sp_def length_from_prompt_token_ids_or_embeds_def r0_def py_len_def)
  have f: "block_hasher r0 = Some 2" "mm_features r0 = []" "embeds_ok demo_env r0" "block_hashes r0 = []" "request_id r0 = ''a''"
    "num_computed_tokens r0 = 0" "\<not> skip_reading_prefix_cache r0"
    by (simp_all add: r0_def request_fields_def embeds_ok_def get_skip_reading_prefix_cache_def demo_sp_def)
  obtain c where "update_block_hashes demo_env r0 = Inr (r0\<lparr>prompt_embeds_per_block_hashes := c,
      block_hashes := map (block_hash_at demo_env 2 r0) [0..<full_blocks 2 r0]\<rparr>)"
    using update_block_hashes_spec [of 2 r0 demo_env 0] f by (auto simp: mm_settled_def)
  then have "request_id r = ''a''" "num_computed_tokens r = 0" "\<not> skip_reading_prefix_cache r" using up f by auto
  moreover have "num_tokens r = 3" using r(2) by (simp add: num_tokens_def py_len_def)
  moreover have "length (block_hashes r) = 1" using r by (simp add: hashes_ok_def full_blocks_def num_tokens_def py_len_def)
  ultimately show ?thesis using that r(1) by blast
qed

text \<open>The request of three tokens after its first allocation.\<close>

lemma demo_running:
  obtains km m where "km_reach demo_env km" "managers (km_coordinator km) = [m]" "2 \<le> py_len (blocks_of m ''a'')"
proof -
  obtain km m where k: "km_reach demo_env km" "unitary_km km m" "req_to_blocks m = []" "num_cached_block m = []"
    "km_max_model_len km = 100" "km_pool km = demo_pool" "mgr_block_size m = 2" "km_num_groups km = 1"
    by (rule demo_km)
  obtain r where r: "hashes_ok demo_env 2 r" "length (block_hashes r) = 1" "num_tokens r = 3" "request_id r = ''a''" "num_computed_tokens r = 0"
    by (rule demo_request)
  have u: "managers (km_coordinator km) = [m]" "mgr_class m = FullAttentionManager" "max_admission m = None"
    "hash_block_size (km_pool km) = mgr_block_size m" "km_enable_caching km"
    using k(2) by (simp_all add: unitary_km_def Let_def)
  have ready: "slots_ready demo_env r None 0 km"
    using r k u by (simp add: slots_ready_def blocks_or_empty_def empty_kv_cache_blocks_def hits_ok_def)
  have call: "unitary_call demo_env r 3 0 None 0 m [] km"
    using ready r k u by (simp add: unitary_call_def blocks_or_empty_def empty_kv_cache_blocks_def is_running_def blocks_of_def cdiv_def)
  have "get_num_free_blocks (km_pool km) = 4" using free_count [OF demo_pool_inv(1)] k(6) by (simp add: py_len_def)
  then obtain new r' km' m' where a: "allocate_slots demo_env r 3 0 None 0 0 False 0 km = Inr (Some new, r', km')"
    "managers (km_coordinator km') = [m']" "2 \<le> py_len (blocks_of m' ''a'')"
    using unitary_slots(2) [OF km_reach_inv [OF k(1)] call refl refl, of False 0] k r
    by (auto simp: blocks_of_def cdiv_def py_len_def get_num_evictable_blocks_def)
  show ?thesis using that [OF km_call [OF k(1) km_slots [OF ready a(1)]] a(2,3)] .
qed

section \<open>Freeing all requests\<close>

lemma free_all_inv:
  assumes "km_inv env km"
  shows "\<exists>km'. rfold km_free rs km = Inr km' \<and> km_inv env km' \<and> length (km_managers km') = length (km_managers km) \<and>
    (stats_ok km \<longrightarrow> stats_ok km') \<and>
    (\<forall>k < length (km_managers km). set (req_ids (km_managers km' ! k)) = set (req_ids (km_managers km ! k)) - set (map request_id rs))"
  using assms
proof (induction rs arbitrary: km)
  case Nil
  then show ?case by simp
next
  case (Cons r rs)
  obtain km1 where 1: "km_free r km = Inr km1" "km_inv env km1" "length (km_managers km1) = length (km_managers km)"
    "\<forall>k < length (km_managers km). set (req_ids (km_managers km1 ! k)) = set (req_ids (km_managers km ! k)) - {request_id r}"
    using free_inv [OF Cons.prems, of r] by blast
  obtain km2 where 2: "rfold km_free rs km1 = Inr km2" "km_inv env km2" "length (km_managers km2) = length (km_managers km1)"
    "stats_ok km1 \<longrightarrow> stats_ok km2"
    "\<forall>k < length (km_managers km1). set (req_ids (km_managers km2 ! k)) = set (req_ids (km_managers km1 ! k)) - set (map request_id rs)"
    using Cons.IH [OF 1(2)] by blast
  have "stats_ok km \<longrightarrow> stats_ok km1" using 1(1) by (auto simp: km_free_def rbind_eq_Inr)
  moreover have "set (req_ids (km_managers km2 ! k)) = set (req_ids (km_managers km ! k)) - set (map request_id (r # rs))"
    if "k < length (km_managers km)" for k
  proof -
    have "set (req_ids (km_managers km2 ! k)) = set (req_ids (km_managers km ! k)) - {request_id r} - set (map request_id rs)"
      using that 1(3,4) 2(5) by simp
    then show ?thesis by auto
  qed
  ultimately show ?case using 1 2(1-4) by (intro exI [of _ km2]) simp
qed

lemma no_requests_all_free:
  assumes "km_inv env km" "\<forall>m \<in> set (km_managers km). req_ids m = []"
  shows "\<exists>xs. pool_inv (km_pool km) xs \<and> py_len xs = num_gpu_blocks (km_pool km) - 1"
proof -
  have "mgrs_reach env (km_managers km) (km_pool km)" using assms(1) by (simp add: km_inv_def)
  then obtain xs where inv: "mgrs_inv (km_managers km) (km_pool km) xs" using mgrs_reach_inv by blast
  then have pinv: "pool_inv (km_pool km) xs" by (simp add: clients_inv_def)
  have h: "held m b = 0" if "m \<in> set (km_managers km)" for m b
    using assms(2) that by (simp add: held_def req_ids_def)
  have "refs (km_pool km) b = 0" if "usable (km_pool km) b" for b
  proof -
    have "refs (km_pool km) b = sum_list (map (\<lambda>m. held m b) (km_managers km))"
      using inv that by (simp add: clients_inv_def)
    also have "\<dots> = sum_list (map (\<lambda>m. 0) (km_managers km))" using h by (intro arg_cong [of _ _ sum_list] map_cong) auto
    also have "\<dots> = 0" by simp
    finally show ?thesis .
  qed
  then have xs: "set xs = {b. usable (km_pool km) b}" using pool_inv_free_iff [OF pinv] by blast
  have u: "{b. usable (km_pool km) b} = Blk ` {1..<nat (num_gpu_blocks (km_pool km))}" and n: "0 < num_gpu_blocks (km_pool km)"
    and d: "distinct xs"
    using pinv by (auto simp: pool_state_def pool_wf_def usable_def)
  have "length xs = nat (num_gpu_blocks (km_pool km)) - 1"
    using distinct_card [OF d] unfolding xs u by (simp add: card_image inj_on_def)
  then show ?thesis using pinv n by (intro exI [of _ xs]) (simp add: py_len_def)
qed

text \<open>
  C1. In every state the scheduler's calls can reach, the blocks are accounted for: the reference count
  of each block is the number of its entries in the tables of all managers, the free queue holds
  exactly the blocks in no table, and no request has a block twice.  The calls are those of \<open>km_step\<close>
  from the constructor on: without sink attention and without Mamba in \<^verbatim>\<open>align\<close> mode, with no external
  tokens, and for requests whose block hashes are those of their tokens.
\<close>

theorem kv_manager_reachable_accounting:
  assumes "km_reach env km"
  shows "\<exists>xs. get_all_free_blocks (km_pool km) = Some (Inr xs)
    \<and> (\<forall>b. usable (km_pool km) b \<longrightarrow> refs (km_pool km) b = sum_list (map (\<lambda>m. held m b) (single_type_managers (km_coordinator km))))
    \<and> (\<forall>b. b \<in> set xs \<longleftrightarrow> usable (km_pool km) b \<and>
         (\<forall>m \<in> set (single_type_managers (km_coordinator km)). \<forall>r. b \<notin> set (blocks_of m r)))
    \<and> (\<forall>m \<in> set (single_type_managers (km_coordinator km)). \<forall>r.
         distinct (filter (\<lambda>b. b \<noteq> null_block (km_pool km)) (blocks_of m r)))"
proof -
  have "mgrs_reach env (km_managers km) (km_pool km)" using km_reach_inv [OF assms] by (simp add: km_inv_def)
  from reach_accounting [OF this] show ?thesis by (elim exE) (intro exI, blast)
qed

theorem kv_manager_reachable_accounting_witness:
  "\<exists>km m xs. km_reach demo_env km \<and> single_type_managers (km_coordinator km) = [m] \<and> 2 \<le> py_len (blocks_of m ''a'') \<and>
     get_all_free_blocks (km_pool km) = Some (Inr xs) \<and> set xs \<inter> set (blocks_of m ''a'') = {}"
proof -
  obtain km m where k: "km_reach demo_env km" "managers (km_coordinator km) = [m]" "2 \<le> py_len (blocks_of m ''a'')"
    by (rule demo_running)
  obtain xs where xs: "get_all_free_blocks (km_pool km) = Some (Inr xs)"
    "\<forall>b. b \<in> set xs \<longleftrightarrow> usable (km_pool km) b \<and> (\<forall>m \<in> set (managers (km_coordinator km)). \<forall>r. b \<notin> set (blocks_of m r))"
    using kv_manager_reachable_accounting [OF k(1)] by blast
  then have "set xs \<inter> set (blocks_of m ''a'') = {}" using k(2) by auto
  then show ?thesis using k xs(1) by blast
qed

text \<open>
  C3. Freeing every request makes the prefix cache resettable: from any state reached without sink attention,
  Mamba in \<^verbatim>\<open>align\<close> mode and external tokens, by requests with the hashes of their tokens, calling \<open>free\<close>
  for requests that cover all ids with blocks succeeds, leaves every block but the null block free, and
  the following reset returns true and clears every block hash.
\<close>

theorem free_all_then_reset:
  assumes "km_reach env km" "\<forall>m \<in> set (single_type_managers (km_coordinator km)). set (req_ids m) \<subseteq> set (map request_id rs)"
  shows "\<exists>km1 km2. rfold km_free rs km = Inr km1 \<and> get_num_free_blocks (km_pool km1) = num_gpu_blocks (km_pool km1) - 1 \<and>
    km_reset_prefix_cache km1 = Inr (True, km2) \<and> (\<forall>b. hashes (km_pool km2) b = None)"
proof -
  obtain km1 where 1: "rfold km_free rs km = Inr km1" "km_inv env km1" "length (km_managers km1) = length (km_managers km)" "stats_ok km1"
    "\<forall>k < length (km_managers km). set (req_ids (km_managers km1 ! k)) = set (req_ids (km_managers km ! k)) - set (map request_id rs)"
    using free_all_inv [OF km_reach_inv [OF assms(1)], of rs] km_reach_stats [OF assms(1)] by blast
  have "req_ids m = []" if "m \<in> set (km_managers km1)" for m
  proof -
    obtain k where k: "k < length (km_managers km)" "m = km_managers km1 ! k" using \<open>m \<in> _\<close> 1(3) by (metis in_set_conv_nth)
    have "set (req_ids m) = set (req_ids (km_managers km ! k)) - set (map request_id rs)" using 1(5) k by blast
    also have "\<dots> = {}" using assms(2) nth_mem [OF k(1)] by blast
    finally show ?thesis by simp
  qed
  then obtain xs where xs: "pool_inv (km_pool km1) xs" "py_len xs = num_gpu_blocks (km_pool km1) - 1"
    using no_requests_all_free [OF 1(2)] by blast
  obtain p where p: "pool_reset_prefix_cache (km_pool km1) = (True, p)" "hashes p = (\<lambda>_. None)"
    using pool_reset_state [OF xs] by (cases "pool_reset_prefix_cache (km_pool km1)") auto
  have "\<exists>km2. km_reset_prefix_cache km1 = Inr (True, km2) \<and> km_pool km2 = p"
    using 1(4) p(1) by (auto simp: km_reset_prefix_cache_def stats_ok_def Let_def split: option.splits)
  then show ?thesis using 1(1) p(2) free_count [OF xs(1)] xs(2) by auto
qed

theorem free_all_then_reset_witness:
  "\<exists>km m rs km1 km2. single_type_managers (km_coordinator km) = [m] \<and> 2 \<le> py_len (blocks_of m ''a'') \<and>
     rfold km_free rs km = Inr km1 \<and> km_reset_prefix_cache km1 = Inr (True, km2)"
proof -
  obtain km m where k: "km_reach demo_env km" "managers (km_coordinator km) = [m]" "2 \<le> py_len (blocks_of m ''a'')"
    by (rule demo_running)
  obtain r :: request where "request_id r = ''a''" by (rule demo_request)
  define rs where "rs = map (\<lambda>i. r\<lparr>request_id := i\<rparr>) (req_ids m)"
  have "\<forall>m \<in> set (managers (km_coordinator km)). set (req_ids m) \<subseteq> set (map request_id rs)"
    using k(2) by (simp add: rs_def comp_def)
  from free_all_then_reset [OF k(1) this] show ?thesis using k(2,3) by blast
qed

section \<open>The shape of the results\<close>

lemma each_manager_length: "each_manager f i ms s = Inr (ms', s') \<Longrightarrow> length ms' = length ms"
  by (induction ms arbitrary: i s ms') (auto simp: rbind_eq_Inr)

lemma each_manager_count:
  assumes "each_manager f i ms s = Inr (ms', s')" "\<And>i m s m' s'. f i m s = Inr (m', s') \<Longrightarrow> n s' = Suc (n s)"
  shows "n s' = n s + length ms"
  using assms(1)
proof (induction ms arbitrary: i s ms')
  case (Cons m ms)
  then obtain m1 s1 ms1 where "f i m s = Inr (m1, s1)" "each_manager f (Suc i) ms s1 = Inr (ms1, s')" by (auto simp: rbind_eq_Inr)
  then show ?case using Cons.IH assms(2) by fastforce
qed simp

lemma phase_lengths:
  "co_remove_skipped_blocks rid n co p = Inr (co', p') \<Longrightarrow> length (managers co') = length (managers co)"
  "co_get_num_blocks_to_allocate rid tokens hits encoder n main co p = Inr (k, co') \<Longrightarrow> length (managers co') = length (managers co)"
  "co_allocate_new_computed_blocks rid hits nl ne co p = Inr (co', p') \<Longrightarrow> length (managers co') = length (managers co)"
  by (auto simp: co_remove_skipped_blocks_def co_get_num_blocks_to_allocate_def co_allocate_new_computed_blocks_def rbind_eq_Inr
      dest: each_manager_length)

lemma new_blocks_length:
  assumes "co_allocate_new_blocks rid tokens main encoder co p = Inr (new, co', p')"
  shows "length new = length (managers co)"
proof -
  obtain ms where "each_manager (\<lambda>i m (new, q). rbind (allocate_new_blocks rid (if is_cross m then encoder else tokens) main m q)
                (\<lambda>(bs, m', q'). Inr (m', (new @ [bs], q')))) 0 (managers co) ([], p) = Inr (ms, (new, p'))"
    using assms by (auto simp: co_allocate_new_blocks_def rbind_eq_Inr)
  then have "length (fst (new, p')) = length (fst ([] :: blk list list, p)) + length (managers co)"
    by (rule each_manager_count) (auto simp: rbind_eq_Inr)
  then show ?thesis by simp
qed

lemma allocate_slots_shape:
  assumes "allocate_slots env r num_new nc hits lookahead ext delay encoder km = Inr (Some b, r', km')"
    and "length (km_managers km) = km_num_groups km"
  shows "length (group_blocks b) = km_num_groups km"
  using assms(1) refl refl refl
proof (cases rule: allocate_slots_path)
  case (2 co1 p1 needed co3 co4 p4 new co5 p5 co6 p6)
  have "length (managers co3) = length (km_managers km)"
    using phase_lengths(1) [OF 2(1)] phase_lengths(2) [OF 2(2)] by (simp add: km_mark_long_request_def split: if_splits)
  moreover have "length (managers co4) = length (managers co3)"
    using 2(3) phase_lengths(3) by (auto split: if_splits)
  ultimately have "length new = km_num_groups km" using new_blocks_length [OF 2(4)] assms(2) by simp
  then show ?thesis using 2(7) by (simp add: create_kv_cache_blocks_def kv_blocks_def empty_kv_cache_blocks_def split: if_splits)
qed simp

text \<open>
  Every block list the manager hands out has one list per KV cache group: the tables of a request
  and the new blocks of an allocation, in every reachable state.
\<close>

lemma results_have_one_list_per_group:
  assumes "km_reach env km"
  shows "length (single_type_managers (km_coordinator km)) = km_num_groups km \<and>
    length (group_blocks (km_get_blocks rid km)) = km_num_groups km \<and>
    (\<forall>r num_new nc hits lookahead ext delay encoder b r' km'.
       allocate_slots env r num_new nc hits lookahead ext delay encoder km = Inr (Some b, r', km') \<longrightarrow>
       length (group_blocks b) = km_num_groups km)"
proof -
  have n: "length (km_managers km) = km_num_groups km" using km_reach_inv [OF assms] by (simp add: km_inv_def km_ready_def)
  have "length (group_blocks (km_get_blocks rid km)) = km_num_groups km"
    using n by (simp add: km_get_blocks_def co_get_blocks_def create_kv_cache_blocks_def kv_blocks_def empty_kv_cache_blocks_def)
  then show ?thesis using n allocate_slots_shape by blast
qed

section \<open>Scheduling a new request\<close>

lemma lookup_call:
  assumes reach: "km_reach env km" and km: "unitary_km km m"
    and r: "hashes_ok env (mgr_block_size m) r" "distinct (block_hashes r)" "0 < num_tokens r" "\<not> skip_reading_prefix_cache r"
      "num_computed_tokens r = 0" "num_tokens r \<le> km_max_model_len km"
    and new: "\<not> is_running m (request_id r)" "blocks_of m (request_id r) = []" "0 < num_new" "0 \<le> lookahead"
  shows "\<exists>b n km1 h. get_computed_blocks r km = Some (Inr ((b, n), km1)) \<and> 0 \<le> n \<and> n < num_tokens r \<and>
    n = py_len h * mgr_block_size m \<and> group_blocks b = [h] \<and> km_inv env km1 \<and> km_max_model_len km1 = km_max_model_len km \<and>
    (\<forall>j < length h. h ! j = null_block (km_pool km) \<or> stores (km_pool km) (h ! j) (block_hashes r ! j) 0) \<and>
    unitary_call env r num_new n (Some b) lookahead m h km1"
proof -
  have inv: "km_inv env km" and st: "stats_ok km" using km_reach_inv [OF reach] km_reach_stats [OF reach] .
  obtain h L where f: "co_find_longest_cache_hit (block_hashes r) (num_tokens r - 1) (km_coordinator km) (km_pool km) =
      Some (Inr ([h], int L * mgr_block_size m))" "length h = L" "hits_ok (km_pool km) h" "int L * mgr_block_size m < num_tokens r"
      "\<forall>j < L. h ! j = null_block (km_pool km) \<or> stores (km_pool km) (h ! j) (block_hashes r ! j) 0"
    using unitary_lookup [OF inv km r(1-3)] by blast
  have u: "managers (km_coordinator km) = [m]" "mgr_class m = FullAttentionManager" "max_admission m = None"
    "hash_block_size (km_pool km) = mgr_block_size m" "km_enable_caching km"
    using km by (simp_all add: unitary_km_def Let_def)
  have bs: "0 < mgr_block_size m" using r(1) by (simp add: hashes_ok_def)
  have ng: "km_num_groups km = 1" using inv u(1) by (simp add: km_inv_def km_ready_def)
  have "\<exists>km1. log_hit r (int L * mgr_block_size m) km = Inr km1 \<and> (km1 = km \<or> (\<exists>s. km1 = km\<lparr>km_stats := s\<rparr>))"
    using st by (cases "km_log_stats km") (auto simp: log_hit_def stats_ok_def)
  then obtain km1 where km1: "log_hit r (int L * mgr_block_size m) km = Inr km1" "km1 = km \<or> (\<exists>s. km1 = km\<lparr>km_stats := s\<rparr>)" by blast
  define b where "b = create_kv_cache_blocks km [h]"
  have b: "group_blocks b = [h]" "shared_empty b \<longrightarrow> h = []"
    using ng by (simp_all add: b_def create_kv_cache_blocks_def kv_blocks_def empty_kv_cache_blocks_def)
  have run: "get_computed_blocks r km = Some (Inr ((b, int L * mgr_block_size m), km1))"
    using f(1) km1(1) u(5) r(4) by (simp add: get_computed_blocks_def b_def)
  have same: "km_coordinator km1 = km_coordinator km" "km_pool km1 = km_pool km" "km_enable_caching km1" "km_max_model_len km1 = km_max_model_len km"
    using km1(2) u(5) by auto
  have "py_len h \<le> cdiv (int L * mgr_block_size m) (mgr_block_size m)"
    using div_le_cdiv [OF bs, of "int L * mgr_block_size m"] bs f(2) by (simp add: py_len_def)
  then have "unitary_call env r num_new (int L * mgr_block_size m) (Some b) lookahead m h km1"
    using u b same r new f(3,4) by (simp add: unitary_call_def slots_ready_def blocks_or_empty_def Let_def)
  moreover have "km_inv env km1" using lookup_inv [OF run inv] .
  ultimately show ?thesis
    using run f(2,4,5) bs b(1) same(4)
    by (intro exI [of _ b] exI [of _ "int L * mgr_block_size m"] exI [of _ km1] exI [of _ h]) (simp add: py_len_def)
qed

text \<open>
  C2. Scheduling a new request of a model with one full-attention group, with caching, without context
  parallelism and external tokens, never raises when its hashes are those of its tokens: looking up its
  prefix returns a hit shorter than the request whose blocks are registered under the request's own
  hashes, and allocating slots behind it either answers \<^verbatim>\<open>None\<close> and leaves the state as it was, or gives
  a table that starts with the hit and covers all slots.
\<close>

theorem new_request_never_raises:
  assumes "km_reach env km" "unitary_km km m"
    and "hashes_ok env (mgr_block_size m) r" "distinct (block_hashes r)" "0 < num_tokens r" "\<not> skip_reading_prefix_cache r"
      "num_computed_tokens r = 0" "num_tokens r \<le> km_max_model_len km"
    and "\<not> is_running m (request_id r)" "blocks_of m (request_id r) = []" "0 < num_new" "0 \<le> lookahead"
  shows "\<exists>b n km1. get_computed_blocks r km = Some (Inr ((b, n), km1)) \<and> 0 \<le> n \<and> n < num_tokens r \<and>
    (\<forall>j < length (group_blocks b ! 0). group_blocks b ! 0 ! j = null_block (km_pool km) \<or>
       stores (km_pool km) (group_blocks b ! 0 ! j) (block_hashes r ! j) 0) \<and>
    (allocate_slots env r num_new n (Some b) lookahead 0 delay encoder km1 = Inr (None, r, km1) \<or>
     (\<exists>new r' km2 m'. allocate_slots env r num_new n (Some b) lookahead 0 delay encoder km1 = Inr (Some new, r', km2) \<and>
        single_type_managers (km_coordinator km2) = [m'] \<and>
        take (length (group_blocks b ! 0)) (blocks_of m' (request_id r)) = group_blocks b ! 0 \<and>
        cdiv (min (n + num_new + lookahead) (km_max_model_len km)) (mgr_block_size m) \<le> py_len (blocks_of m' (request_id r))))"
proof -
  obtain b n km1 h where c: "get_computed_blocks r km = Some (Inr ((b, n), km1))" "0 \<le> n" "n < num_tokens r"
    "group_blocks b = [h]" "km_inv env km1" "km_max_model_len km1 = km_max_model_len km"
    "\<forall>j < length h. h ! j = null_block (km_pool km) \<or> stores (km_pool km) (h ! j) (block_hashes r ! j) 0"
    "unitary_call env r num_new n (Some b) lookahead m h km1"
    using lookup_call [OF assms] by blast
  define slot where "slot = min (num_computed_tokens r + n + num_new + lookahead) (km_max_model_len km1)"
  define k where "k = max (cdiv slot (mgr_block_size m) - py_len (blocks_of m (request_id r) @ h)) 0 + get_num_evictable_blocks h (km_pool km1)"
  note u = unitary_slots [OF c(5,8) slot_def k_def, of delay encoder]
  have "(allocate_slots env r num_new n (Some b) lookahead 0 delay encoder km1 = Inr (None, r, km1) \<or>
     (\<exists>new r' km2 m'. allocate_slots env r num_new n (Some b) lookahead 0 delay encoder km1 = Inr (Some new, r', km2) \<and>
        single_type_managers (km_coordinator km2) = [m'] \<and> take (length h) (blocks_of m' (request_id r)) = h \<and>
        cdiv slot (mgr_block_size m) \<le> py_len (blocks_of m' (request_id r))))"
    using u assms(10) unfolding append_Nil by (metis append_Nil not_less)
  then show ?thesis
    using c(1-4,6,7) assms(7) unfolding slot_def by (intro exI [of _ b] exI [of _ n] exI [of _ km1]) simp
qed

theorem new_request_never_raises_witness:
  "\<exists>km r b n km1. km_reach demo_env km \<and> num_tokens (r :: request) = 3 \<and> get_computed_blocks r km = Some (Inr ((b, n), km1)) \<and>
     (\<exists>res r' km2. allocate_slots demo_env r 3 n (Some b) 0 0 False 0 km1 = Inr (res, r', km2))"
proof -
  obtain km m where k: "km_reach demo_env km" "unitary_km km m" "req_to_blocks m = []" "num_cached_block m = []"
    "km_max_model_len km = 100" "mgr_block_size m = 2"
    by (rule demo_km)
  obtain r where r: "hashes_ok demo_env 2 r" "length (block_hashes r) = 1" "num_tokens r = 3" "num_computed_tokens r = 0"
    "\<not> skip_reading_prefix_cache r"
    by (rule demo_request)
  have "distinct (block_hashes r)" using r(2) by (cases "block_hashes r") auto
  then obtain b n km1 where "get_computed_blocks r km = Some (Inr ((b, n), km1))"
    "allocate_slots demo_env r 3 n (Some b) 0 0 False 0 km1 = Inr (None, r, km1) \<or>
     (\<exists>new r' km2 m'. allocate_slots demo_env r 3 n (Some b) 0 0 False 0 km1 = Inr (Some new, r', km2))"
    using new_request_never_raises [OF k(1,2), of r 3 0 False 0] r k(3-6) by (auto simp: is_running_def blocks_of_def)
  then show ?thesis using k(1) r(3) by blast
qed

end
