(* ===== verification/Sched_Utils.thy ===== *)
theory Sched_Utils
  imports Request
begin

text \<open>
  \<^verbatim>\<open>vllm/v1/core/sched/utils.py\<close>: the stop conditions of a request and the detection of repeated
  output.  Token lists are indexed from the end, with Python's negative indices.
\<close>

section \<open>Repetition\<close>

fun match_copies :: "int list \<Rightarrow> int \<Rightarrow> int \<Rightarrow> int \<Rightarrow> int list \<Rightarrow> bool res" where
  "match_copies toks len n target [] = Inr True"
| "match_copies toks len n target (m # ms) =
     rbind (py_get toks (- (len * m + n))) (\<lambda>t.
       if t \<noteq> target then Inr False else match_copies toks len n target ms)"

fun pattern_loop :: "int list \<Rightarrow> int \<Rightarrow> int \<Rightarrow> int list \<Rightarrow> bool res" where
  "pattern_loop toks len cnt [] = Inr True"
| "pattern_loop toks len cnt (n # ns) =
     rbind (py_get toks (- n)) (\<lambda>target.
     rbind (match_copies toks len n target [1..cnt - 1]) (\<lambda>same.
       if same then pattern_loop toks len cnt ns else Inr False))"

definition has_repeating_pattern :: "int list \<Rightarrow> int \<Rightarrow> int \<Rightarrow> bool res" where
  "has_repeating_pattern toks len cnt = pattern_loop toks len cnt [1..len]"

fun repetition_loop :: "int list \<Rightarrow> int \<Rightarrow> int list \<Rightarrow> bool res" where
  "repetition_loop toks cnt [] = Inr False"
| "repetition_loop toks cnt (len # lens) =
     (if py_len toks < len * cnt then Inr False
      else rbind (has_repeating_pattern toks len cnt) (\<lambda>found.
             if found then Inr True else repetition_loop toks cnt lens))"

definition check_sequence_repetition :: "int list \<Rightarrow> repetition_params \<Rightarrow> bool res" where
  "check_sequence_repetition toks ps =
     (let lo = (if min_pattern_size ps \<le> 0 then 1 else min_pattern_size ps)
      in if max_pattern_size ps \<le> 0 \<or> min_count ps < 2 \<or> max_pattern_size ps < lo then Inr False
         else repetition_loop toks (min_count ps) [lo..max_pattern_size ps])"

section \<open>Lists and stop conditions\<close>

text \<open>The set of items is a list without duplicates.\<close>

definition remove_all :: "'a list \<Rightarrow> 'a list \<Rightarrow> 'a list" where
  "remove_all xs items =
     (case items of
        [] \<Rightarrow> xs
      | [x] \<Rightarrow> remove1 x xs
      | _ \<Rightarrow> filter (\<lambda>x. x \<notin> set items) xs)"

definition check_stop :: "request \<Rightarrow> int \<Rightarrow> (bool \<times> request) res" where
  "check_stop r max_len =
     rbind (py_assert (pooling_params_of r = None)) (\<lambda>_.
     case sampling_params_of r of
       None \<Rightarrow> Inl AssertionError
     | Some sp \<Rightarrow>
         if num_output_tokens r < min_tokens sp then Inr (False, r)
         else rbind (py_get (output_token_ids r) (-1)) (\<lambda>t.
           if Some t = eos_token_id sp then Inr (True, r\<lparr>status := FINISHED_STOPPED\<rparr>)
           else if t \<in> set (stop_token_ids sp)
           then Inr (True, r\<lparr>status := FINISHED_STOPPED, stop_reason_of := Some (StopToken t)\<rparr>)
           else if max_len \<le> num_tokens r \<or> max_tokens r \<le> num_output_tokens r
           then Inr (True, r\<lparr>status := FINISHED_LENGTH_CAPPED\<rparr>)
           else case repetition_detection sp of
                  None \<Rightarrow> Inr (False, r)
                | Some ps \<Rightarrow>
                    rbind (check_sequence_repetition (output_token_ids r) ps) (\<lambda>found.
                      if found
                      then Inr (True, r\<lparr>status := FINISHED_REPETITION,
                                        stop_reason_of := Some (StopString ''repetition_detected'')\<rparr>)
                      else Inr (False, r))))"

section \<open>What a repetition is\<close>

lemma nth_concat_replicate:
  "k < n * length xs \<Longrightarrow> concat (replicate n xs) ! k = xs ! (k mod length xs)"
proof (induction n arbitrary: k)
  case (Suc n)
  then show ?case by (cases "k < length xs") (simp_all add: nth_append le_mod_geq)
qed simp

lemma py_get_end:
  assumes "1 \<le> k" "k \<le> py_len xs"
  shows "py_get xs (- k) = Inr (xs ! (length xs - nat k))"
  using assms by (simp add: py_get_def py_len_def Let_def nat_diff_distrib' [symmetric] nat_minus_as_int)

lemma match_copies_eq:
  assumes "\<forall>m \<in> set ms. 1 \<le> len * m + n \<and> len * m + n \<le> py_len toks"
  shows "match_copies toks len n target ms = Inr (\<forall>m \<in> set ms. toks ! (length toks - nat (len * m + n)) = target)"
  using assms
proof (induction ms)
  case (Cons m ms)
  then have "py_get toks (- (len * m + n)) = Inr (toks ! (length toks - nat (len * m + n)))" by (intro py_get_end) auto
  then show ?case using Cons by (simp del: minus_add_distrib)
qed simp

lemma pattern_loop_eq:
  assumes "\<forall>n \<in> set ns. 1 \<le> n \<and> n \<le> len" "1 \<le> cnt" "len * cnt \<le> py_len toks"
  shows "pattern_loop toks len cnt ns =
    Inr (\<forall>n \<in> set ns. \<forall>m \<in> {1..cnt - 1}. toks ! (length toks - nat (len * m + n)) = toks ! (length toks - nat n))"
  using assms(1)
proof (induction ns)
  case (Cons n ns)
  have n: "1 \<le> n" "n \<le> len" using Cons.prems by auto
  have le: "1 \<le> len * m + n \<and> len * m + n \<le> py_len toks" if "m \<in> {0..cnt - 1}" for m
  proof -
    have "len * m + n \<le> len * (cnt - 1) + len" using that n by (intro add_mono mult_left_mono) auto
    also have "\<dots> = len * cnt" by (simp add: algebra_simps)
    finally have "len * m + n \<le> py_len toks" using assms(3) by simp
    moreover have "0 \<le> len * m" using that n by simp
    ultimately show ?thesis using n by simp
  qed
  have "py_get toks (- n) = Inr (toks ! (length toks - nat n))" using le [of 0] n assms(2) by (intro py_get_end) auto
  moreover have "match_copies toks len n t [1..cnt - 1] =
      Inr (\<forall>m \<in> {1..cnt - 1}. toks ! (length toks - nat (len * m + n)) = t)" for t
    using match_copies_eq [of "[1..cnt - 1]" len n toks t] le by auto
  ultimately show ?case using Cons by simp
qed simp

text \<open>The last \<open>cnt\<close> times \<open>len\<close> tokens are \<open>cnt\<close> copies of a pattern.\<close>

definition ends_with_copies :: "int list \<Rightarrow> nat \<Rightarrow> nat \<Rightarrow> bool" where
  "ends_with_copies toks len cnt \<longleftrightarrow> (\<exists>pre pat. toks = pre @ concat (replicate cnt pat) \<and> length pat = len)"

lemma copies_nth:
  assumes "0 < len" "0 < cnt" "len * cnt \<le> length toks"
  shows "ends_with_copies toks len cnt \<longleftrightarrow>
    (\<forall>n m. 1 \<le> n \<and> n \<le> len \<and> 1 \<le> m \<and> m < cnt \<longrightarrow> toks ! (length toks - (len * m + n)) = toks ! (length toks - n))"
    (is "_ \<longleftrightarrow> ?eq")
proof
  assume "ends_with_copies toks len cnt"
  then obtain pre pat where t: "toks = pre @ concat (replicate cnt pat)" "length pat = len" by (auto simp: ends_with_copies_def)
  have at: "toks ! (length toks - (len * m + n)) = pat ! (len - n)" if nm: "1 \<le> n" "n \<le> len" "m < cnt" for n m
  proof -
    obtain d where d: "cnt = m + 1 + d" using nm(3) less_imp_Suc_add by force
    have len: "length (concat (replicate cnt pat)) = cnt * len" using t(2) by (simp add: length_concat sum_list_replicate)
    have k: "cnt * len - (len * m + n) = len * d + (len - n)" using nm(2) unfolding d by (simp add: algebra_simps)
    have "len * d + (len - n) < cnt * len" using nm(1) assms(1) unfolding d by (simp add: algebra_simps)
    then have "concat (replicate cnt pat) ! (len * d + (len - n)) = pat ! ((len * d + (len - n)) mod len)"
      using nth_concat_replicate [of _ cnt pat] t(2) by simp
    moreover have "(len * d + (len - n)) mod len = len - n" using nm(1) assms(1) by simp
    moreover have "length toks - (len * m + n) = length pre + (cnt * len - (len * m + n))"
      using t(1) len nm(2) unfolding d by (simp add: algebra_simps)
    ultimately show ?thesis using t(1) k by (simp add: nth_append)
  qed
  show ?eq using at at [of _ 0] assms(2) by simp
next
  assume eq: ?eq
  define pat where "pat = drop (length toks - len) toks"
  define pre where "pre = take (length toks - len * cnt) toks"
  have "len \<le> len * cnt" using assms(2) by simp
  then have "len \<le> length toks" using assms(3) by (rule order_trans)
  then have lp: "length pat = len" by (simp add: pat_def)
  have len: "length (concat (replicate cnt pat)) = cnt * len" using lp by (simp add: length_concat sum_list_replicate)
  have "drop (length toks - len * cnt) toks = concat (replicate cnt pat)"
  proof (rule nth_equalityI)
    show "length (drop (length toks - len * cnt) toks) = length (concat (replicate cnt pat))"
      using len assms(3) by (simp add: mult.commute)
    fix k assume "k < length (drop (length toks - len * cnt) toks)"
    then have k: "k < cnt * len" using assms(3) by (simp add: mult.commute)
    define q where "q = k div len"
    define i where "i = k mod len"
    have qi: "k = len * q + i" "i < len" "q < cnt" using assms(1) k by (simp_all add: q_def i_def less_mult_imp_div_less)
    obtain d where d: "cnt = q + 1 + d" using qi(3) less_imp_Suc_add by force
    have pos: "length toks - len * cnt + k = length toks - (len * d + (len - i))"
      using assms(3) qi(1,2) unfolding d by (simp add: algebra_simps)
    have "toks ! (length toks - (len * d + (len - i))) = toks ! (length toks - (len - i))"
    proof (cases "d = 0")
      case False
      then show ?thesis using eq [rule_format, of "len - i" d] qi(2) by (simp add: d)
    qed simp
    also have "\<dots> = pat ! i" using qi(2) lp by (simp add: pat_def)
    finally show "drop (length toks - len * cnt) toks ! k = concat (replicate cnt pat) ! k"
      using pos k lp nth_concat_replicate [of k cnt pat] assms(3) by (simp add: i_def)
  qed
  then have "toks = pre @ concat (replicate cnt pat)" by (metis pre_def append_take_drop_id)
  then show "ends_with_copies toks len cnt" using lp by (auto simp: ends_with_copies_def)
qed

lemma has_repeating_pattern_eq:
  assumes "1 \<le> len" "1 \<le> cnt" "len * cnt \<le> py_len toks"
  shows "has_repeating_pattern toks len cnt = Inr (ends_with_copies toks (nat len) (nat cnt))"
proof -
  have "nat len * nat cnt \<le> length toks" using assms by (simp add: py_len_def nat_mult_distrib [symmetric] nat_le_iff)
  then have c: "ends_with_copies toks (nat len) (nat cnt) \<longleftrightarrow>
    (\<forall>n m. 1 \<le> n \<and> n \<le> nat len \<and> 1 \<le> m \<and> m < nat cnt \<longrightarrow> toks ! (length toks - (nat len * m + n)) = toks ! (length toks - n))"
    using assms by (intro copies_nth) auto
  have "(\<forall>n \<in> {1..len}. \<forall>m \<in> {1..cnt - 1}. toks ! (length toks - nat (len * m + n)) = toks ! (length toks - nat n)) \<longleftrightarrow>
    (\<forall>n m. 1 \<le> n \<and> n \<le> nat len \<and> 1 \<le> m \<and> m < nat cnt \<longrightarrow> toks ! (length toks - (nat len * m + n)) = toks ! (length toks - n))"
    (is "?int \<longleftrightarrow> ?nat")
  proof
    assume ?int
    then show ?nat
    proof (intro allI impI)
      fix n m assume nm: "1 \<le> n \<and> n \<le> nat len \<and> 1 \<le> m \<and> m < nat cnt"
      have "nat (len * int m + int n) = nat len * m + n" using assms(1) by (simp add: nat_add_distrib nat_mult_distrib)
      moreover have "int n \<le> len" "int m < cnt" using nm assms by linarith+
      ultimately show "toks ! (length toks - (nat len * m + n)) = toks ! (length toks - n)"
        using bspec [OF bspec [OF \<open>?int\<close>, of "int n"], of "int m"] nm by simp
    qed
  next
    assume n: ?nat
    show ?int
    proof (intro ballI)
      fix n m assume nm: "n \<in> {1..len}" "m \<in> {1..cnt - 1}"
      have "nat (len * m + n) = nat len * nat m + nat n" using nm assms(1) by (simp add: nat_add_distrib nat_mult_distrib)
      then show "toks ! (length toks - nat (len * m + n)) = toks ! (length toks - nat n)"
        using n [rule_format, of "nat n" "nat m"] nm by (simp add: nat_le_iff Suc_le_eq nat_less_eq_zless)
    qed
  qed
  then show ?thesis
    using pattern_loop_eq [of "[1..len]" len cnt toks] assms c by (simp add: has_repeating_pattern_def)
qed

lemma repetition_loop_eq:
  assumes "1 \<le> cnt" "1 \<le> lo"
  shows "repetition_loop toks cnt [lo..hi] =
    Inr (\<exists>len \<in> {lo..hi}. len * cnt \<le> py_len toks \<and> ends_with_copies toks (nat len) (nat cnt))"
  using assms(2)
proof (induction "nat (hi - lo + 1)" arbitrary: lo)
  case 0
  then show ?case by simp
next
  case (Suc d)
  then have le: "lo \<le> hi" by simp
  then have up: "[lo..hi] = lo # [lo + 1..hi]" by (simp add: upto_rec1)
  have split: "{lo..hi} = insert lo {lo + 1..hi}" using le by auto
  show ?case
  proof (cases "py_len toks < lo * cnt")
    case True
    have "py_len toks < len * cnt" if "lo \<le> len" for len
      using True mult_right_mono [OF that, of cnt] assms(1) by linarith
    then show ?thesis using True up by (auto simp: not_le)
  next
    case False
    then have "has_repeating_pattern toks lo cnt = Inr (ends_with_copies toks (nat lo) (nat cnt))"
      using Suc.prems assms(1) by (intro has_repeating_pattern_eq) auto
    moreover have "repetition_loop toks cnt [lo + 1..hi] =
        Inr (\<exists>len \<in> {lo + 1..hi}. len * cnt \<le> py_len toks \<and> ends_with_copies toks (nat len) (nat cnt))"
      using Suc.hyps(1) [of "lo + 1"] Suc.hyps(2) Suc.prems by simp
    ultimately show ?thesis using up False unfolding split by auto
  qed
qed

text \<open>
  C21. \<open>check_sequence_repetition\<close> never raises and answers true exactly when, for some pattern length
  between the configured bounds, the output ends with at least \<open>min_count\<close> copies of a pattern of that
  length; with a non-positive maximum, fewer than two copies or an empty range it answers false.
\<close>

theorem repetition_iff_copies:
  "check_sequence_repetition toks ps =
    Inr (2 \<le> min_count ps \<and> (\<exists>len. max 1 (min_pattern_size ps) \<le> len \<and> len \<le> max_pattern_size ps \<and>
      (\<exists>pre pat. toks = pre @ concat (replicate (nat (min_count ps)) pat) \<and> int (length pat) = len)))"
proof -
  let ?lo = "if min_pattern_size ps \<le> 0 then 1 else min_pattern_size ps"
  have lo: "?lo = max 1 (min_pattern_size ps)" by auto
  have copies: "len * min_count ps \<le> py_len toks \<and> ends_with_copies toks (nat len) (nat (min_count ps)) \<longleftrightarrow>
      (\<exists>pre pat. toks = pre @ concat (replicate (nat (min_count ps)) pat) \<and> int (length pat) = len)"
    if "1 \<le> len" "2 \<le> min_count ps" for len
  proof
    assume "\<exists>pre pat. toks = pre @ concat (replicate (nat (min_count ps)) pat) \<and> int (length pat) = len"
    then obtain pre pat where t: "toks = pre @ concat (replicate (nat (min_count ps)) pat)" "int (length pat) = len" by blast
    then have "len * min_count ps \<le> py_len toks" using that by (simp add: py_len_def length_concat sum_list_replicate mult.commute)
    moreover have "ends_with_copies toks (nat len) (nat (min_count ps))" unfolding ends_with_copies_def
      using t by (intro exI [of _ pre] exI [of _ pat]) auto
    ultimately show "len * min_count ps \<le> py_len toks \<and> ends_with_copies toks (nat len) (nat (min_count ps))" by blast
  next
    assume "len * min_count ps \<le> py_len toks \<and> ends_with_copies toks (nat len) (nat (min_count ps))"
    then obtain pre pat where "toks = pre @ concat (replicate (nat (min_count ps)) pat)" "length pat = nat len"
      by (auto simp: ends_with_copies_def)
    then show "\<exists>pre pat. toks = pre @ concat (replicate (nat (min_count ps)) pat) \<and> int (length pat) = len"
      using that by (intro exI [of _ pre] exI [of _ pat]) simp
  qed
  show ?thesis
  proof (cases "max_pattern_size ps \<le> 0 \<or> min_count ps < 2 \<or> max_pattern_size ps < ?lo")
    case True
    then show ?thesis unfolding check_sequence_repetition_def Let_def lo by auto
  next
    case False
    then have "check_sequence_repetition toks ps = Inr (\<exists>len \<in> {?lo..max_pattern_size ps}.
        len * min_count ps \<le> py_len toks \<and> ends_with_copies toks (nat len) (nat (min_count ps)))"
      using repetition_loop_eq [of "min_count ps" ?lo toks "max_pattern_size ps"] unfolding check_sequence_repetition_def Let_def by auto
    also have "(\<exists>len \<in> {?lo..max_pattern_size ps}.
        len * min_count ps \<le> py_len toks \<and> ends_with_copies toks (nat len) (nat (min_count ps))) \<longleftrightarrow>
      (\<exists>len \<in> {?lo..max_pattern_size ps}. \<exists>pre pat. toks = pre @ concat (replicate (nat (min_count ps)) pat) \<and> int (length pat) = len)"
      by (rule bex_cong [OF refl copies]) (use False in \<open>auto split: if_splits\<close>)
    finally show ?thesis using False unfolding lo Bex_def atLeastAtMost_iff conj_assoc by (simp only: not_less de_Morgan_disj simp_thms)
  qed
qed

end
