(* ===== verification/Encoder_Cache.thy ===== *)
theory Encoder_Cache
  imports Request
begin

text \<open>
  \<^verbatim>\<open>vllm/v1/core/encoder_cache_manager.py\<close>: the cache of multi-modal encoder outputs
  (\<open>encoder_cache\<close>), the bookkeeping for encoder-decoder models (\<open>encdec_cache\<close>), the encoder
  budget, and the methods of \<^verbatim>\<open>vllm/v1/core/sched/scheduler.py\<close> that drive them
  (\<open>try_schedule_encoder_inputs\<close>, \<open>free_encoder_inputs\<close>).  Sizes are numbers of embeddings of a
  \<^verbatim>\<open>PlaceholderRange\<close> (\<^verbatim>\<open>vllm/multimodal/inputs.py\<close>).
\<close>

section \<open>Placeholder ranges\<close>

fun cumsum :: "int \<Rightarrow> bool list \<Rightarrow> int list" where
  "cumsum acc [] = []"
| "cumsum acc (b # bs) = (let s = acc + (if b then 1 else 0) in s # cumsum s bs)"

definition embeds_cumsum :: "mm_feature \<Rightarrow> int list option" where
  "embeds_cumsum f = map_option (cumsum 0) (is_embed f)"

definition get_num_embeds :: "mm_feature \<Rightarrow> int" where
  "get_num_embeds f =
     (case embeds_cumsum f of
        None \<Rightarrow> mm_length f
      | Some cs \<Rightarrow> if cs = [] then 0 else last cs)"

definition get_embeds_indices_in_range :: "mm_feature \<Rightarrow> int \<Rightarrow> int \<Rightarrow> (int \<times> int) res" where
  "get_embeds_indices_in_range f start_idx end_idx =
     (case embeds_cumsum f of
        None \<Rightarrow> Inr (start_idx, end_idx)
      | Some cs \<Rightarrow>
          rbind (if 0 < start_idx then py_get cs (start_idx - 1) else Inr 0) (\<lambda>a.
          rbind (if 0 < end_idx then py_get cs (end_idx - 1) else Inr 0) (\<lambda>b. Inr (a, b))))"

definition get_num_encoder_embeds :: "request \<Rightarrow> int \<Rightarrow> int res" where
  "get_num_encoder_embeds r i =
     rbind (py_assert (i < py_len (mm_features r))) (\<lambda>_.
     rbind (py_get (mm_features r) i) (\<lambda>f. Inr (get_num_embeds f)))"

section \<open>The multi-modal encoder cache\<close>

record encoder_cache =
  ec_cache_size :: int
  num_free_slots :: int
  num_freeable_slots :: int
  cached :: "(string \<times> string set) list"
  freeable :: "(string \<times> int) list"
  freed :: "string list"

definition encoder_cache_init :: "int \<Rightarrow> encoder_cache" where
  "encoder_cache_init n =
     \<lparr>ec_cache_size = n, num_free_slots = n, num_freeable_slots = n, cached = [], freeable = [], freed = []\<rparr>"

definition encoder_cache_reset :: "encoder_cache \<Rightarrow> encoder_cache" where
  "encoder_cache_reset m =
     m\<lparr>cached := [], freeable := [], freed := [],
       num_free_slots := ec_cache_size m, num_freeable_slots := ec_cache_size m\<rparr>"

definition check_and_update_cache :: "request \<Rightarrow> int \<Rightarrow> encoder_cache \<Rightarrow> (bool \<times> encoder_cache) res" where
  "check_and_update_cache r i m =
     rbind (py_get (mm_features r) i) (\<lambda>f.
       let h = mm_identifier f
       in case map_of (cached m) h of
            None \<Rightarrow> Inr (False, m)
          | Some refs \<Rightarrow>
              rbind (if refs = {}
                     then case map_of (freeable m) h of
                            None \<Rightarrow> Inl KeyError
                          | Some n \<Rightarrow> Inr (m\<lparr>freeable := AList.delete h (freeable m),
                                              num_freeable_slots := num_freeable_slots m - n\<rparr>)
                     else Inr m)
                (\<lambda>m'. Inr (True, m'\<lparr>cached := AList.update h (insert (request_id r) refs) (cached m')\<rparr>)))"

text \<open>\<^verbatim>\<open>popitem(last=False)\<close> takes the oldest entry and raises \<open>KeyError\<close> on an empty dict.\<close>

function evict_loop :: "int \<Rightarrow> encoder_cache \<Rightarrow> encoder_cache res" where
  "evict_loop n m =
     (if n \<le> num_free_slots m then Inr m
      else case freeable m of
             [] \<Rightarrow> Inl KeyError
           | (h, k) # rest \<Rightarrow>
               (case map_of (cached m) h of
                  None \<Rightarrow> Inl KeyError
                | Some _ \<Rightarrow>
                    evict_loop n (m\<lparr>freeable := rest, cached := AList.delete h (cached m),
                                    freed := freed m @ [h], num_free_slots := num_free_slots m + k\<rparr>)))"
  by pat_completeness auto
termination
  by (relation "measure (\<lambda>(n, m). length (freeable m))") auto

declare evict_loop.simps [simp del]

definition can_allocate :: "request \<Rightarrow> int \<Rightarrow> int \<Rightarrow> int \<Rightarrow> encoder_cache \<Rightarrow> (bool \<times> encoder_cache) res" where
  "can_allocate r i budget to_schedule m =
     rbind (get_num_encoder_embeds r i) (\<lambda>num.
       if budget < num then Inr (False, m)
       else let n = num + to_schedule
            in if n \<le> num_free_slots m then Inr (True, m)
               else if num_freeable_slots m < n then Inr (False, m)
               else rbind (evict_loop n m) (\<lambda>m'. Inr (True, m')))"

definition allocate :: "request \<Rightarrow> int \<Rightarrow> encoder_cache \<Rightarrow> encoder_cache res" where
  "allocate r i m =
     rbind (py_get (mm_features r) i) (\<lambda>f.
       let h = mm_identifier f;
           refs = (case map_of (cached m) h of None \<Rightarrow> {} | Some refs \<Rightarrow> refs)
       in rbind (get_num_encoder_embeds r i) (\<lambda>n.
          rbind (py_assert (n \<le> num_free_slots m)) (\<lambda>_.
          rbind (py_assert (n \<le> num_freeable_slots m)) (\<lambda>_.
            Inr (m\<lparr>cached := AList.update h (insert (request_id r) refs) (cached m),
                   num_free_slots := num_free_slots m - n,
                   num_freeable_slots := num_freeable_slots m - n\<rparr>)))))"

definition get_cached_input_ids :: "request \<Rightarrow> encoder_cache \<Rightarrow> int set" where
  "get_cached_input_ids r m =
     set (filter (\<lambda>i. mm_identifier (mm_features r ! nat i) \<in> fst ` set (cached m))
            [0..py_len (mm_features r) - 1])"

definition free_encoder_input :: "request \<Rightarrow> int \<Rightarrow> encoder_cache \<Rightarrow> encoder_cache res" where
  "free_encoder_input r i m =
     rbind (py_get (mm_features r) i) (\<lambda>f.
       let h = mm_identifier f
       in case map_of (cached m) h of
            None \<Rightarrow> Inr m
          | Some refs \<Rightarrow>
              if refs = {} then Inr m
              else let refs' = refs - {request_id r};
                       m' = m\<lparr>cached := AList.update h refs' (cached m)\<rparr>
                   in if refs' = {}
                      then rbind (get_num_encoder_embeds r i) (\<lambda>n.
                             Inr (m'\<lparr>freeable := AList.update h n (freeable m'),
                                     num_freeable_slots := num_freeable_slots m' + n\<rparr>))
                      else Inr m')"

text \<open>
  \<^verbatim>\<open>free\<close> walks over the set of the cached inputs; \<open>ids\<close> is that set in the order of the
  iteration, which Python does not fix.
\<close>

definition free_encoder :: "int list \<Rightarrow> request \<Rightarrow> encoder_cache \<Rightarrow> encoder_cache res" where
  "free_encoder ids r m = rfold (free_encoder_input r) ids m"

definition get_freed_mm_hashes :: "encoder_cache \<Rightarrow> string list \<times> encoder_cache" where
  "get_freed_mm_hashes m = (freed m, m\<lparr>freed := []\<rparr>)"

section \<open>The encoder budget\<close>

record encoder_config =
  disable_chunked_mm_input :: bool
  max_num_batched_tokens :: int
  max_num_encoder_input_tokens :: int
  encoder_cache_size :: int

definition compute_mm_encoder_budget :: "encoder_config \<Rightarrow> (string \<times> int) list \<Rightarrow> (int \<times> int) res" where
  "compute_mm_encoder_budget cfg items =
     (if items = [] then Inr (0, 0)
      else let most = Max (set (map snd items))
           in if disable_chunked_mm_input cfg \<and> max_num_batched_tokens cfg < most then Inl ValueError
              else Inr (max (max_num_encoder_input_tokens cfg) most, max (encoder_cache_size cfg) most))"

section \<open>Encoder-decoder models\<close>

record encdec_cache =
  ed_cache_size :: int
  ed_free_slots :: int
  ed_allocated :: "string list"
  ed_to_free :: "string list"

definition encdec_init :: "int \<Rightarrow> encdec_cache" where
  "encdec_init n = \<lparr>ed_cache_size = n, ed_free_slots = n, ed_allocated = [], ed_to_free = []\<rparr>"

definition encdec_reset :: "encdec_cache \<Rightarrow> encdec_cache" where
  "encdec_reset m = m\<lparr>ed_free_slots := ed_cache_size m, ed_allocated := [], ed_to_free := []\<rparr>"

definition encdec_can_allocate :: "request \<Rightarrow> int \<Rightarrow> int \<Rightarrow> int \<Rightarrow> encdec_cache \<Rightarrow> bool res" where
  "encdec_can_allocate r i budget to_schedule m =
     rbind (get_num_encoder_embeds r i) (\<lambda>num.
       if budget < num then Inr False else Inr (num + to_schedule \<le> ed_free_slots m))"

definition encdec_allocate :: "request \<Rightarrow> int \<Rightarrow> encdec_cache \<Rightarrow> encdec_cache res" where
  "encdec_allocate r i m =
     rbind (get_num_encoder_embeds r i) (\<lambda>n.
     rbind (py_get (mm_features r) i) (\<lambda>f.
       Inr (m\<lparr>ed_free_slots := ed_free_slots m - n, ed_allocated := ed_allocated m @ [mm_identifier f]\<rparr>)))"

definition encdec_free_encoder_input :: "request \<Rightarrow> int \<Rightarrow> encdec_cache \<Rightarrow> encdec_cache res" where
  "encdec_free_encoder_input r i m =
     rbind (get_num_encoder_embeds r i) (\<lambda>n. Inr (m\<lparr>ed_free_slots := ed_free_slots m + n\<rparr>))"

definition encdec_free :: "request \<Rightarrow> encdec_cache \<Rightarrow> encdec_cache res" where
  "encdec_free r m = rfold (encdec_free_encoder_input r) [0..py_len (mm_features r) - 1] m"

definition encdec_get_cached_input_ids :: "request \<Rightarrow> int set" where
  "encdec_get_cached_input_ids r = set [0..py_len (mm_features r) - 1]"

definition encdec_get_freed_mm_hashes :: "encdec_cache \<Rightarrow> string list \<times> encdec_cache" where
  "encdec_get_freed_mm_hashes m =
     (ed_to_free m, m\<lparr>ed_to_free := ed_allocated m, ed_allocated := []\<rparr>)"

section \<open>The scheduler's side\<close>

text \<open>The manager the scheduler creates: the second class for encoder-decoder models.\<close>

datatype encoder_manager = MultiModal encoder_cache | EncDec encdec_cache

fun is_encoder_decoder :: "encoder_manager \<Rightarrow> bool" where
  "is_encoder_decoder (EncDec m) = True"
| "is_encoder_decoder (MultiModal m) = False"

fun em_check :: "request \<Rightarrow> int \<Rightarrow> encoder_manager \<Rightarrow> (bool \<times> encoder_manager) res" where
  "em_check r i (MultiModal m) = rbind (check_and_update_cache r i m) (\<lambda>(b, m'). Inr (b, MultiModal m'))"
| "em_check r i (EncDec m) = Inr (False, EncDec m)"

fun em_can_allocate :: "request \<Rightarrow> int \<Rightarrow> int \<Rightarrow> int \<Rightarrow> encoder_manager \<Rightarrow> (bool \<times> encoder_manager) res" where
  "em_can_allocate r i budget n (MultiModal m) =
     rbind (can_allocate r i budget n m) (\<lambda>(b, m'). Inr (b, MultiModal m'))"
| "em_can_allocate r i budget n (EncDec m) = rbind (encdec_can_allocate r i budget n m) (\<lambda>b. Inr (b, EncDec m))"

fun em_allocate :: "request \<Rightarrow> int \<Rightarrow> encoder_manager \<Rightarrow> encoder_manager res" where
  "em_allocate r i (MultiModal m) = rbind (allocate r i m) (\<lambda>m'. Inr (MultiModal m'))"
| "em_allocate r i (EncDec m) = rbind (encdec_allocate r i m) (\<lambda>m'. Inr (EncDec m'))"

fun em_cached_input_ids :: "request \<Rightarrow> encoder_manager \<Rightarrow> int set" where
  "em_cached_input_ids r (MultiModal m) = get_cached_input_ids r m"
| "em_cached_input_ids r (EncDec m) = encdec_get_cached_input_ids r"

fun em_free_encoder_input :: "request \<Rightarrow> int \<Rightarrow> encoder_manager \<Rightarrow> encoder_manager res" where
  "em_free_encoder_input r i (MultiModal m) = rbind (free_encoder_input r i m) (\<lambda>m'. Inr (MultiModal m'))"
| "em_free_encoder_input r i (EncDec m) = rbind (encdec_free_encoder_input r i m) (\<lambda>m'. Inr (EncDec m'))"

text \<open>
  The local variables of \<^verbatim>\<open>_try_schedule_encoder_inputs\<close>, and its loop over the features from
  index \<open>i\<close> on.  \<open>remote\<close> is \<^verbatim>\<open>ec_connector.has_cache_item\<close> (constantly false without a connector).
\<close>

record encoder_plan =
  plan_inputs :: "int list"
  plan_external :: "int list"
  plan_hashes :: "string set"
  plan_embeds :: int
  plan_new_tokens :: int
  plan_budget :: int

fun schedule_loop ::
  "bool \<Rightarrow> (string \<Rightarrow> bool) \<Rightarrow> request \<Rightarrow> int \<Rightarrow> int \<Rightarrow> int \<Rightarrow> mm_feature list \<Rightarrow> encoder_plan \<Rightarrow>
   encoder_manager \<Rightarrow> (encoder_plan \<times> encoder_manager) res" where
  "schedule_loop no_chunk remote r computed shift i [] p m = Inr (p, m)"
| "schedule_loop no_chunk remote r computed shift i (f # fs) p m =
     (let start = mm_offset f; num = mm_length f; embeds = get_num_embeds f; h = mm_identifier f;
          new = plan_new_tokens p
      in if computed + new + shift \<le> start then Inr (p, m)
         else if is_encoder_decoder m \<and> 0 < computed
         then rbind (py_assert (start = 0)) (\<lambda>_. schedule_loop no_chunk remote r computed shift (i + 1) fs p m)
         else if start + num \<le> computed then schedule_loop no_chunk remote r computed shift (i + 1) fs p m
         else if \<not> is_encoder_decoder m \<and> h \<in> plan_hashes p
         then schedule_loop no_chunk remote r computed shift (i + 1) fs p m
         else rbind (if is_encoder_decoder m then Inr (False, m) else em_check r i m) (\<lambda>(hit, m1).
           if hit then schedule_loop no_chunk remote r computed shift (i + 1) fs p m1
           else if no_chunk \<and> computed < start \<and> computed + new < start + num
           then Inr (p\<lparr>plan_new_tokens := max 0 (start - (computed + shift))\<rparr>, m1)
           else rbind (em_can_allocate r i (plan_budget p) (plan_embeds p) m1) (\<lambda>(ok, m2).
             if \<not> ok
             then Inr (p\<lparr>plan_new_tokens := (if computed + shift < start then start - (computed + shift) else 0)\<rparr>, m2)
             else rbind (get_embeds_indices_in_range f (max 0 (computed - start)) (min num (computed + new - start)))
               (\<lambda>(a, b).
                 if b - a = 0 then schedule_loop no_chunk remote r computed shift (i + 1) fs p m2
                 else if remote h
                 then schedule_loop no_chunk remote r computed shift (i + 1) fs
                        (p\<lparr>plan_hashes := insert h (plan_hashes p), plan_external := plan_external p @ [i],
                           plan_embeds := plan_embeds p + embeds\<rparr>) m2
                 else schedule_loop no_chunk remote r computed shift (i + 1) fs
                        (p\<lparr>plan_embeds := plan_embeds p + embeds, plan_budget := plan_budget p - embeds,
                           plan_hashes := insert h (plan_hashes p), plan_inputs := plan_inputs p @ [i]\<rparr>) m2))))"

definition try_schedule_encoder_inputs ::
  "bool \<Rightarrow> (string \<Rightarrow> bool) \<Rightarrow> request \<Rightarrow> int \<Rightarrow> int \<Rightarrow> int \<Rightarrow> int \<Rightarrow> encoder_manager \<Rightarrow>
   ((int list \<times> int \<times> int \<times> int list) \<times> encoder_manager) res" where
  "try_schedule_encoder_inputs no_chunk remote r computed new budget shift m =
     (if new = 0 \<or> mm_features r = [] then Inr (([], new, budget, []), m)
      else rbind (schedule_loop no_chunk remote r computed shift 0 (mm_features r)
                    \<lparr>plan_inputs = [], plan_external = [], plan_hashes = {}, plan_embeds = 0,
                     plan_new_tokens = new, plan_budget = budget\<rparr> m)
             (\<lambda>(p, m'). Inr ((plan_inputs p, plan_new_tokens p, plan_budget p, plan_external p), m')))"

text \<open>What \<^verbatim>\<open>schedule\<close> does with the planned inputs once the request is scheduled.\<close>

definition allocate_encoder_inputs :: "request \<Rightarrow> int list \<Rightarrow> int list \<Rightarrow> encoder_manager \<Rightarrow> encoder_manager res" where
  "allocate_encoder_inputs r inputs external m =
     rbind (rfold (em_allocate r) inputs m) (rfold (em_allocate r) external)"

text \<open>\<^verbatim>\<open>_free_encoder_inputs\<close>; \<open>ids\<close> is \<^verbatim>\<open>list(cached_encoder_input_ids)\<close>.\<close>

definition free_processed_input :: "request \<Rightarrow> int \<Rightarrow> encoder_manager \<Rightarrow> encoder_manager res" where
  "free_processed_input r i m =
     rbind (py_get (mm_features r) i) (\<lambda>f.
       if is_encoder_decoder m \<and> 0 < num_computed_tokens r then em_free_encoder_input r i m
       else if mm_offset f + mm_length f \<le> num_computed_tokens r then em_free_encoder_input r i m
       else Inr m)"

definition free_encoder_inputs :: "int list \<Rightarrow> request \<Rightarrow> encoder_manager \<Rightarrow> encoder_manager res" where
  "free_encoder_inputs ids r m = rfold (free_processed_input r) ids m"

end
