(* ===== verification/Encoder_Cache_Props.thy ===== *)
theory Encoder_Cache_Props
  imports Encoder_Cache
begin

text \<open>
  The encoder cache in use: an accounting invariant that every call of the scheduler keeps, what
  \<open>can_allocate\<close> decides and evicts, and that the inputs the scheduler plans can be allocated, and
  which input EAGLE's shift of one position misses.  The
  number of embeddings is a function of the hash of the item (\<open>sz\<close>), as the hash stands for the
  content.
\<close>

section \<open>The invariant\<close>

definition referenced :: "encoder_cache \<Rightarrow> string set" where
  "referenced m = {h. \<exists>refs. map_of (cached m) h = Some refs \<and> refs \<noteq> {}}"

definition ec_inv :: "(string \<Rightarrow> int) \<Rightarrow> encoder_cache \<Rightarrow> bool" where
  "ec_inv sz m \<longleftrightarrow>
     distinct (map fst (freeable m)) \<and>
     (\<forall>h. map_of (freeable m) h = (if map_of (cached m) h = Some {} then Some (sz h) else None)) \<and>
     num_free_slots m = ec_cache_size m - (\<Sum>h \<in> dom (map_of (cached m)). sz h) \<and>
     num_freeable_slots m = ec_cache_size m - (\<Sum>h \<in> referenced m. sz h) \<and> 0 \<le> num_free_slots m"

definition feature_ok :: "(string \<Rightarrow> int) \<Rightarrow> mm_feature \<Rightarrow> bool" where
  "feature_ok sz f \<longleftrightarrow>
     get_num_embeds f = sz (mm_identifier f) \<and> (\<forall>bs. is_embed f = Some bs \<longrightarrow> py_len bs = mm_length f)"

definition inputs_ok :: "(string \<Rightarrow> int) \<Rightarrow> request \<Rightarrow> bool" where
  "inputs_ok sz r \<longleftrightarrow> (\<forall>f \<in> set (mm_features r). feature_ok sz f)"

definition item_hash :: "request \<Rightarrow> int \<Rightarrow> string" where
  "item_hash r i = mm_identifier (mm_features r ! nat i)"

definition valid_input :: "request \<Rightarrow> int \<Rightarrow> bool" where
  "valid_input r i \<longleftrightarrow> 0 \<le> i \<and> i < py_len (mm_features r)"

lemma ec_invD:
  assumes "ec_inv sz m"
  shows "distinct (map fst (freeable m))"
    and "map_of (freeable m) h = (if map_of (cached m) h = Some {} then Some (sz h) else None)"
    and "num_free_slots m = ec_cache_size m - (\<Sum>h \<in> dom (map_of (cached m)). sz h)"
    and "num_freeable_slots m = ec_cache_size m - (\<Sum>h \<in> referenced m. sz h)"
    and "0 \<le> num_free_slots m"
  using assms unfolding ec_inv_def by blast+

lemma input_feature:
  assumes "valid_input r i"
  shows "py_get (mm_features r) i = Inr (mm_features r ! nat i)"
  using assms unfolding valid_input_def by (intro py_get_nonneg) auto

lemma input_embeds:
  assumes "inputs_ok sz r" "valid_input r i"
  shows "get_num_encoder_embeds r i = Inr (sz (item_hash r i))"
proof -
  have "mm_features r ! nat i \<in> set (mm_features r)"
    using assms(2) by (intro nth_mem) (simp add: valid_input_def py_len_def nat_less_iff)
  then show ?thesis using assms input_feature [OF assms(2)]
    by (auto simp: get_num_encoder_embeds_def inputs_ok_def feature_ok_def item_hash_def valid_input_def)
qed

lemma finite_referenced [simp]: "finite (referenced m)"
  by (rule finite_subset [OF _ finite_dom_map_of [of "cached m"]]) (auto simp: referenced_def)

lemma referenced_subset: "referenced m \<subseteq> dom (map_of (cached m))"
  by (auto simp: referenced_def)

lemma free_le_freeable:
  assumes "ec_inv sz m" "\<And>h. 0 \<le> sz h"
  shows "num_free_slots m \<le> num_freeable_slots m"
  using ec_invD [OF assms(1)] sum_mono2 [OF finite_dom_map_of referenced_subset, of m sz] assms(2) by simp

lemma ec_inv_init: "0 \<le> n \<Longrightarrow> ec_inv sz (encoder_cache_init n)"
  by (simp add: ec_inv_def encoder_cache_init_def referenced_def)

lemma ec_inv_freed [simp]: "ec_inv sz (m\<lparr>freed := xs\<rparr>) = ec_inv sz m"
  by (simp add: ec_inv_def referenced_def)

section \<open>Operations\<close>

text \<open>What giving an entry \<open>h\<close> the references \<open>refs\<close> does to the referenced entries.\<close>

lemma referenced_update:
  "referenced (m\<lparr>cached := AList.update h refs xs\<rparr>) =
     (if refs = {} then referenced (m\<lparr>cached := xs\<rparr>) - {h} else insert h (referenced (m\<lparr>cached := xs\<rparr>)))"
  by (auto simp: referenced_def update_conv' split: if_splits)

lemma check_ok:
  assumes "ec_inv sz m" "valid_input r i"
  shows "\<exists>m'. check_and_update_cache r i m = Inr (item_hash r i \<in> dom (map_of (cached m)), m') \<and> ec_inv sz m' \<and>
    dom (map_of (cached m')) = dom (map_of (cached m)) \<and> num_free_slots m' = num_free_slots m \<and>
    ec_cache_size m' = ec_cache_size m"
proof (cases "map_of (cached m) (item_hash r i)")
  case None
  then show ?thesis using assms input_feature [OF assms(2)]
    by (auto simp: check_and_update_cache_def item_hash_def Let_def)
next
  case (Some refs)
  let ?h = "item_hash r i"
  note inv = ec_invD [OF assms(1)]
  have dom: "dom (map_of (AList.update ?h refs' (cached m))) = dom (map_of (cached m))" for refs'
    using Some by (auto simp: update_conv')
  show ?thesis
  proof (cases "refs = {}")
    case True
    let ?m = "m\<lparr>freeable := AList.delete ?h (freeable m), num_freeable_slots := num_freeable_slots m - sz ?h,
                cached := AList.update ?h {request_id r} (cached m)\<rparr>"
    have notin: "?h \<notin> referenced m" using Some True by (simp add: referenced_def)
    have "check_and_update_cache r i m = Inr (True, ?m)"
      using input_feature [OF assms(2)] Some True inv(2) [of ?h]
      by (simp add: check_and_update_cache_def Let_def flip: item_hash_def)
    moreover have "referenced ?m = insert ?h (referenced m)" by (auto simp: referenced_def update_conv')
    then have "ec_inv sz ?m" using inv notin Some True dom
      by (auto simp: ec_inv_def delete_conv' update_conv' distinct_delete)
    ultimately show ?thesis using Some dom by (intro exI [of _ ?m]) auto
  next
    case False
    let ?m = "m\<lparr>cached := AList.update ?h (insert (request_id r) refs) (cached m)\<rparr>"
    have "check_and_update_cache r i m = Inr (True, ?m)"
      using input_feature [OF assms(2)] Some False by (simp add: check_and_update_cache_def Let_def flip: item_hash_def)
    moreover have "referenced ?m = referenced m" using Some False by (auto simp: referenced_def update_conv')
    then have "ec_inv sz ?m" using inv Some False dom by (auto simp: ec_inv_def update_conv')
    ultimately show ?thesis using Some dom by (intro exI [of _ ?m]) auto
  qed
qed

lemma evict_loop_enough: "n \<le> num_free_slots m \<Longrightarrow> evict_loop n m = Inr m"
  by (simp add: evict_loop.simps)

lemma evict_ok:
  assumes "ec_inv sz m" "\<And>h. 0 \<le> sz h" "n \<le> num_freeable_slots m"
  shows "\<exists>k m'. evict_loop n m = Inr m' \<and> ec_inv sz m' \<and> n \<le> num_free_slots m' \<and>
    freeable m' = drop k (freeable m) \<and> freed m' = freed m @ map fst (take k (freeable m)) \<and>
    map_of (cached m') = map_of (cached m) |` (- fst ` set (take k (freeable m))) \<and>
    (k = 0 \<or> num_free_slots m + sum_list (map snd (take (k - 1) (freeable m))) < n) \<and>
    ec_cache_size m' = ec_cache_size m \<and> k \<le> length (freeable m)"
  using assms(1,3)
proof (induction "length (freeable m)" arbitrary: m rule: less_induct)
  case less
  note inv = ec_invD [OF less.prems(1)]
  show ?case
  proof (cases "n \<le> num_free_slots m")
    case True
    then show ?thesis using less.prems by (intro exI [of _ 0] exI [of _ m]) (simp add: evict_loop.simps restrict_map_def)
  next
    case False
    have "freeable m \<noteq> []"
    proof
      assume "freeable m = []"
      then have "\<And>h. map_of (cached m) h \<noteq> Some {}" using inv(2) by (metis map_of.simps(1) option.simps(3))
      then have "referenced m = dom (map_of (cached m))" by (auto simp: referenced_def)
      then show False using inv(3,4) less.prems(2) False by simp
    qed
    then obtain h k rest where fr: "freeable m = (h, k) # rest" by (metis list.exhaust surj_pair)
    have h: "map_of (cached m) h = Some {}" "k = sz h" using inv(2) [of h] fr by (auto split: if_splits)
    let ?m = "m\<lparr>freeable := rest, cached := AList.delete h (cached m), freed := freed m @ [h],
                num_free_slots := num_free_slots m + k\<rparr>"
    have notin: "h \<notin> fst ` set rest" using inv(1) fr by simp
    have "map_of rest h' = (if map_of (AList.delete h (cached m)) h' = Some {} then Some (sz h') else None)" for h'
    proof (cases "h' = h")
      case True
      then show ?thesis using notin by (simp add: delete_conv' map_of_eq_None_iff)
    next
      case False
      then show ?thesis using inv(2) [of h'] fr by (simp add: delete_conv')
    qed
    moreover have "referenced ?m = referenced m" using h(1) by (auto simp: referenced_def delete_conv')
    moreover have "sum sz (dom (map_of (AList.delete h (cached m)))) = sum sz (dom (map_of (cached m))) - sz h"
      using h(1) by (simp add: delete_conv' sum_diff1 domI finite_dom_map_of)
    ultimately have "ec_inv sz ?m" using inv fr h(2) assms(2) [of h] by (simp add: ec_inv_def)
    then obtain j m' where ih: "evict_loop n ?m = Inr m'" "ec_inv sz m'" "n \<le> num_free_slots m'"
      "freeable m' = drop j rest" "freed m' = freed m @ [h] @ map fst (take j rest)"
      "map_of (cached m') = map_of (AList.delete h (cached m)) |` (- fst ` set (take j rest))"
      "j = 0 \<or> num_free_slots m + k + sum_list (map snd (take (j - 1) rest)) < n"
      "ec_cache_size m' = ec_cache_size m" "j \<le> length rest"
      using less.hyps [of ?m] less.prems(2) fr by auto
    have ev: "evict_loop n m = Inr m'" using ih(1) False fr h(1) by (simp add: evict_loop.simps [of n m])
    have "map_of (cached m') = map_of (cached m) |` (- fst ` set (take (Suc j) (freeable m)))"
      unfolding ih(6) fr by (auto simp: fun_eq_iff delete_conv' restrict_map_def)
    moreover have "num_free_slots m + sum_list (map snd (take j (freeable m))) < n"
      using ih(7) False fr by (cases j) auto
    ultimately show ?thesis using ev ih fr by (intro exI [of _ "Suc j"] exI [of _ m']) simp
  qed
qed

lemma can_allocate_ok:
  assumes "ec_inv sz m" "\<And>h. 0 \<le> sz h" "inputs_ok sz r" "valid_input r i"
  shows "\<exists>ok m'. can_allocate r i budget n m = Inr (ok, m') \<and> ec_inv sz m' \<and>
    dom (map_of (cached m')) \<subseteq> dom (map_of (cached m)) \<and> num_free_slots m \<le> num_free_slots m' \<and>
    (ok \<longrightarrow> sz (item_hash r i) + n \<le> num_free_slots m') \<and> ec_cache_size m' = ec_cache_size m"
proof (cases "budget < sz (item_hash r i) \<or> sz (item_hash r i) + n \<le> num_free_slots m \<or>
    num_freeable_slots m < sz (item_hash r i) + n")
  case True
  then show ?thesis using input_embeds [OF assms(3,4)] assms(1) by (auto simp: can_allocate_def Let_def)
next
  case False
  then obtain k m' where ev: "evict_loop (sz (item_hash r i) + n) m = Inr m'" "ec_inv sz m'"
    "sz (item_hash r i) + n \<le> num_free_slots m'" "ec_cache_size m' = ec_cache_size m"
    "map_of (cached m') = map_of (cached m) |` (- fst ` set (take k (freeable m)))"
    using evict_ok [of sz m "sz (item_hash r i) + n"] assms(1,2) by auto
  then show ?thesis using input_embeds [OF assms(3,4)] False
    by (intro exI [of _ True] exI [of _ m']) (auto simp: can_allocate_def Let_def dom_def restrict_map_def split: if_splits)
qed

lemma allocate_ok:
  assumes "ec_inv sz m" "\<And>h. 0 \<le> sz h" "inputs_ok sz r" "valid_input r i"
    and "item_hash r i \<notin> dom (map_of (cached m))" "sz (item_hash r i) \<le> num_free_slots m"
  shows "\<exists>m'. allocate r i m = Inr m' \<and> ec_inv sz m' \<and> num_free_slots m' = num_free_slots m - sz (item_hash r i) \<and>
    map_of (cached m') = (map_of (cached m))(item_hash r i \<mapsto> {request_id r}) \<and> ec_cache_size m' = ec_cache_size m"
proof -
  let ?h = "item_hash r i"
  let ?m = "m\<lparr>cached := AList.update ?h {request_id r} (cached m), num_free_slots := num_free_slots m - sz ?h,
              num_freeable_slots := num_freeable_slots m - sz ?h\<rparr>"
  note inv = ec_invD [OF assms(1)]
  have none: "map_of (cached m) ?h = None" using assms(5) by (auto simp: domIff)
  have "allocate r i m = Inr ?m"
    using none input_feature [OF assms(4)] input_embeds [OF assms(3,4)] assms(6) free_le_freeable [OF assms(1,2)]
    by (simp add: allocate_def Let_def flip: item_hash_def)
  moreover have "referenced ?m = insert ?h (referenced m)" by (auto simp: referenced_def update_conv')
  moreover have "?h \<notin> referenced m" using none by (simp add: referenced_def)
  ultimately have "allocate r i m = Inr ?m \<and> ec_inv sz ?m" using inv none assms(5,6)
    by (auto simp: ec_inv_def update_conv' finite_dom_map_of)
  then show ?thesis by (auto simp: update_conv')
qed

lemma free_input_ok:
  assumes "ec_inv sz m" "inputs_ok sz r" "valid_input r i"
  shows "\<exists>m'. free_encoder_input r i m = Inr m' \<and> ec_inv sz m' \<and> num_free_slots m' = num_free_slots m \<and>
    dom (map_of (cached m')) = dom (map_of (cached m)) \<and> ec_cache_size m' = ec_cache_size m"
proof (cases "map_of (cached m) (item_hash r i)")
  case None
  then show ?thesis using assms input_feature [OF assms(3)] by (auto simp: free_encoder_input_def item_hash_def Let_def)
next
  case (Some refs)
  let ?h = "item_hash r i" and ?refs = "refs - {request_id r}"
  note inv = ec_invD [OF assms(1)]
  let ?m = "m\<lparr>cached := AList.update ?h ?refs (cached m)\<rparr>"
  have dom: "dom (map_of (AList.update ?h ?refs (cached m))) = dom (map_of (cached m))"
    using Some by (auto simp: update_conv')
  consider "refs = {}" | "refs \<noteq> {}" "?refs \<noteq> {}" | "refs \<noteq> {}" "?refs = {}" by blast
  then show ?thesis
  proof cases
    case 1
    then show ?thesis using Some assms input_feature [OF assms(3)] by (auto simp: free_encoder_input_def item_hash_def Let_def)
  next
    case 2
    have "free_encoder_input r i m = Inr ?m"
      using input_feature [OF assms(3)] Some 2 by (simp add: free_encoder_input_def Let_def flip: item_hash_def)
    moreover have "referenced ?m = referenced m" using Some 2 by (auto simp: referenced_def update_conv')
    then have "ec_inv sz ?m" using inv Some 2 dom by (auto simp: ec_inv_def update_conv')
    ultimately show ?thesis using dom by (intro exI [of _ ?m]) auto
  next
    case 3
    let ?m' = "?m\<lparr>freeable := AList.update ?h (sz ?h) (freeable m), num_freeable_slots := num_freeable_slots m + sz ?h\<rparr>"
    have ev: "free_encoder_input r i m = Inr ?m'"
      using input_feature [OF assms(3)] input_embeds [OF assms(2,3)] Some 3
      by (simp add: free_encoder_input_def Let_def flip: item_hash_def)
    have "referenced ?m' = referenced m - {?h}" "?h \<in> referenced m"
      using Some 3 by (auto simp: referenced_def update_conv')
    then have "sum sz (referenced ?m') = sum sz (referenced m) - sz ?h" by (simp add: sum_diff1)
    then have acc: "num_freeable_slots ?m' = ec_cache_size ?m' - sum sz (referenced ?m')" using inv(4) by simp
    moreover have "map_of (freeable ?m') h = (if map_of (cached ?m') h = Some {} then Some (sz h) else None)" for h
      using inv(2) [of h] 3(2) by (simp add: update_conv')
    ultimately have "ec_inv sz ?m'" unfolding ec_inv_def using inv(1,3,5) dom by (simp add: distinct_update)
    then show ?thesis using ev dom by (intro exI [of _ ?m']) auto
  qed
qed

section \<open>Planned inputs\<close>

text \<open>The inputs \<open>is\<close> of \<open>r\<close> are not cached and there is room for all of them.\<close>

definition reserved :: "(string \<Rightarrow> int) \<Rightarrow> request \<Rightarrow> int list \<Rightarrow> encoder_cache \<Rightarrow> bool" where
  "reserved sz r is m \<longleftrightarrow>
     ec_inv sz m \<and> distinct (map (item_hash r) is) \<and> (\<forall>i \<in> set is. valid_input r i) \<and>
     item_hash r ` set is \<inter> dom (map_of (cached m)) = {} \<and>
     (\<Sum>i \<leftarrow> is. sz (item_hash r i)) \<le> num_free_slots m"

lemma reservedD:
  assumes "reserved sz r is m"
  shows "ec_inv sz m" "distinct (map (item_hash r) is)" "\<forall>i \<in> set is. valid_input r i"
    "item_hash r ` set is \<inter> dom (map_of (cached m)) = {}" "(\<Sum>i \<leftarrow> is. sz (item_hash r i)) \<le> num_free_slots m"
  using assms unfolding reserved_def by blast+

lemma reserved_mono:
  assumes "reserved sz r is m" "ec_inv sz m'" "dom (map_of (cached m')) \<subseteq> dom (map_of (cached m))"
    and "num_free_slots m \<le> num_free_slots m'"
  shows "reserved sz r is m'"
proof -
  note res = reservedD [OF assms(1)]
  have "item_hash r ` set is \<inter> dom (map_of (cached m')) = {}" using res(4) assms(3) by blast
  moreover have "(\<Sum>i \<leftarrow> is. sz (item_hash r i)) \<le> num_free_slots m'" using res(5) assms(4) by (rule order_trans)
  ultimately show ?thesis unfolding reserved_def by (intro conjI assms(2) res(2,3))
qed

lemma reserved_empty: "ec_inv sz m \<Longrightarrow> reserved sz r [] m"
  by (simp add: reserved_def ec_invD(5))

lemma reserved_allocates:
  assumes "reserved sz r is m" "\<And>h. 0 \<le> sz h" "inputs_ok sz r"
  shows "\<exists>m'. rfold (em_allocate r) is (MultiModal m) = Inr (MultiModal m') \<and> ec_inv sz m' \<and>
    map_of (cached m') =
      (\<lambda>h. if h \<in> item_hash r ` set is then Some {request_id r} else map_of (cached m) h) \<and> ec_cache_size m' = ec_cache_size m"
  using assms(1)
proof (induction "is" arbitrary: m)
  case Nil
  then show ?case by (simp add: reservedD)
next
  case (Cons i "is")
  note res = reservedD [OF Cons.prems]
  have "0 \<le> (\<Sum>i \<leftarrow> is. sz (item_hash r i))" using assms(2) by (intro sum_list_nonneg) auto
  then have "sz (item_hash r i) \<le> num_free_slots m" using res(5) by simp
  moreover have "item_hash r i \<notin> dom (map_of (cached m))" using res(4) by auto
  ultimately obtain m1 where m1: "allocate r i m = Inr m1" "ec_inv sz m1"
    "num_free_slots m1 = num_free_slots m - sz (item_hash r i)"
    "map_of (cached m1) = (map_of (cached m))(item_hash r i \<mapsto> {request_id r})" "ec_cache_size m1 = ec_cache_size m"
    using allocate_ok [OF res(1) assms(2,3), of i] res(3) by auto
  have "reserved sz r is m1" using res m1 by (auto simp: reserved_def)
  from Cons.IH [OF this] show ?case using m1 by (fastforce simp: fun_eq_iff)
qed

text \<open>The plan under construction.\<close>

definition plan_ok :: "(string \<Rightarrow> int) \<Rightarrow> request \<Rightarrow> encoder_plan \<Rightarrow> encoder_cache \<Rightarrow> bool" where
  "plan_ok sz r p m \<longleftrightarrow>
     reserved sz r (plan_inputs p @ plan_external p) m \<and>
     plan_hashes p = item_hash r ` set (plan_inputs p @ plan_external p) \<and>
     plan_embeds p = (\<Sum>i \<leftarrow> plan_inputs p @ plan_external p. sz (item_hash r i))"

lemma plan_ok_inv: "plan_ok sz r p m \<Longrightarrow> ec_inv sz m"
  by (simp add: plan_ok_def reserved_def)

lemma plan_ok_mono:
  assumes "plan_ok sz r p m" "ec_inv sz m'" "dom (map_of (cached m')) \<subseteq> dom (map_of (cached m))"
    and "num_free_slots m \<le> num_free_slots m'"
  shows "plan_ok sz r p m'"
  using assms(1) reserved_mono [OF _ assms(2-4)] by (simp add: plan_ok_def)

lemma plan_ok_add:
  assumes "plan_ok sz r p m" "valid_input r i" "item_hash r i \<notin> plan_hashes p"
    and "item_hash r i \<notin> dom (map_of (cached m))" "sz (item_hash r i) + plan_embeds p \<le> num_free_slots m"
  shows "plan_ok sz r (p\<lparr>plan_hashes := insert (item_hash r i) (plan_hashes p), plan_external := plan_external p @ [i],
                         plan_embeds := plan_embeds p + sz (item_hash r i)\<rparr>) m"
    and "plan_ok sz r (p\<lparr>plan_embeds := plan_embeds p + sz (item_hash r i), plan_budget := b,
                         plan_hashes := insert (item_hash r i) (plan_hashes p), plan_inputs := plan_inputs p @ [i]\<rparr>) m"
  using assms by (simp_all add: plan_ok_def reserved_def image_Un domIff ac_simps)

lemma length_cumsum [simp]: "length (cumsum acc bs) = length bs"
  by (induction bs arbitrary: acc) (simp_all add: Let_def)

lemma embeds_range_ok:
  assumes "feature_ok sz f" "s \<le> max 0 (mm_length f)" "e \<le> mm_length f"
  shows "\<exists>a b. get_embeds_indices_in_range f s e = Inr (a, b)"
proof (cases "is_embed f")
  case (Some bs)
  then have "py_len (cumsum 0 bs) = mm_length f" using assms(1) by (simp add: feature_ok_def py_len_def)
  then show ?thesis using Some assms(2,3) by (simp add: get_embeds_indices_in_range_def embeds_cumsum_def py_get_nonneg)
qed (simp add: get_embeds_indices_in_range_def embeds_cumsum_def)

lemma schedule_loop_ok:
  assumes "\<And>h. 0 \<le> sz h" "inputs_ok sz r"
  shows "plan_ok sz r p m \<Longrightarrow> 0 \<le> i \<Longrightarrow> fs = drop (nat i) (mm_features r) \<Longrightarrow>
    \<exists>p' m'. schedule_loop no_chunk remote r computed shift i fs p (MultiModal m) = Inr (p', MultiModal m') \<and>
      plan_ok sz r p' m' \<and> ec_cache_size m' = ec_cache_size m \<and>
      (0 \<le> plan_new_tokens p \<longrightarrow> 0 \<le> plan_new_tokens p' \<and> plan_new_tokens p' \<le> plan_new_tokens p)"
proof (induction fs arbitrary: i p m)
  case Nil
  then show ?case by simp
next
  case (Cons f fs)
  have lt: "nat i < length (mm_features r)" using Cons.prems(3) by (metis drop_all linorder_not_le list.distinct(1))
  then have f: "f = mm_features r ! nat i" "fs = drop (nat (i + 1)) (mm_features r)"
    using Cons.prems(2,3) by (auto simp: nat_add_distrib Cons_nth_drop_Suc [symmetric])
  have v: "valid_input r i" using lt Cons.prems(2) by (simp add: valid_input_def py_len_def nat_less_iff)
  have h: "mm_identifier f = item_hash r i" using f(1) by (simp add: item_hash_def)
  have fok: "feature_ok sz f" using assms(2) lt f(1) by (simp add: inputs_ok_def)
  then have emb: "get_num_embeds f = sz (item_hash r i)" using h by (simp add: feature_ok_def)
  note IH = Cons.IH [OF _ _ f(2)]
  have i1: "0 \<le> i + 1" using Cons.prems(2) by simp
  let ?start = "mm_offset f" and ?new = "plan_new_tokens p"
  show ?case
  proof (cases "computed + ?new + shift \<le> ?start \<or> ?start + mm_length f \<le> computed \<or> item_hash r i \<in> plan_hashes p")
    case True
    then show ?thesis using Cons.prems(1) IH [OF Cons.prems(1) i1] by (auto simp: Let_def h)
  next
    case False
    obtain m1 where m1: "check_and_update_cache r i m = Inr (item_hash r i \<in> dom (map_of (cached m)), m1)" "ec_inv sz m1"
      "dom (map_of (cached m1)) = dom (map_of (cached m))" "num_free_slots m1 = num_free_slots m"
      "ec_cache_size m1 = ec_cache_size m"
      using check_ok [OF plan_ok_inv [OF Cons.prems(1)] v] by blast
    have p1: "plan_ok sz r p m1" using plan_ok_mono [OF Cons.prems(1) m1(2)] m1(3,4) by simp
    obtain ok m2 where m2: "can_allocate r i (plan_budget p) (plan_embeds p) m1 = Inr (ok, m2)" "ec_inv sz m2"
      "dom (map_of (cached m2)) \<subseteq> dom (map_of (cached m1))" "num_free_slots m1 \<le> num_free_slots m2"
      "ok \<longrightarrow> sz (item_hash r i) + plan_embeds p \<le> num_free_slots m2" "ec_cache_size m2 = ec_cache_size m1"
      using can_allocate_ok [OF m1(2) assms v] by blast
    have p2: "plan_ok sz r p m2" using plan_ok_mono [OF p1 m2(2,3,4)] .
    have s: "max 0 (computed - ?start) \<le> max 0 (mm_length f)" using False by (auto simp: max_def)
    obtain a b where ab: "get_embeds_indices_in_range f (max 0 (computed - ?start))
        (min (mm_length f) (computed + ?new - ?start)) = Inr (a, b)"
      using embeds_range_ok [OF fok s min.cobounded1] by blast
    show ?thesis
    proof (cases "item_hash r i \<in> dom (map_of (cached m))")
      case True
      then show ?thesis using False m1(1,5) IH [OF p1 i1] by (auto simp: Let_def h)
    next
      case new: False
      have nm2: "item_hash r i \<notin> dom (map_of (cached m2))" using new m1(3) m2(3) by blast
      note add = plan_ok_add [OF p2 v _ nm2]
      have p': "plan_ok sz r (p\<lparr>plan_new_tokens := x\<rparr>) m' = plan_ok sz r p m'" for x m' by (simp add: plan_ok_def)
      show ?thesis
      proof (cases "no_chunk \<and> computed < ?start \<and> computed + ?new < ?start + mm_length f \<or> \<not> ok")
        case True
        then show ?thesis using False new m1(1,5) m2(1,6) p1 p2 by (auto simp: Let_def h p')
      next
        case go: False
        have q: "plan_ok sz r (p\<lparr>plan_hashes := insert (item_hash r i) (plan_hashes p), plan_external := plan_external p @ [i],
              plan_embeds := plan_embeds p + sz (item_hash r i)\<rparr>) m2"
          "plan_ok sz r (p\<lparr>plan_embeds := plan_embeds p + sz (item_hash r i), plan_budget := plan_budget p - sz (item_hash r i),
              plan_hashes := insert (item_hash r i) (plan_hashes p), plan_inputs := plan_inputs p @ [i]\<rparr>) m2"
          using add m2(5) go False by auto
        have g: "(no_chunk \<and> computed < ?start \<and> computed + ?new < ?start + mm_length f) = False" ok using go by blast+
        have step: "schedule_loop no_chunk remote r computed shift i (f # fs) p (MultiModal m) =
            schedule_loop no_chunk remote r computed shift (i + 1) fs
              (if b - a = 0 then p
               else if remote (item_hash r i)
               then p\<lparr>plan_hashes := insert (item_hash r i) (plan_hashes p), plan_external := plan_external p @ [i],
                      plan_embeds := plan_embeds p + sz (item_hash r i)\<rparr>
               else p\<lparr>plan_embeds := plan_embeds p + sz (item_hash r i), plan_budget := plan_budget p - sz (item_hash r i),
                      plan_hashes := insert (item_hash r i) (plan_hashes p), plan_inputs := plan_inputs p @ [i]\<rparr>) (MultiModal m2)"
          using False new g(2) m1(1) m2(1) ab by (simp add: Let_def h emb g(1))
        show ?thesis unfolding step using m1(5) m2(6) IH [OF p2 i1] IH [OF q(1) i1] IH [OF q(2) i1] by simp
      qed
    qed
  qed
qed

section \<open>Reachable states\<close>

lemma cached_ids_valid: "i \<in> get_cached_input_ids r m \<Longrightarrow> valid_input r i"
  by (auto simp: get_cached_input_ids_def valid_input_def)

lemma free_encoder_ok:
  assumes "ec_inv sz m" "inputs_ok sz r" "\<forall>i \<in> set ids. valid_input r i"
  shows "\<exists>m'. free_encoder ids r m = Inr m' \<and> ec_inv sz m' \<and> num_free_slots m' = num_free_slots m \<and>
    dom (map_of (cached m')) = dom (map_of (cached m)) \<and> ec_cache_size m' = ec_cache_size m"
proof -
  have "\<exists>m'. rfold (free_encoder_input r) ids m = Inr m' \<and> ((\<forall>i \<in> set []. valid_input r i) \<and> ec_inv sz m' \<and>
      num_free_slots m' = num_free_slots m \<and> dom (map_of (cached m')) = dom (map_of (cached m)) \<and>
      ec_cache_size m' = ec_cache_size m)"
  proof (rule rfold_succeeds)
    fix i ys m1
    assume a: "(\<forall>i \<in> set (i # ys). valid_input r i) \<and> ec_inv sz m1 \<and> num_free_slots m1 = num_free_slots m \<and>
      dom (map_of (cached m1)) = dom (map_of (cached m)) \<and> ec_cache_size m1 = ec_cache_size m"
    then obtain m2 where "free_encoder_input r i m1 = Inr m2" "ec_inv sz m2" "num_free_slots m2 = num_free_slots m1"
      "dom (map_of (cached m2)) = dom (map_of (cached m1))" "ec_cache_size m2 = ec_cache_size m1"
      using free_input_ok [OF _ assms(2), of m1 i] by auto
    then show "\<exists>t. free_encoder_input r i m1 = Inr t \<and> (\<forall>i \<in> set ys. valid_input r i) \<and> ec_inv sz t \<and>
        num_free_slots t = num_free_slots m \<and> dom (map_of (cached t)) = dom (map_of (cached m)) \<and>
        ec_cache_size t = ec_cache_size m"
      using a by simp
  qed (use assms in simp)
  then show ?thesis by (simp add: free_encoder_def)
qed

text \<open>Other requests are preempted, and release their inputs, before a planned request is allocated.\<close>

inductive released :: "(string \<Rightarrow> int) \<Rightarrow> encoder_cache \<Rightarrow> encoder_cache \<Rightarrow> bool" for sz m where
  "released sz m m"
| "released sz m m1 \<Longrightarrow> inputs_ok sz r \<Longrightarrow> set ids = get_cached_input_ids r m1 \<Longrightarrow>
     free_encoder ids r m1 = Inr m2 \<Longrightarrow> released sz m m2"

text \<open>The calls the scheduler makes.\<close>

inductive encoder_step :: "(string \<Rightarrow> int) \<Rightarrow> encoder_cache \<Rightarrow> encoder_cache \<Rightarrow> bool" for sz m where
  only_planned: "inputs_ok sz r \<Longrightarrow>
     try_schedule_encoder_inputs no_chunk remote r computed new budget shift (MultiModal m) = Inr (plan, MultiModal m1) \<Longrightarrow>
     encoder_step sz m m1"
| scheduled: "inputs_ok sz r \<Longrightarrow>
     try_schedule_encoder_inputs no_chunk remote r computed new budget shift (MultiModal m) =
       Inr ((inputs, new', budget', external), MultiModal m1) \<Longrightarrow>
     released sz m1 m2 \<Longrightarrow>
     allocate_encoder_inputs r inputs external (MultiModal m2) = Inr (MultiModal m3) \<Longrightarrow> encoder_step sz m m3"
| freed_request: "inputs_ok sz r \<Longrightarrow> set ids = get_cached_input_ids r m \<Longrightarrow> free_encoder ids r m = Inr m1 \<Longrightarrow>
     encoder_step sz m m1"
| freed_processed: "inputs_ok sz r \<Longrightarrow> set ids = get_cached_input_ids r m \<Longrightarrow>
     free_encoder_inputs ids r (MultiModal m) = Inr (MultiModal m1) \<Longrightarrow> encoder_step sz m m1"
| hashes_taken: "encoder_step sz m (snd (get_freed_mm_hashes m))"
| cache_reset: "encoder_step sz m (encoder_cache_reset m)"

definition encoder_reach :: "(string \<Rightarrow> int) \<Rightarrow> int \<Rightarrow> encoder_cache \<Rightarrow> bool" where
  "encoder_reach sz n m \<longleftrightarrow> (encoder_step sz)\<^sup>*\<^sup>* (encoder_cache_init n) m"

lemma released_ok:
  assumes "released sz m m'" "ec_inv sz m"
  shows "ec_inv sz m' \<and> num_free_slots m' = num_free_slots m \<and> dom (map_of (cached m')) = dom (map_of (cached m)) \<and>
    ec_cache_size m' = ec_cache_size m"
  using assms(1)
proof induction
  case 1
  then show ?case using assms(2) by simp
next
  case (2 m1 r ids m2)
  have "\<forall>i \<in> set ids. valid_input r i" using 2 cached_ids_valid by blast
  then show ?case using free_encoder_ok [of sz m1 r ids] 2 by auto
qed

lemma try_schedule_ok:
  assumes "ec_inv sz m" "\<And>h. 0 \<le> sz h" "inputs_ok sz r"
  shows "\<exists>inputs new' budget' external m1.
    try_schedule_encoder_inputs no_chunk remote r computed new budget shift (MultiModal m) =
      Inr ((inputs, new', budget', external), MultiModal m1) \<and>
    reserved sz r (inputs @ external) m1 \<and> ec_cache_size m1 = ec_cache_size m \<and> (0 \<le> new \<longrightarrow> 0 \<le> new' \<and> new' \<le> new)"
proof (cases "new = 0 \<or> mm_features r = []")
  case True
  then show ?thesis using reserved_empty [OF assms(1)] by (simp add: try_schedule_encoder_inputs_def)
next
  case False
  let ?p = "\<lparr>plan_inputs = [], plan_external = [], plan_hashes = {}, plan_embeds = 0,
             plan_new_tokens = new, plan_budget = budget\<rparr>"
  have "plan_ok sz r ?p m" using reserved_empty [OF assms(1)] by (simp add: plan_ok_def)
  from schedule_loop_ok [OF assms(2,3) this, of 0 "mm_features r" no_chunk remote computed shift]
  obtain p' m' where "schedule_loop no_chunk remote r computed shift 0 (mm_features r) ?p (MultiModal m) = Inr (p', MultiModal m')"
    "plan_ok sz r p' m'" "ec_cache_size m' = ec_cache_size m"
    "0 \<le> new \<longrightarrow> 0 \<le> plan_new_tokens p' \<and> plan_new_tokens p' \<le> new" by auto
  then show ?thesis using False by (simp add: try_schedule_encoder_inputs_def plan_ok_def)
qed

lemma planned_allocates:
  assumes "reserved sz r (inputs @ external) m1" "released sz m1 m2" "\<And>h. 0 \<le> sz h" "inputs_ok sz r"
  shows "\<exists>m3. allocate_encoder_inputs r inputs external (MultiModal m2) = Inr (MultiModal m3) \<and> ec_inv sz m3 \<and>
    (\<forall>i \<in> set (inputs @ external). map_of (cached m3) (item_hash r i) = Some {request_id r}) \<and>
    ec_cache_size m3 = ec_cache_size m1"
proof -
  note rel = released_ok [OF assms(2) reservedD(1) [OF assms(1)]]
  then have "reserved sz r (inputs @ external) m2" using reserved_mono [OF assms(1)] by simp
  from reserved_allocates [OF this assms(3,4)] obtain m3 where
    "rfold (em_allocate r) (inputs @ external) (MultiModal m2) = Inr (MultiModal m3)" "ec_inv sz m3"
    "map_of (cached m3) = (\<lambda>h. if h \<in> item_hash r ` set (inputs @ external) then Some {request_id r} else map_of (cached m2) h)"
    "ec_cache_size m3 = ec_cache_size m2" by blast
  then show ?thesis using rel by (auto simp: allocate_encoder_inputs_def rfold_append)
qed

lemma free_processed_ok:
  assumes "ec_inv sz m" "inputs_ok sz r" "\<forall>i \<in> set ids. valid_input r i"
  shows "\<exists>m'. free_encoder_inputs ids r (MultiModal m) = Inr (MultiModal m') \<and> ec_inv sz m' \<and>
    ec_cache_size m' = ec_cache_size m"
  using assms(1,3)
proof (induction ids arbitrary: m)
  case (Cons i ids)
  then have v: "valid_input r i" by simp
  obtain m0 where m0: "free_encoder_input r i m = Inr m0" "ec_inv sz m0" "ec_cache_size m0 = ec_cache_size m"
    using free_input_ok [OF Cons.prems(1) assms(2) v] by blast
  define m1 where "m1 = (if mm_offset (mm_features r ! nat i) + mm_length (mm_features r ! nat i) \<le> num_computed_tokens r
                         then m0 else m)"
  have "free_processed_input r i (MultiModal m) = Inr (MultiModal m1)" "ec_inv sz m1" "ec_cache_size m1 = ec_cache_size m"
    using m0 input_feature [OF v] Cons.prems(1) by (simp_all add: free_processed_input_def m1_def)
  then show ?case using Cons.IH [of m1] Cons.prems(2) by (auto simp: free_encoder_inputs_def)
qed (simp add: free_encoder_inputs_def)

lemma encoder_step_inv:
  assumes "encoder_step sz m m'" "ec_inv sz m" "\<And>h. 0 \<le> sz h" "0 \<le> ec_cache_size m"
  shows "ec_inv sz m' \<and> ec_cache_size m' = ec_cache_size m"
  using assms(1)
proof cases
  case (only_planned r no_chunk remote computed new budget shift plan)
  then show ?thesis
    using try_schedule_ok [OF assms(2,3) only_planned(1), of no_chunk remote computed new budget shift] reservedD(1) by auto
next
  case (scheduled r no_chunk remote computed new budget shift inputs new' budget' external m1 m2)
  then have res: "reserved sz r (inputs @ external) m1" "ec_cache_size m1 = ec_cache_size m"
    using try_schedule_ok [OF assms(2,3) scheduled(1), of no_chunk remote computed new budget shift] by auto
  then show ?thesis using planned_allocates [OF res(1) scheduled(3) assms(3) scheduled(1)] scheduled(4) by auto
next
  case (freed_request r ids)
  have v: "\<forall>i \<in> set ids. valid_input r i" using freed_request cached_ids_valid by blast
  show ?thesis using free_encoder_ok [OF assms(2) freed_request(1) v] freed_request(3) by auto
next
  case (freed_processed r ids)
  have v: "\<forall>i \<in> set ids. valid_input r i" using freed_processed cached_ids_valid by blast
  show ?thesis using free_processed_ok [OF assms(2) freed_processed(1) v] freed_processed(3) by auto
next
  case hashes_taken
  then show ?thesis using assms(2) by (simp add: get_freed_mm_hashes_def)
next
  case cache_reset
  then show ?thesis using assms(4) by (simp add: encoder_cache_reset_def ec_inv_def referenced_def)
qed

lemma encoder_reach_inv:
  assumes "encoder_reach sz n m" "\<And>h. 0 \<le> sz h" "0 \<le> n"
  shows "ec_inv sz m \<and> ec_cache_size m = n"
  using assms(1) unfolding encoder_reach_def
proof induction
  case base
  then show ?case using assms(3) by (simp add: ec_inv_init) (simp add: encoder_cache_init_def)
next
  case (step m m')
  then show ?case using encoder_step_inv [OF step(2)] assms(2,3) by simp
qed

section \<open>Properties\<close>

text \<open>
  C19. In every state the scheduler's calls reach, the free slots are the cache size less the sizes of all
  cached items and are never negative, the freeable slots are the cache size less the sizes of the
  referenced items, and the freeable items are exactly the cached items without a reference.
  \<open>can_allocate\<close> then answers false, without a change, exactly when the item exceeds the compute
  budget or the freeable slots; otherwise it answers true with enough free slots, after evicting (and
  reporting) only the oldest unreferenced items, no more of them than are needed.
\<close>

theorem encoder_cache_accounting:
  assumes "\<forall>h. 0 \<le> sz h" "0 \<le> n" "encoder_reach sz n m" "inputs_ok sz r" "valid_input r i"
  shows "num_free_slots m = n - (\<Sum>h \<in> dom (map_of (cached m)). sz h) \<and> 0 \<le> num_free_slots m \<and>
    num_freeable_slots m = n - (\<Sum>h \<in> referenced m. sz h) \<and>
    (\<forall>h. map_of (freeable m) h = (if map_of (cached m) h = Some {} then Some (sz h) else None)) \<and>
    (if budget < sz (item_hash r i) \<or> num_freeable_slots m < sz (item_hash r i) + pending
     then can_allocate r i budget pending m = Inr (False, m)
     else \<exists>k m'. can_allocate r i budget pending m = Inr (True, m') \<and>
       sz (item_hash r i) + pending \<le> num_free_slots m' \<and>
       freeable m' = drop k (freeable m) \<and> freed m' = freed m @ map fst (take k (freeable m)) \<and>
       map_of (cached m') = map_of (cached m) |` (- fst ` set (take k (freeable m))) \<and>
       (k = 0 \<or> num_free_slots m + sum_list (map snd (take (k - 1) (freeable m))) < sz (item_hash r i) + pending))"
proof -
  have sz: "\<And>h. 0 \<le> sz h" using assms(1) by blast
  have inv: "ec_inv sz m" "ec_cache_size m = n" using encoder_reach_inv [OF assms(3) sz assms(2)] by auto
  note le = free_le_freeable [OF inv(1) sz] and emb = input_embeds [OF assms(4,5)]
  let ?n = "sz (item_hash r i) + pending"
  have "if budget < sz (item_hash r i) \<or> num_freeable_slots m < ?n then can_allocate r i budget pending m = Inr (False, m)
     else \<exists>k m'. can_allocate r i budget pending m = Inr (True, m') \<and> ?n \<le> num_free_slots m' \<and>
       freeable m' = drop k (freeable m) \<and> freed m' = freed m @ map fst (take k (freeable m)) \<and>
       map_of (cached m') = map_of (cached m) |` (- fst ` set (take k (freeable m))) \<and>
       (k = 0 \<or> num_free_slots m + sum_list (map snd (take (k - 1) (freeable m))) < ?n)"
  proof (cases "budget < sz (item_hash r i) \<or> num_freeable_slots m < ?n")
    case True
    then show ?thesis using emb le by (auto simp: can_allocate_def Let_def)
  next
    case False
    then obtain k m' where ev: "evict_loop ?n m = Inr m'" "?n \<le> num_free_slots m'"
       "freeable m' = drop k (freeable m)" "freed m' = freed m @ map fst (take k (freeable m))"
       "map_of (cached m') = map_of (cached m) |` (- fst ` set (take k (freeable m)))"
       "k = 0 \<or> num_free_slots m + sum_list (map snd (take (k - 1) (freeable m))) < ?n"
      using evict_ok [OF inv(1) sz, of ?n] by auto
    have "can_allocate r i budget pending m = Inr (True, m')"
      using False emb ev(1) evict_loop_enough [of ?n m] by (cases "?n \<le> num_free_slots m") (simp_all add: can_allocate_def Let_def)
    then show ?thesis using False ev(2-) by auto
  qed
  then show ?thesis using ec_invD [OF inv(1)] inv(2) by simp
qed

text \<open>
  C10. Planning the encoder inputs of a request never raises in a reachable state, the number of new
  tokens is only ever reduced, and to no less than zero; and whatever requests are preempted in between, the
  planned inputs can all be allocated afterwards: no assertion of \<open>allocate\<close> fails, and each of them
  is then cached and referenced by the request.
\<close>

theorem planned_encoder_inputs_fit:
  assumes "\<forall>h. 0 \<le> sz h" "0 \<le> n" "encoder_reach sz n m" "inputs_ok sz r"
  shows "\<exists>inputs new' budget' external m1.
    try_schedule_encoder_inputs no_chunk remote r computed new budget shift (MultiModal m) =
      Inr ((inputs, new', budget', external), MultiModal m1) \<and>
    (0 \<le> new \<longrightarrow> 0 \<le> new' \<and> new' \<le> new) \<and>
    (\<forall>m2. released sz m1 m2 \<longrightarrow>
      (\<exists>m3. allocate_encoder_inputs r inputs external (MultiModal m2) = Inr (MultiModal m3) \<and>
        (\<forall>i \<in> set (inputs @ external). map_of (cached m3) (item_hash r i) = Some {request_id r})))"
proof -
  have sz: "\<And>h. 0 \<le> sz h" using assms(1) by blast
  have inv: "ec_inv sz m" using encoder_reach_inv [OF assms(3) sz assms(2)] by blast
  from try_schedule_ok [OF inv sz assms(4), of no_chunk remote computed new budget shift]
  obtain inputs new' budget' external m1 where p:
    "try_schedule_encoder_inputs no_chunk remote r computed new budget shift (MultiModal m) =
      Inr ((inputs, new', budget', external), MultiModal m1)"
    "reserved sz r (inputs @ external) m1" "0 \<le> new \<longrightarrow> 0 \<le> new' \<and> new' \<le> new" by blast
  show ?thesis using p planned_allocates [OF p(2) _ sz assms(4)]
    by (intro exI [of _ inputs] exI [of _ new'] exI [of _ budget'] exI [of _ external] exI [of _ m1]) blast
qed

definition image_request :: "string \<Rightarrow> int \<Rightarrow> mm_feature list \<Rightarrow> request" where
  "image_request rid n mm =
     request_fields (16, WAITING, None) n rid (Some (replicate (nat n) 7)) None None 0 None mm None None 0 None False"

definition image_item :: "string \<Rightarrow> int \<Rightarrow> int \<Rightarrow> mm_feature" where
  "image_item h off len = \<lparr>mm_identifier = h, mm_offset = off, mm_length = len, is_embed = None\<rparr>"





text \<open>A concrete cache: two items of three slots are held, one of them released again.\<close>

lemma image_request_simps [simp]:
  "mm_features (image_request rid n mm) = mm" "request_id (image_request rid n mm) = rid"
  by (simp_all add: image_request_def request_fields_def)

definition demo_images :: request where
  "demo_images = image_request ''a'' 16 [image_item ''x'' 0 3, image_item ''y'' 4 3]"

definition demo_cache :: encoder_cache where
  "demo_cache = \<lparr>ec_cache_size = 8, num_free_slots = 2, num_freeable_slots = 5,
     cached = [(''x'', {}), (''y'', {''a''})], freeable = [(''x'', 3)], freed = []\<rparr>"

lemma demo_images_ok: "inputs_ok (\<lambda>_. 3) demo_images"
  by (simp add: inputs_ok_def feature_ok_def demo_images_def image_item_def get_num_embeds_def embeds_cumsum_def)

lemma demo_cache_reached: "encoder_reach (\<lambda>_. 3) 8 demo_cache"
proof -
  define m where "m = \<lparr>ec_cache_size = 8, num_free_slots = 2, num_freeable_slots = 2,
    cached = [(''x'', {''a''}), (''y'', {''a''})], freeable = [], freed = []\<rparr>"
  have plan: "try_schedule_encoder_inputs False (\<lambda>_. False) demo_images 0 16 10 0 (MultiModal (encoder_cache_init 8)) =
      Inr (([0, 1], 16, 4, []), MultiModal (encoder_cache_init 8))"
    by (simp add: try_schedule_encoder_inputs_def demo_images_def image_item_def
        encoder_cache_init_def check_and_update_cache_def can_allocate_def get_num_encoder_embeds_def
        get_num_embeds_def embeds_cumsum_def get_embeds_indices_in_range_def py_get_def py_len_def Let_def)
  have alloc: "allocate_encoder_inputs demo_images [0, 1] [] (MultiModal (encoder_cache_init 8)) = Inr (MultiModal m)"
    by (simp add: allocate_encoder_inputs_def demo_images_def image_item_def allocate_def m_def
        encoder_cache_init_def get_num_encoder_embeds_def get_num_embeds_def embeds_cumsum_def py_get_def py_len_def Let_def)
  have first: "encoder_step (\<lambda>_. 3) (encoder_cache_init 8) m"
    by (rule scheduled [OF demo_images_ok plan released.intros(1) alloc])
  let ?r = "demo_images\<lparr>num_computed_tokens := 3\<rparr>"
  have ok: "inputs_ok (\<lambda>_. 3) ?r" using demo_images_ok by (simp add: inputs_ok_def)
  have ids: "set [0, 1] = get_cached_input_ids ?r m"
    by (auto simp: get_cached_input_ids_def demo_images_def image_item_def m_def py_len_def upto_rec1)
  have "free_encoder_inputs [0, 1] ?r (MultiModal m) = Inr (MultiModal demo_cache)"
    by (simp add: free_encoder_inputs_def free_processed_input_def free_encoder_input_def demo_images_def image_item_def m_def
        demo_cache_def get_num_encoder_embeds_def get_num_embeds_def embeds_cumsum_def py_get_def py_len_def Let_def)
  then have "encoder_step (\<lambda>_. 3) m demo_cache" by (rule freed_processed [OF ok ids])
  with first show ?thesis unfolding encoder_reach_def by (meson converse_rtranclp_into_rtranclp rtranclp.rtrancl_refl)
qed

lemma demo_item_ok: "inputs_ok (\<lambda>_. 3) (image_request ''b'' 9 [image_item ''z'' 0 3])"
  "valid_input (image_request ''b'' 9 [image_item ''z'' 0 3]) 0"
  by (simp_all add: inputs_ok_def feature_ok_def image_item_def get_num_embeds_def embeds_cumsum_def valid_input_def py_len_def)

theorem encoder_cache_accounting_witness:
  "\<exists>m'. can_allocate (image_request ''b'' 9 [image_item ''z'' 0 3]) 0 8 0 demo_cache = Inr (True, m') \<and>
     3 \<le> num_free_slots m' \<and> freed m' = [''x''] \<and> freeable m' = []"
proof -
  note a = encoder_cache_accounting [of "\<lambda>_. 3" 8 demo_cache "image_request ''b'' 9 [image_item ''z'' 0 3]" 0 8 0,
      OF _ _ demo_cache_reached demo_item_ok]
  then obtain k m' where m': "can_allocate (image_request ''b'' 9 [image_item ''z'' 0 3]) 0 8 0 demo_cache = Inr (True, m')"
    "3 \<le> num_free_slots m'" "freeable m' = drop k (freeable demo_cache)"
    "freed m' = freed demo_cache @ map fst (take k (freeable demo_cache))"
    by (auto simp: demo_cache_def)
  have "freed m' = [''x'']"
    using m'(1) by (auto simp: can_allocate_def get_num_encoder_embeds_def get_num_embeds_def embeds_cumsum_def image_item_def
        demo_cache_def py_get_def py_len_def evict_loop.simps)
  then show ?thesis using m' by (cases k) (simp_all add: demo_cache_def)
qed

theorem planned_encoder_inputs_fit_witness:
  "\<exists>inputs new' budget' external m1.
    try_schedule_encoder_inputs False (\<lambda>_. False) (image_request ''b'' 9 [image_item ''z'' 0 3]) 0 9 8 0 (MultiModal demo_cache) =
      Inr ((inputs, new', budget', external), MultiModal m1) \<and>
    (\<exists>m3. allocate_encoder_inputs (image_request ''b'' 9 [image_item ''z'' 0 3]) inputs external (MultiModal m1) =
      Inr (MultiModal m3))"
  using planned_encoder_inputs_fit [OF _ _ demo_cache_reached demo_item_ok(1), of False "\<lambda>_. False" 0 9 8 0]
    released.intros(1) by fastforce

end
