(* ===== verification/Request_Queue.thy ===== *)
theory Request_Queue
  imports Request "HOL-Library.Multiset"
begin

text \<open>
  \<^verbatim>\<open>vllm/v1/core/sched/request_queue.py\<close>: the first-come-first-served queue (a deque, here a list)
  and the priority queue, a binary heap in a list kept by Python's \<^verbatim>\<open>heapq\<close>.  The functions of
  \<^verbatim>\<open>heapq\<close> are written as in the standard library, over an arbitrary \<open>lt\<close>; the positions they
  use are always inside the list.  Requests are objects that other parts of the program hold and change
  too: a queue holds references, a store maps a reference to the content of the object, equality of
  requests is equality of references, and the order is \<^verbatim>\<open>Request.__lt__\<close> on the contents.
\<close>

section \<open>Python's heapq\<close>

function siftdown_loop :: "('a \<Rightarrow> 'a \<Rightarrow> bool) \<Rightarrow> 'a \<Rightarrow> 'a list \<Rightarrow> nat \<Rightarrow> nat \<Rightarrow> 'a list" where
  "siftdown_loop lt newitem heap startpos pos =
     (if startpos < pos
      then let parentpos = (pos - 1) div 2; parent = heap ! parentpos
           in if lt newitem parent then siftdown_loop lt newitem (heap[pos := parent]) startpos parentpos
              else heap[pos := newitem]
      else heap[pos := newitem])"
  by pat_completeness auto
termination
  by (relation "measure (\<lambda>(lt, newitem, heap, startpos, pos). pos)") auto

declare siftdown_loop.simps [simp del]

definition siftdown :: "('a \<Rightarrow> 'a \<Rightarrow> bool) \<Rightarrow> 'a list \<Rightarrow> nat \<Rightarrow> nat \<Rightarrow> 'a list" where
  "siftdown lt heap startpos pos = siftdown_loop lt (heap ! pos) heap startpos pos"

function siftup_loop :: "('a \<Rightarrow> 'a \<Rightarrow> bool) \<Rightarrow> 'a list \<Rightarrow> nat \<Rightarrow> 'a list \<times> nat" where
  "siftup_loop lt heap pos =
     (let left = 2 * pos + 1
      in if left < length heap
         then let childpos = (if left + 1 < length heap \<and> \<not> lt (heap ! left) (heap ! (left + 1)) then left + 1 else left)
              in siftup_loop lt (heap[pos := heap ! childpos]) childpos
         else (heap, pos))"
  by pat_completeness auto
termination
  by (relation "measure (\<lambda>(lt, heap, pos). length heap - pos)") (auto simp: Let_def)

declare siftup_loop.simps [simp del]

definition siftup :: "('a \<Rightarrow> 'a \<Rightarrow> bool) \<Rightarrow> 'a list \<Rightarrow> nat \<Rightarrow> 'a list" where
  "siftup lt heap pos =
     (let newitem = heap ! pos; (heap', pos') = siftup_loop lt heap pos
      in siftdown lt (heap'[pos' := newitem]) pos pos')"

definition heappush :: "('a \<Rightarrow> 'a \<Rightarrow> bool) \<Rightarrow> 'a list \<Rightarrow> 'a \<Rightarrow> 'a list" where
  "heappush lt heap item = siftdown lt (heap @ [item]) 0 (length heap)"

definition heappop :: "('a \<Rightarrow> 'a \<Rightarrow> bool) \<Rightarrow> 'a list \<Rightarrow> ('a \<times> 'a list) res" where
  "heappop lt heap =
     (if heap = [] then Inl IndexError
      else let lastelt = last heap; rest = butlast heap
           in if rest = [] then Inr (lastelt, rest)
              else Inr (rest ! 0, siftup lt (rest[0 := lastelt]) 0))"

definition heapify :: "('a \<Rightarrow> 'a \<Rightarrow> bool) \<Rightarrow> 'a list \<Rightarrow> 'a list" where
  "heapify lt heap = fold (\<lambda>i h. siftup lt h i) (rev [0..<length heap div 2]) heap"

section \<open>Request queues\<close>

type_synonym store = "nat \<Rightarrow> request"

definition ref_lt :: "store \<Rightarrow> nat \<Rightarrow> nat \<Rightarrow> bool" where
  "ref_lt st a b = request_lt a (st a) b (st b)"

text \<open>\<^verbatim>\<open>list.remove\<close> and \<^verbatim>\<open>deque.remove\<close>: the first occurrence.\<close>

definition remove_ref :: "nat \<Rightarrow> nat list \<Rightarrow> nat list res" where
  "remove_ref x xs = (if x \<in> set xs then Inr (remove1 x xs) else Inl ValueError)"

datatype scheduling_policy = FCFS | PRIORITY

datatype request_queue = FCFSQueue "nat list" | PriorityQueue "nat list"

definition create_request_queue :: "scheduling_policy \<Rightarrow> request_queue" where
  "create_request_queue p = (case p of PRIORITY \<Rightarrow> PriorityQueue [] | FCFS \<Rightarrow> FCFSQueue [])"

fun add_request :: "store \<Rightarrow> nat \<Rightarrow> request_queue \<Rightarrow> request_queue" where
  "add_request st x (FCFSQueue xs) = FCFSQueue (xs @ [x])"
| "add_request st x (PriorityQueue h) = PriorityQueue (heappush (ref_lt st) h x)"

fun pop_request :: "store \<Rightarrow> request_queue \<Rightarrow> (nat \<times> request_queue) res" where
  "pop_request st (FCFSQueue xs) = (case xs of [] \<Rightarrow> Inl IndexError | x # rest \<Rightarrow> Inr (x, FCFSQueue rest))"
| "pop_request st (PriorityQueue h) = rbind (heappop (ref_lt st) h) (\<lambda>(x, h'). Inr (x, PriorityQueue h'))"

fun peek_request :: "request_queue \<Rightarrow> nat res" where
  "peek_request (FCFSQueue xs) = (if xs = [] then Inl IndexError else Inr (xs ! 0))"
| "peek_request (PriorityQueue h) = (if h = [] then Inl IndexError else Inr (h ! 0))"

fun prepend_request :: "store \<Rightarrow> nat \<Rightarrow> request_queue \<Rightarrow> request_queue" where
  "prepend_request st x (FCFSQueue xs) = FCFSQueue (x # xs)"
| "prepend_request st x (PriorityQueue h) = add_request st x (PriorityQueue h)"

text \<open>\<^verbatim>\<open>__iter__\<close>: the priority queue pops from a copy until it is empty; every pop shortens it by one.\<close>

fun drain :: "store \<Rightarrow> nat \<Rightarrow> nat list \<Rightarrow> nat list res" where
  "drain st 0 h = Inr []"
| "drain st (Suc n) h =
     (if h = [] then Inr [] else rbind (heappop (ref_lt st) h) (\<lambda>(x, h'). rbind (drain st n h') (\<lambda>xs. Inr (x # xs))))"

fun iter_requests :: "store \<Rightarrow> request_queue \<Rightarrow> nat list res" where
  "iter_requests st (FCFSQueue xs) = Inr xs"
| "iter_requests st (PriorityQueue h) = drain st (length h) h"

definition prepend_requests :: "store \<Rightarrow> request_queue \<Rightarrow> request_queue \<Rightarrow> request_queue res" where
  "prepend_requests st others q =
     rbind (iter_requests st others) (\<lambda>xs.
       Inr (case q of
              FCFSQueue ys \<Rightarrow> FCFSQueue (rev xs @ ys)
            | PriorityQueue h \<Rightarrow> fold (add_request st) xs (PriorityQueue h)))"

fun remove_request :: "store \<Rightarrow> nat \<Rightarrow> request_queue \<Rightarrow> request_queue res" where
  "remove_request st x (FCFSQueue xs) = rbind (remove_ref x xs) (\<lambda>ys. Inr (FCFSQueue ys))"
| "remove_request st x (PriorityQueue h) =
     rbind (remove_ref x h) (\<lambda>ys. Inr (PriorityQueue (heapify (ref_lt st) ys)))"

fun remove_requests :: "store \<Rightarrow> nat set \<Rightarrow> request_queue \<Rightarrow> request_queue" where
  "remove_requests st rs (FCFSQueue xs) = FCFSQueue (filter (\<lambda>x. x \<notin> rs) xs)"
| "remove_requests st rs (PriorityQueue h) = PriorityQueue (heapify (ref_lt st) (filter (\<lambda>x. x \<notin> rs) h))"

fun queue_len :: "request_queue \<Rightarrow> int" where
  "queue_len (FCFSQueue xs) = py_len xs"
| "queue_len (PriorityQueue h) = py_len h"

definition queue_bool :: "request_queue \<Rightarrow> bool" where
  "queue_bool q \<longleftrightarrow> 0 < queue_len q"

section \<open>Heaps over a strict weak order\<close>

lemma mset_hole_swap:
  assumes "i < length xs" "j < length xs"
  shows "mset ((xs[i := xs ! j])[j := x]) = mset (xs[i := x])"
proof -
  have "(xs[i := xs ! j])[j := x] = (xs[i := x])[i := xs[i := x] ! j, j := xs[i := x] ! i]"
    using assms by (cases "i = j") (auto simp: list_update_swap)
  then show ?thesis using mset_swap [of j "xs[i := x]" i] assms by (cases "i = j") auto
qed

lemma parent_less: "0 < p \<Longrightarrow> (p - 1) div 2 < (p :: nat)"
  by simp

locale heap_order =
  fixes lt :: "'a \<Rightarrow> 'a \<Rightarrow> bool"
  assumes asym: "lt a b \<Longrightarrow> \<not> lt b a"
    and neg_trans: "\<not> lt a b \<Longrightarrow> \<not> lt b c \<Longrightarrow> \<not> lt a c"
begin

text \<open>The heap condition for all nodes whose parent is at least \<open>s\<close>, except for the pairs in \<open>E\<close>.\<close>

definition heap_from :: "nat \<Rightarrow> (nat \<Rightarrow> bool) \<Rightarrow> 'a list \<Rightarrow> bool" where
  "heap_from s E xs \<longleftrightarrow> (\<forall>i < length xs. 0 < i \<and> s \<le> (i - 1) div 2 \<and> \<not> E i \<longrightarrow> \<not> lt (xs ! i) (xs ! ((i - 1) div 2)))"

text \<open>\<open>pos\<close> lies in the subtree of \<open>s\<close>.\<close>

inductive below :: "nat \<Rightarrow> nat \<Rightarrow> bool" for s where
  "below s s"
| "below s p \<Longrightarrow> below s (2 * p + 1)"
| "below s p \<Longrightarrow> below s (2 * p + 2)"

lemma below_le: "below s p \<Longrightarrow> s \<le> p"
  by (induction rule: below.induct) auto

lemma below_parent: "below s p \<Longrightarrow> p \<noteq> s \<Longrightarrow> 0 < p \<and> s < p \<and> below s ((p - 1) div 2)"
  by (induction rule: below.induct) (auto dest: below_le)

lemma below_zero: "below 0 p"
proof (induction p rule: less_induct)
  case (less p)
  show ?case
  proof (cases "p = 0")
    case False
    then have "below 0 ((p - 1) div 2)" by (intro less) auto
    moreover have "p = 2 * ((p - 1) div 2) + 1 \<or> p = 2 * ((p - 1) div 2) + 2" using False by presburger
    ultimately show ?thesis using below.intros(2,3) by metis
  qed (simp add: below.intros)
qed

lemma heap_fromD:
  "heap_from s E xs \<Longrightarrow> i < length xs \<Longrightarrow> 0 < i \<Longrightarrow> s \<le> (i - 1) div 2 \<Longrightarrow> \<not> E i \<Longrightarrow> \<not> lt (xs ! i) (xs ! ((i - 1) div 2))"
  by (simp add: heap_from_def)

text \<open>One step of \<open>siftdown\<close>: the element at \<open>pos\<close> and its greater parent change places.\<close>

lemma sift_step:
  assumes pos: "s \<le> (pos - 1) div 2" "0 < pos" "pos < length ys"
    and heap: "heap_from s (\<lambda>i. i = pos) ys" and go: "lt (ys ! pos) (ys ! ((pos - 1) div 2))"
    and child: "\<And>c. c < length ys \<Longrightarrow> 0 < c \<Longrightarrow> (c - 1) div 2 = pos \<Longrightarrow> \<not> lt (ys ! c) (ys ! ((pos - 1) div 2))"
    and zs: "zs = ys[pos := ys ! ((pos - 1) div 2), (pos - 1) div 2 := ys ! pos]"
  shows "heap_from s (\<lambda>i. i = (pos - 1) div 2) zs"
  unfolding heap_from_def
proof (intro allI impI)
  let ?pp = "(pos - 1) div 2"
  have z: "zs ! pos = ys ! ?pp" "zs ! ?pp = ys ! pos" "\<And>i. i \<noteq> pos \<Longrightarrow> i \<noteq> ?pp \<Longrightarrow> zs ! i = ys ! i"
    using pos unfolding zs by (auto simp: nth_list_update)
  fix i assume i: "i < length zs" "0 < i \<and> s \<le> (i - 1) div 2 \<and> i \<noteq> ?pp"
  then have len: "i < length ys" using zs by simp
  consider "i = pos" | "i \<noteq> pos" "(i - 1) div 2 = pos" | "i \<noteq> pos" "(i - 1) div 2 = ?pp"
    | "i \<noteq> pos" "(i - 1) div 2 \<noteq> pos" "(i - 1) div 2 \<noteq> ?pp" by blast
  then show "\<not> lt (zs ! i) (zs ! ((i - 1) div 2))"
  proof cases
    case 1
    then show ?thesis using asym [OF go] z(1,2) by simp
  next
    case 2
    then show ?thesis using child [OF len] i z(1,3) by simp
  next
    case 3
    then have "\<not> lt (ys ! i) (ys ! ?pp)" using heap_fromD [OF heap len] i by metis
    from neg_trans [OF this asym [OF go]] show ?thesis using z(2) z(3) [of i] i 3 by metis
  next
    case 4
    then show ?thesis using heap_fromD [OF heap len] i z(3) by metis
  qed
qed

lemma sift_step_children:
  assumes pos: "s \<le> (pos - 1) div 2" "0 < pos" "pos < length ys" "0 < (pos - 1) div 2" "s \<le> ((pos - 1) div 2 - 1) div 2"
    and heap: "heap_from s (\<lambda>i. i = pos) ys"
    and zs: "zs = ys[pos := ys ! ((pos - 1) div 2), (pos - 1) div 2 := ys ! pos]"
    and c: "c < length zs" "0 < c" "(c - 1) div 2 = (pos - 1) div 2"
  shows "\<not> lt (zs ! c) (zs ! (((pos - 1) div 2 - 1) div 2))"
proof -
  let ?pp = "(pos - 1) div 2" and ?gp = "((pos - 1) div 2 - 1) div 2"
  have lt: "?pp < pos" "?gp < ?pp" "c \<noteq> ?pp"
    using parent_less [OF pos(2)] parent_less [OF pos(4)] parent_less [OF c(2)] c(3) by auto
  have z: "zs ! pos = ys ! ?pp" "\<And>i. i \<noteq> pos \<Longrightarrow> i \<noteq> ?pp \<Longrightarrow> zs ! i = ys ! i"
    using pos(3) lt(1) unfolding zs by (auto simp: nth_list_update)
  have g: "\<not> lt (ys ! ?pp) (ys ! ?gp)" using heap_fromD [OF heap _ pos(4,5)] lt(1) pos(3) by simp
  have zg: "zs ! ?gp = ys ! ?gp" using z(2) lt by simp
  show ?thesis
  proof (cases "c = pos")
    case True
    then show ?thesis using g z(1) zg by simp
  next
    case False
    have "\<not> lt (ys ! c) (ys ! ?pp)" using heap_fromD [OF heap _ c(2)] c(1,3) pos(1) False zs by simp
    from neg_trans [OF this g] show ?thesis using z(2) [OF False lt(3)] zg by metis
  qed
qed

lemma siftdown_heap:
  assumes "below s pos" "pos < length xs" "ys = xs[pos := x]" "heap_from s (\<lambda>i. i = pos) ys"
    and "pos \<noteq> s \<Longrightarrow> \<forall>c < length ys. 0 < c \<and> (c - 1) div 2 = pos \<longrightarrow> \<not> lt (ys ! c) (ys ! ((pos - 1) div 2))"
  shows "heap_from s (\<lambda>_. False) (siftdown_loop lt x xs s pos) \<and> mset (siftdown_loop lt x xs s pos) = mset ys"
  using assms
proof (induction pos arbitrary: xs ys rule: less_induct)
  case (less pos)
  let ?pp = "(pos - 1) div 2"
  show ?case
  proof (cases "pos = s")
    case True
    then show ?thesis using less.prems by (auto simp: siftdown_loop.simps heap_from_def)
  next
    case False
    note par = below_parent [OF less.prems(1) False]
    have pp: "?pp < pos" "?pp < length xs" "s \<le> ?pp" using par less.prems(2) below_le by auto
    have at: "ys ! pos = x" "ys ! ?pp = xs ! ?pp" using less.prems(2,3) pp(1) by auto
    show ?thesis
    proof (cases "lt x (xs ! ?pp)")
      case stop: False
      then have "heap_from s (\<lambda>_. False) ys" using less.prems(4) at unfolding heap_from_def by metis
      then show ?thesis using stop par less.prems(3) by (simp add: siftdown_loop.simps Let_def)
    next
      case go: True
      let ?xs = "xs[pos := xs ! ?pp]"
      define zs where "zs = ?xs[?pp := x]"
      have zs: "zs = ys[pos := ys ! ?pp, ?pp := ys ! pos]" using less.prems(2,3) at by (simp add: zs_def)
      have len: "pos < length ys" using less.prems(2,3) by simp
      have pos: "0 < pos" using par by blast
      have hA: "heap_from s (\<lambda>i. i = ?pp) zs"
        using less.prems(5) [OF False] go at by (intro sift_step [OF pp(3) pos len less.prems(4) _ _ zs]) auto
      have hB: "\<forall>c < length zs. 0 < c \<and> (c - 1) div 2 = ?pp \<longrightarrow> \<not> lt (zs ! c) (zs ! ((?pp - 1) div 2))" if "?pp \<noteq> s"
      proof -
        have "0 < ?pp" "s \<le> (?pp - 1) div 2" using par below_parent [of s ?pp] that below_le by blast+
        from sift_step_children [OF pp(3) pos len this less.prems(4) zs] show ?thesis by blast
      qed
      have "below s ?pp" using par by blast
      moreover have "?pp < length ?xs" using pp(2) by simp
      ultimately have "heap_from s (\<lambda>_. False) (siftdown_loop lt x ?xs s ?pp) \<and> mset (siftdown_loop lt x ?xs s ?pp) = mset zs"
        by (rule less.IH [OF pp(1) _ _ zs_def hA hB])
      moreover have "mset zs = mset ys" using mset_hole_swap [of pos xs ?pp x] less.prems(2,3) pp zs_def by simp
      moreover have "siftdown_loop lt x xs s pos = siftdown_loop lt x ?xs s ?pp"
        using go par by (simp add: siftdown_loop.simps [of lt x xs] Let_def)
      ultimately show ?thesis by simp
    qed
  qed
qed

text \<open>\<open>siftup\<close> first moves the hole at \<open>pos\<close> down to a leaf.\<close>

lemma siftup_loop_heap:
  assumes "below s pos" "pos < length xs" "heap_from s (\<lambda>i. i = pos \<or> (i - 1) div 2 = pos) xs"
    and "pos \<noteq> s \<Longrightarrow> \<forall>c < length xs. 0 < c \<and> (c - 1) div 2 = pos \<longrightarrow> \<not> lt (xs ! c) (xs ! ((pos - 1) div 2))"
    and "siftup_loop lt xs pos = (ys, p)"
  shows "below s p \<and> p < length ys \<and> length ys \<le> 2 * p + 1 \<and> heap_from s (\<lambda>i. i = p) ys \<and>
    mset (ys[p := x]) = mset (xs[pos := x])"
  using assms
proof (induction "length xs - pos" arbitrary: xs pos rule: less_induct)
  case less
  let ?l = "2 * pos + 1"
  show ?case
  proof (cases "?l < length xs")
    case False
    then have y: "ys = xs" "p = pos" using less.prems(5) by (auto simp: siftup_loop.simps Let_def)
    have "(i - 1) div 2 \<noteq> pos" if "i < length xs" "0 < i" for i using False that by auto
    then have "heap_from s (\<lambda>i. i = pos) xs" using less.prems(3) unfolding heap_from_def by blast
    then show ?thesis using less.prems(1,2) False y by simp
  next
    case True
    define c where "c = (if ?l + 1 < length xs \<and> \<not> lt (xs ! ?l) (xs ! (?l + 1)) then ?l + 1 else ?l)"
    let ?xs = "xs[pos := xs ! c]"
    have c: "c < length xs" "pos < c" "(c - 1) div 2 = pos" "0 < c" using True by (auto simp: c_def)
    have le: "pos \<noteq> s \<Longrightarrow> s \<le> (pos - 1) div 2 \<and> (pos - 1) div 2 < pos"
      using below_parent [OF less.prems(1)] below_le parent_less by blast
    have smallest: "\<not> lt (xs ! i) (xs ! c)" if "i < length xs" "0 < i" "(i - 1) div 2 = pos" for i
    proof -
      have "i = ?l \<or> i = ?l + 1" using that by auto
      then show ?thesis using that(1) asym by (auto simp: c_def)
    qed
    have nth: "?xs ! i = (if i = pos then xs ! c else xs ! i)" for i using less.prems(2) by simp
    have "heap_from s (\<lambda>i. i = c \<or> (i - 1) div 2 = c) ?xs" unfolding heap_from_def
    proof (intro allI impI)
      fix i assume i: "i < length ?xs" "0 < i \<and> s \<le> (i - 1) div 2 \<and> \<not> (i = c \<or> (i - 1) div 2 = c)"
      show "\<not> lt (?xs ! i) (?xs ! ((i - 1) div 2))"
      proof (cases "i = pos")
        case True
        then have "pos \<noteq> s" using i parent_less [of i] by auto
        then show ?thesis using less.prems(4) c True le by (simp add: nth)
      next
        case False
        then show ?thesis using i smallest [of i] heap_fromD [OF less.prems(3), of i] by (auto simp: nth)
      qed
    qed
    moreover have "\<forall>d < length ?xs. 0 < d \<and> (d - 1) div 2 = c \<longrightarrow> \<not> lt (?xs ! d) (?xs ! ((c - 1) div 2))"
    proof (intro allI impI)
      fix d assume d: "d < length ?xs" "0 < d \<and> (d - 1) div 2 = c"
      have "s \<le> c" "d \<noteq> pos" "c \<noteq> pos" using below_le [OF less.prems(1)] c(2) d parent_less [of d] by auto
      then have "\<not> lt (xs ! d) (xs ! c)" using heap_fromD [OF less.prems(3), of d] d by auto
      then show "\<not> lt (?xs ! d) (?xs ! ((c - 1) div 2))" using \<open>d \<noteq> pos\<close> c(3) nth by simp
    qed
    moreover have "siftup_loop lt xs pos = siftup_loop lt ?xs c"
      by (subst siftup_loop.simps) (simp only: Let_def True if_True c_def)
    then have "siftup_loop lt ?xs c = (ys, p)" using less.prems(5) by simp
    moreover have "below s c" using below.intros(2,3) [OF less.prems(1)] by (simp add: c_def)
    moreover have "length ?xs - c < length xs - pos" using c by simp
    ultimately have "below s p \<and> p < length ys \<and> length ys \<le> 2 * p + 1 \<and> heap_from s (\<lambda>i. i = p) ys \<and>
        mset (ys[p := x]) = mset (?xs[c := x])"
      using c(1) by (intro less.hyps) simp_all
    then show ?thesis using mset_hole_swap [of pos xs c x] less.prems(2) c(1) by simp
  qed
qed

lemma siftup_heap:
  assumes "pos < length xs" "heap_from (Suc pos) (\<lambda>_. False) xs"
  shows "heap_from pos (\<lambda>_. False) (siftup lt xs pos) \<and> mset (siftup lt xs pos) = mset xs"
proof -
  obtain ys p where y: "siftup_loop lt xs pos = (ys, p)" by force
  have "heap_from pos (\<lambda>i. i = pos \<or> (i - 1) div 2 = pos) xs" using assms(2) unfolding heap_from_def by (auto simp: Suc_le_eq)
  from siftup_loop_heap [OF below.intros(1) assms(1) this _ y, of "xs ! pos"]
  have l: "below pos p" "p < length ys" "length ys \<le> 2 * p + 1" "heap_from pos (\<lambda>i. i = p) ys"
    "mset (ys[p := xs ! pos]) = mset xs" by simp_all
  let ?ys = "ys[p := xs ! pos]"
  have leaf: "(c - 1) div 2 \<noteq> p" if "c < length ys" "0 < c" for c using that l(3) by auto
  have hp: "heap_from pos (\<lambda>i. i = p) ?ys" unfolding heap_from_def
  proof (intro allI impI)
    fix i assume i: "i < length ?ys" "0 < i \<and> pos \<le> (i - 1) div 2 \<and> i \<noteq> p"
    then show "\<not> lt (?ys ! i) (?ys ! ((i - 1) div 2))" using heap_fromD [OF l(4), of i] leaf [of i] by simp
  qed
  have "heap_from pos (\<lambda>_. False) (siftdown_loop lt (xs ! pos) ?ys pos p) \<and>
      mset (siftdown_loop lt (xs ! pos) ?ys pos p) = mset ?ys"
    using l(2) leaf by (intro siftdown_heap [OF l(1) _ _ hp]) auto
  then show ?thesis using l(2,5) by (simp add: siftup_def siftdown_def y Let_def)
qed

lemma heappush_heap:
  assumes "heap_from 0 (\<lambda>_. False) xs"
  shows "heap_from 0 (\<lambda>_. False) (heappush lt xs x) \<and> mset (heappush lt xs x) = add_mset x (mset xs)"
proof -
  let ?ys = "xs @ [x]"
  have hp: "heap_from 0 (\<lambda>i. i = length xs) ?ys" unfolding heap_from_def
  proof (intro allI impI)
    fix i assume i: "i < length ?ys" "0 < i \<and> 0 \<le> (i - 1) div 2 \<and> i \<noteq> length xs"
    then have "i < length xs" "(i - 1) div 2 < length xs" using parent_less [of i] by auto
    then show "\<not> lt (?ys ! i) (?ys ! ((i - 1) div 2))" using heap_fromD [OF assms, of i] i by (simp add: nth_append)
  qed
  have "(c - 1) div 2 \<noteq> length xs" if "c < length ?ys" "0 < c" for c using that parent_less [of c] by auto
  then have "heap_from 0 (\<lambda>_. False) (siftdown_loop lt x ?ys 0 (length xs)) \<and>
      mset (siftdown_loop lt x ?ys 0 (length xs)) = mset ?ys"
    by (intro siftdown_heap [OF below_zero _ _ hp]) auto
  then show ?thesis by (simp add: heappush_def siftdown_def)
qed

lemma heap_root_least:
  assumes "heap_from 0 (\<lambda>_. False) xs" "i < length xs"
  shows "\<not> lt (xs ! i) (xs ! 0)"
  using assms(2)
proof (induction i rule: less_induct)
  case (less i)
  show ?case
  proof (cases "i = 0")
    case True
    then show ?thesis using asym by blast
  next
    case False
    then have "\<not> lt (xs ! i) (xs ! ((i - 1) div 2))" using heap_fromD [OF assms(1) less.prems] by simp
    moreover have "(i - 1) div 2 < i" using False parent_less by simp
    then have "\<not> lt (xs ! ((i - 1) div 2)) (xs ! 0)" using less.IH less.prems less_trans by blast
    ultimately show ?thesis by (rule neg_trans)
  qed
qed

lemma heappop_heap:
  assumes "heap_from 0 (\<lambda>_. False) xs" "xs \<noteq> []"
  shows "\<exists>h. heappop lt xs = Inr (xs ! 0, h) \<and> heap_from 0 (\<lambda>_. False) h \<and> mset xs = add_mset (xs ! 0) (mset h)"
proof (cases "butlast xs = []")
  case True
  then obtain x where "xs = [x]" using assms(2) by (metis append_butlast_last_id append_Nil)
  then show ?thesis by (simp add: heappop_def heap_from_def)
next
  case False
  define r where "r = butlast xs"
  have xs: "xs = r @ [last xs]" using assms(2) by (simp add: r_def)
  have r: "r \<noteq> []" using False by (simp add: r_def)
  have sub: "\<not> lt (r ! i) (r ! ((i - 1) div 2))" if "i < length r" "0 < i" for i
  proof -
    have "(i - 1) div 2 < length r" using that parent_less [of i] by simp
    then have "xs ! i = r ! i" "xs ! ((i - 1) div 2) = r ! ((i - 1) div 2)"
      using that nth_butlast [of _ xs] by (simp_all add: r_def)
    moreover have "length xs = length r + 1" using xs by (metis length_append_singleton Suc_eq_plus1)
    ultimately show ?thesis using heap_fromD [OF assms(1), of i] that by simp
  qed
  let ?r = "r[0 := last xs]"
  have "heap_from (Suc 0) (\<lambda>_. False) ?r" unfolding heap_from_def using sub by auto
  then have "heap_from 0 (\<lambda>_. False) (siftup lt ?r 0)" "mset (siftup lt ?r 0) = mset ?r"
    using siftup_heap [of 0 ?r] r by simp_all
  moreover have "heappop lt xs = Inr (r ! 0, siftup lt ?r 0)" using assms(2) r by (simp add: heappop_def Let_def r_def)
  moreover have "xs ! 0 = r ! 0" using xs r by (metis length_greater_0_conv nth_append)
  moreover have "mset xs = add_mset (r ! 0) (mset ?r)"
    using r by (subst xs) (cases r; simp)
  ultimately show ?thesis by auto
qed

lemma heapify_steps:
  assumes "k \<le> length xs" "heap_from k (\<lambda>_. False) xs"
  shows "heap_from 0 (\<lambda>_. False) (fold (\<lambda>i h. siftup lt h i) (rev [0..<k]) xs) \<and>
    mset (fold (\<lambda>i h. siftup lt h i) (rev [0..<k]) xs) = mset xs"
  using assms
proof (induction k arbitrary: xs)
  case (Suc k)
  then have s: "heap_from k (\<lambda>_. False) (siftup lt xs k)" "mset (siftup lt xs k) = mset xs" using siftup_heap [of k xs] by simp_all
  then have "k \<le> length (siftup lt xs k)" using Suc.prems(1) mset_eq_length [OF s(2)] by simp
  from Suc.IH [OF this s(1)] show ?case using s(2) by simp
qed simp

lemma heapify_heap: "heap_from 0 (\<lambda>_. False) (heapify lt xs) \<and> mset (heapify lt xs) = mset xs"
proof -
  have "heap_from (length xs div 2) (\<lambda>_. False) xs" unfolding heap_from_def by auto
  then show ?thesis using heapify_steps [of "length xs div 2" xs] by (simp add: heapify_def)
qed

end

end
