(* ===== verification/Request_Queue_Props.thy ===== *)
theory Request_Queue_Props
  imports Request_Queue
begin

text \<open>
  The order of requests is a strict weak order, so the heap lemmas hold for the priority queue: every
  state its operations reach is a heap, and the queue behaves as the sorted list of its requests.
\<close>

section \<open>The order of requests\<close>

lemma str_less_irrefl: "\<not> str_less xs xs"
  by (induction xs) auto

lemma str_less_trans: "str_less xs ys \<Longrightarrow> str_less ys zs \<Longrightarrow> str_less xs zs"
proof (induction xs ys arbitrary: zs rule: str_less.induct)
  case (2 y ys)
  then show ?case by (cases zs) auto
next
  case (3 x xs y ys)
  then show ?case by (cases zs) auto
qed simp

lemma str_less_linear: "xs = ys \<or> str_less xs ys \<or> str_less ys xs"
proof (induction xs ys rule: str_less.induct)
  case (1 xs)
  then show ?case by (cases xs) auto
next
  case (3 x xs y ys)
  then show ?case by (metis linorder_less_linear of_char_eq_iff str_less.simps(3))
qed simp

lemma str_less_asym: "str_less xs ys \<Longrightarrow> \<not> str_less ys xs"
  using str_less_irrefl str_less_trans by blast

lemma ref_lt_asym: "ref_lt st a b \<Longrightarrow> \<not> ref_lt st b a"
  using str_less_asym [of "request_id (st a)" "request_id (st b)"]
  by (auto simp: ref_lt_def request_lt_def split: if_splits)

lemma not_ref_lt:
  "\<not> ref_lt st a b \<longleftrightarrow>
     priority (st b) < priority (st a) \<or> priority (st b) = priority (st a) \<and>
     (arrival_time (st b) < arrival_time (st a) \<or> arrival_time (st b) = arrival_time (st a) \<and>
      (str_less (request_id (st b)) (request_id (st a)) \<or> request_id (st b) = request_id (st a) \<and> b \<le> a))"
  using str_less_linear [of "request_id (st a)" "request_id (st b)"] str_less_asym [of "request_id (st a)" "request_id (st b)"]
    str_less_irrefl [of "request_id (st a)"]
  by (auto simp: ref_lt_def request_lt_def)

lemma ref_lt_neg_trans: "\<not> ref_lt st a b \<Longrightarrow> \<not> ref_lt st b c \<Longrightarrow> \<not> ref_lt st a c"
  unfolding not_ref_lt
  using str_less_trans [of "request_id (st c)" "request_id (st b)" "request_id (st a)"] by auto

interpretation rq: heap_order "ref_lt st" for st
  by unfold_locales (fact ref_lt_asym, fact ref_lt_neg_trans)

section \<open>The priority queue\<close>

fun contents :: "request_queue \<Rightarrow> nat list" where
  "contents (FCFSQueue xs) = xs"
| "contents (PriorityQueue h) = h"

fun policy_of :: "request_queue \<Rightarrow> scheduling_policy" where
  "policy_of (FCFSQueue xs) = FCFS"
| "policy_of (PriorityQueue h) = PRIORITY"

fun queue_ok :: "store \<Rightarrow> request_queue \<Rightarrow> bool" where
  "queue_ok st (FCFSQueue xs) = True"
| "queue_ok st (PriorityQueue h) = rq.heap_from st 0 (\<lambda>_. False) h"

definition same_keys :: "store \<Rightarrow> store \<Rightarrow> bool" where
  "same_keys st st' \<longleftrightarrow> (\<forall>x. priority (st' x) = priority (st x) \<and> arrival_time (st' x) = arrival_time (st x) \<and>
     request_id (st' x) = request_id (st x))"

text \<open>
  The states the operations reach.  Requests may also be moved over from another queue, and the contents
  of the objects may change, except for what the order depends on.
\<close>

inductive queue_reach :: "scheduling_policy \<Rightarrow> store \<Rightarrow> request_queue \<Rightarrow> bool" where
  created: "queue_reach p st (create_request_queue p)"
| added: "queue_reach p st q \<Longrightarrow> queue_reach p st (add_request st x q)"
| prepended: "queue_reach p st q \<Longrightarrow> queue_reach p st (prepend_request st x q)"
| moved: "queue_reach p st q \<Longrightarrow> queue_reach p st others \<Longrightarrow> prepend_requests st others q = Inr q' \<Longrightarrow> queue_reach p st q'"
| popped: "queue_reach p st q \<Longrightarrow> pop_request st q = Inr (x, q') \<Longrightarrow> queue_reach p st q'"
| removed: "queue_reach p st q \<Longrightarrow> remove_request st x q = Inr q' \<Longrightarrow> queue_reach p st q'"
| removed_all: "queue_reach p st q \<Longrightarrow> queue_reach p st (remove_requests st xs q)"
| changed: "queue_reach p st q \<Longrightarrow> same_keys st st' \<Longrightarrow> queue_reach p st' q"

lemma same_keys_ok: "same_keys st st' \<Longrightarrow> queue_ok st' q = queue_ok st q"
  by (cases q) (simp_all add: same_keys_def rq.heap_from_def ref_lt_def request_lt_def)

lemma add_request_ok:
  "queue_ok st q \<Longrightarrow> queue_ok st (add_request st x q) \<and> mset (contents (add_request st x q)) = add_mset x (mset (contents q))"
  using rq.heappush_heap by (cases q) auto

lemma fold_add_ok:
  "queue_ok st q \<Longrightarrow> queue_ok st (fold (add_request st) xs q) \<and>
     mset (contents (fold (add_request st) xs q)) = mset xs + mset (contents q)"
  by (induction xs arbitrary: q) (auto simp: add_request_ok)

lemma fold_add_policy [simp]: "policy_of (fold (add_request st) xs q) = policy_of q"
proof (induction xs arbitrary: q)
  case (Cons x xs)
  then show ?case by (cases q) auto
qed simp

lemma pop_request_ok:
  assumes "queue_ok st q" "pop_request st q = Inr (x, q')"
  shows "queue_ok st q' \<and> policy_of q' = policy_of q"
proof (cases q)
  case (FCFSQueue xs)
  then show ?thesis using assms(2) by (cases xs) auto
next
  case (PriorityQueue h)
  then have "h \<noteq> []" using assms(2) by (auto simp: heappop_def)
  then show ?thesis using rq.heappop_heap [of st h] PriorityQueue assms by auto
qed

lemma prepend_requests_ok:
  assumes "queue_ok st q" "prepend_requests st others q = Inr q'"
  shows "queue_ok st q' \<and> policy_of q' = policy_of q"
proof (cases q)
  case (FCFSQueue xs)
  then show ?thesis using assms(2) by (auto simp: prepend_requests_def rbind_eq_Inr)
next
  case (PriorityQueue h)
  then obtain xs where "q' = fold (add_request st) xs q" using assms(2) by (auto simp: prepend_requests_def rbind_eq_Inr)
  then show ?thesis using fold_add_ok [OF assms(1)] by simp
qed

lemma queue_reach_ok: "queue_reach p st q \<Longrightarrow> queue_ok st q \<and> policy_of q = p"
proof (induction rule: queue_reach.induct)
  case (created p st)
  then show ?case by (cases p) (simp_all add: create_request_queue_def rq.heap_from_def)
next
  case (added p st q x)
  then show ?case using add_request_ok [of st q x] fold_add_policy [of st "[x]" q] by simp
next
  case (prepended p st q x)
  then show ?case using add_request_ok [of st q x] by (cases q) auto
next
  case (moved p st q others q')
  then show ?case using prepend_requests_ok by blast
next
  case (popped p st q x q')
  then show ?case using pop_request_ok by blast
next
  case (removed p st q x q')
  then show ?case using rq.heapify_heap by (cases q) (auto simp: rbind_eq_Inr)
next
  case (removed_all p st q xs)
  then show ?case using rq.heapify_heap by (cases q) auto
next
  case (changed p st q st')
  then show ?case using same_keys_ok by blast
qed

lemma drain_sorted:
  assumes "rq.heap_from st 0 (\<lambda>_. False) h"
  shows "\<exists>xs. drain st (length h) h = Inr xs \<and> mset xs = mset h \<and> sorted_wrt (\<lambda>a b. \<not> ref_lt st b a) xs"
  using assms
proof (induction "length h" arbitrary: h)
  case 0
  then show ?case by simp
next
  case (Suc n)
  then have ne: "h \<noteq> []" by auto
  obtain h' where h': "heappop (ref_lt st) h = Inr (h ! 0, h')" "rq.heap_from st 0 (\<lambda>_. False) h'"
    "mset h = add_mset (h ! 0) (mset h')" using rq.heappop_heap [OF Suc.prems ne] by blast
  have n: "n = length h'" using Suc.hyps(2) arg_cong [OF h'(3), of size] by simp
  obtain xs where xs: "drain st n h' = Inr xs" "mset xs = mset h'" "sorted_wrt (\<lambda>a b. \<not> ref_lt st b a) xs"
    using Suc.hyps(1) [OF n h'(2)] n by blast
  have least: "\<not> ref_lt st y (h ! 0)" if y: "y \<in> set xs" for y
  proof -
    have "set xs \<subseteq> set h" using xs(2) h'(3) by (metis set_mset_mset set_mset_add_mset_insert subset_insertI)
    then have "y \<in> set h" using y by blast
    then obtain i where "i < length h" "y = h ! i" unfolding in_set_conv_nth by blast
    then show ?thesis using rq.heap_root_least [OF Suc.prems] by blast
  qed
  show ?case using Suc.hyps(2) [symmetric] ne h' xs least by (intro exI [of _ "h ! 0 # xs"]) simp
qed

text \<open>
  C11. The priority queue behaves as the sorted list of its requests.  In every state its operations
  reach while no request in it changes its priority, arrival time or id, iterating yields all requests of
  the queue, none before one that \<^verbatim>\<open>Request.__lt__\<close> puts earlier, that is by priority and then arrival
  time; peeking gives the first of them, popping removes it and
  leaves the others in the same order, and on the empty queue both raise \<open>IndexError\<close>.  Adding a
  request adds just it, and removing a set of requests removes just them.
\<close>

theorem priority_queue_is_sorted_list:
  assumes "queue_reach PRIORITY st q"
  shows "\<exists>xs. iter_requests st q = Inr xs \<and> mset xs = mset (contents q) \<and>
    sorted_wrt (\<lambda>a b. \<not> ref_lt st b a) xs \<and>
    sorted_wrt (\<lambda>a b. priority (st a) < priority (st b) \<or>
      priority (st a) = priority (st b) \<and> arrival_time (st a) \<le> arrival_time (st b)) xs \<and>
    (case xs of
       [] \<Rightarrow> peek_request q = Inl IndexError \<and> pop_request st q = Inl IndexError
     | x # rest \<Rightarrow> peek_request q = Inr x \<and> (\<exists>q'. pop_request st q = Inr (x, q') \<and> iter_requests st q' = Inr rest)) \<and>
    mset (contents (add_request st x q)) = add_mset x (mset (contents q)) \<and>
    mset (contents (remove_requests st rs q)) = filter_mset (\<lambda>x. x \<notin> rs) (mset (contents q))"
proof -
  obtain h where q: "q = PriorityQueue h" and heap: "rq.heap_from st 0 (\<lambda>_. False) h"
    using queue_reach_ok [OF assms] by (cases q) auto
  obtain xs where xs: "drain st (length h) h = Inr xs" "mset xs = mset h" "sorted_wrt (\<lambda>a b. \<not> ref_lt st b a) xs"
    using drain_sorted [OF heap] by blast
  have "sorted_wrt (\<lambda>a b. priority (st a) < priority (st b) \<or>
      priority (st a) = priority (st b) \<and> arrival_time (st a) \<le> arrival_time (st b)) xs"
    by (rule sorted_wrt_mono_rel [OF _ xs(3)]) (auto simp: not_ref_lt)
  moreover have "case xs of
       [] \<Rightarrow> peek_request q = Inl IndexError \<and> pop_request st q = Inl IndexError
     | x # rest \<Rightarrow> peek_request q = Inr x \<and> (\<exists>q'. pop_request st q = Inr (x, q') \<and> iter_requests st q' = Inr rest)"
  proof (cases "h = []")
    case True
    then show ?thesis using xs(2) q by (simp add: heappop_def)
  next
    case False
    obtain h' where h': "heappop (ref_lt st) h = Inr (h ! 0, h')" "mset h = add_mset (h ! 0) (mset h')"
      using rq.heappop_heap [OF heap False] by blast
    have "length h = Suc (length h')" using arg_cong [OF h'(2), of size] by simp
    then show ?thesis using xs(1) False h'(1) q by (auto simp: rbind_eq_Inr)
  qed
  ultimately show ?thesis using xs q heap rq.heappush_heap [of st h x] rq.heapify_heap [of st "filter (\<lambda>x. x \<notin> rs) h"]
    by (intro exI [of _ xs]) simp
qed

definition queued :: "string \<Rightarrow> int \<Rightarrow> int \<Rightarrow> request" where
  "queued rid prio arrival =
     request_fields (16, WAITING, None) 1 rid (Some [7]) None None arrival None [] None None prio None False"

definition demo_store :: store where
  "demo_store x = (if x = 1 then queued ''a'' 3 1 else queued ''b'' 0 5)"

theorem priority_queue_is_sorted_list_witness:
  "\<exists>xs. iter_requests demo_store (add_request demo_store 2 (add_request demo_store 1 (create_request_queue PRIORITY))) = Inr xs \<and>
     mset xs = {#1, 2#} \<and> sorted_wrt (\<lambda>a b. \<not> ref_lt demo_store b a) xs"
proof -
  let ?q1 = "add_request demo_store 1 (create_request_queue PRIORITY)"
  let ?q = "add_request demo_store 2 ?q1"
  have one: "queue_reach PRIORITY demo_store ?q1" and reach: "queue_reach PRIORITY demo_store ?q"
    by (intro queue_reach.intros)+
  have "mset (contents ?q1) = {#1#}"
    using add_request_ok [OF conjunct1 [OF queue_reach_ok [OF queue_reach.created]], of demo_store 1 PRIORITY]
    unfolding create_request_queue_def by (simp del: add_request.simps)
  then have "mset (contents ?q) = {#1, 2#}"
    using add_request_ok [OF conjunct1 [OF queue_reach_ok [OF one]]] by (simp only: add_mset_commute)
  moreover obtain xs where "iter_requests demo_store ?q = Inr xs" "mset xs = mset (contents ?q)"
    "sorted_wrt (\<lambda>a b. \<not> ref_lt demo_store b a) xs"
    using priority_queue_is_sorted_list [OF reach] by blast
  ultimately show ?thesis by (intro exI [of _ xs]) (simp only: simp_thms)
qed

end
