(* ===== verification/Streaming_Session.thy ===== *)
theory Streaming_Session
  imports Request_Hashing Request_Queue_Props
begin

text \<open>
  Streaming sessions in \<^verbatim>\<open>vllm/v1/core/sched/scheduler.py\<close>: the two waiting queues, the choice between
  them, and the update of a session with its next input chunk.  The last section shows which tokens an
  update leaves and that it keeps the hashes of blocks whose tokens it replaces.
\<close>

section \<open>The waiting queues\<close>

record waiting_state =
  ws_policy :: scheduling_policy
  waiting :: request_queue
  skipped_waiting :: request_queue
  ws_store :: store
  num_waiting_for_streaming_input :: int
  ws_log_stats :: bool

definition is_blocked_waiting_status :: "request_status \<Rightarrow> bool" where
  "is_blocked_waiting_status s \<longleftrightarrow>
     s \<in> {WAITING_FOR_STRUCTURED_OUTPUT_GRAMMAR, WAITING_FOR_REMOTE_KVS, WAITING_FOR_STREAMING_REQ}"

definition enqueue_waiting_request :: "nat \<Rightarrow> waiting_state \<Rightarrow> waiting_state" where
  "enqueue_waiting_request x s =
     (if is_blocked_waiting_status (status (ws_store s x))
      then s\<lparr>skipped_waiting := add_request (ws_store s) x (skipped_waiting s)\<rparr>
      else s\<lparr>waiting := add_request (ws_store s) x (waiting s)\<rparr>)"

datatype queue_choice = Waiting | SkippedWaiting

definition first_nonempty :: "(queue_choice \<times> request_queue) list \<Rightarrow> queue_choice option" where
  "first_nonempty qs = map_option fst (List.find (queue_bool \<circ> snd) qs)"

definition select_waiting_queue_for_scheduling :: "waiting_state \<Rightarrow> queue_choice option res" where
  "select_waiting_queue_for_scheduling s =
     (if ws_policy s = FCFS
      then rbind (if queue_bool (skipped_waiting s)
                  then rbind (peek_request (skipped_waiting s)) (\<lambda>x. Inr (nelssa_long_mask (ws_store s x)))
                  else Inr False)
             (\<lambda>long. Inr (if long then Some SkippedWaiting
                           else first_nonempty [(SkippedWaiting, skipped_waiting s), (Waiting, waiting s)]))
      else if queue_bool (waiting s) \<and> queue_bool (skipped_waiting s)
      then rbind (peek_request (waiting s)) (\<lambda>w.
           rbind (peek_request (skipped_waiting s)) (\<lambda>k.
             let waiting_is_long = nelssa_long_mask (ws_store s w);
                 skipped_is_long = nelssa_long_mask (ws_store s k)
             in Inr (Some (if skipped_is_long \<and> \<not> waiting_is_long then SkippedWaiting
                           else if waiting_is_long \<and> \<not> skipped_is_long then Waiting
                           else if ref_lt (ws_store s) w k then Waiting else SkippedWaiting))))
      else Inr (first_nonempty [(Waiting, waiting s), (SkippedWaiting, skipped_waiting s)]))"

section \<open>Updating a session\<close>

definition streaming_update_from_request :: "request \<Rightarrow> streaming_update option" where
  "streaming_update_from_request r =
     (if \<not> resumable r then None
      else Some \<lparr>su_mm_features = mm_features r, su_prompt_token_ids = prompt_token_ids r, su_max_tokens = max_tokens r,
                 su_arrival_time = arrival_time r, su_sampling_params = sampling_params_of r\<rparr>)"

text \<open>The session object itself, up to its status and events.\<close>

definition session_with_update :: "hash_env \<Rightarrow> streaming_update \<Rightarrow> request \<Rightarrow> request res" where
  "session_with_update env u r =
     (let n = num_computed_tokens r;
          kept = py_slice (all_token_ids r) (num_prompt_tokens r) n;
          r1 = r\<lparr>all_token_ids := py_upto (all_token_ids r) n, output_token_ids := []\<rparr>
      in case prompt_token_ids r1 of
           None \<Rightarrow> Inl AssertionError
         | Some ids \<Rightarrow>
             let base = num_tokens r1;
                 moved = map (\<lambda>f. f\<lparr>mm_offset := mm_offset f + base\<rparr>) (su_mm_features u);
                 more = (case su_prompt_token_ids u of None \<Rightarrow> [] | Some toks \<Rightarrow> toks);
                 ids' = ids @ kept @ more;
                 r2 = r1\<lparr>mm_features := mm_features r1 @ moved, all_token_ids := all_token_ids r1 @ more,
                         prompt_token_ids := Some ids'\<rparr>
             in rbind (update_block_hashes env r2) (\<lambda>r3.
                  Inr (r3\<lparr>num_prompt_tokens := py_len ids', arrival_time := su_arrival_time u,
                          sampling_params_of := su_sampling_params u\<rparr>)))"

text \<open>\<open>now\<close> is the time stamp of the recorded event.\<close>

definition update_request_as_session ::
  "hash_env \<Rightarrow> int \<Rightarrow> nat \<Rightarrow> streaming_update \<Rightarrow> waiting_state \<Rightarrow> waiting_state res" where
  "update_request_as_session env now x u s =
     rbind (session_with_update env u (ws_store s x)) (\<lambda>r.
       let n = (if status r = WAITING_FOR_STREAMING_REQ then num_waiting_for_streaming_input s - 1
                else num_waiting_for_streaming_input s);
           r' = r\<lparr>status := WAITING\<rparr>;
           r'' = (if ws_log_stats s then record_event QUEUED now r' else r')
       in Inr (s\<lparr>ws_store := (ws_store s)(x := r''), num_waiting_for_streaming_input := n\<rparr>))"

definition handle_stopped_request ::
  "hash_env \<Rightarrow> int \<Rightarrow> nat \<Rightarrow> waiting_state \<Rightarrow> (bool \<times> waiting_state) res" where
  "handle_stopped_request env now x s =
     (let r = ws_store s x
      in if \<not> resumable r then Inr (True, s)
         else case streaming_queue r of
                Some (None # rest) \<Rightarrow>
                  Inr (True, s\<lparr>ws_store := (ws_store s)(x := r\<lparr>streaming_queue := Some rest\<rparr>)\<rparr>)
              | Some (Some u # rest) \<Rightarrow>
                  rbind (update_request_as_session env now x u
                          (s\<lparr>ws_store := (ws_store s)(x := r\<lparr>streaming_queue := Some rest\<rparr>)\<rparr>))
                    (\<lambda>s'. Inr (False, enqueue_waiting_request x s'))
              | _ \<Rightarrow>
                  Inr (False, enqueue_waiting_request x
                    (s\<lparr>ws_store := (ws_store s)(x := r\<lparr>status := WAITING_FOR_STREAMING_REQ\<rparr>),
                       num_waiting_for_streaming_input := num_waiting_for_streaming_input s + 1\<rparr>)))"

section \<open>What an update does\<close>

lemma extra_keys_keep:
  "generate_block_hash_extra_keys env r start end idx = Inr (extra, idx', r') \<Longrightarrow> same_but_embeds r r'"
  by (auto simp: generate_block_hash_extra_keys_def gen_prompt_embeds_extra_hash_keys_def rbind_eq_Inr Let_def
      split: option.splits prod.splits)

lemma hash_loop_keeps: "hash_loop env bs n start idx prev r = Inr (hs, r') \<Longrightarrow> same_but_embeds r r'"
proof (induction env bs n start idx prev r arbitrary: hs r' rule: hash_loop.induct)
  case (1 env bs n start idx prev r)
  show ?case
  proof (cases "n < start + bs \<or> bs \<le> 0")
    case True
    then show ?thesis using "1.prems" by (auto simp: hash_loop.simps [of env bs n] split: if_splits)
  next
    case False
    then obtain extra idx' r1 hs1 where s: "generate_block_hash_extra_keys env r start (start + bs) idx = Inr (extra, idx', r1)"
      "hash_loop env bs n (start + bs) idx'
         (Some (hash_block_tokens env prev (py_slice (all_token_ids r1) start (start + bs)) extra)) r1 = Inr (hs1, r')"
      using "1.prems" by (auto simp: hash_loop.simps [of env bs n start] rbind_eq_Inr Let_def)
    show ?thesis
      using same_but_embeds_trans [OF extra_keys_keep [OF s(1)] "1.IH" [OF _ _ s(1) refl refl refl s(2)]] False by auto
  qed
qed

lemma update_block_hashes_keeps:
  assumes "update_block_hashes env r = Inr r'"
  obtains c hs where "r' = r\<lparr>prompt_embeds_per_block_hashes := c, block_hashes := block_hashes r @ hs\<rparr>"
proof (cases "block_hasher r")
  case None
  then show ?thesis using assms that [where c = "prompt_embeds_per_block_hashes r" and hs = "[]"] by (simp add: update_block_hashes_def)
next
  case (Some bs)
  then obtain hs r1 where h: "request_block_hasher env bs r = Inr (hs, r1)" "r' = r1\<lparr>block_hashes := block_hashes r1 @ hs\<rparr>"
    using assms by (auto simp: update_block_hashes_def rbind_eq_Inr)
  have "same_but_embeds r r1"
    using h(1) by (auto simp: request_block_hasher_def Let_def split: if_splits dest: hash_loop_keeps)
  then obtain c where "r1 = r\<lparr>prompt_embeds_per_block_hashes := c\<rparr>" unfolding same_but_embeds_def by blast
  then show ?thesis using h(2) that [where c = c and hs = hs] by simp
qed

abbreviation update_tokens :: "streaming_update \<Rightarrow> int list" where
  "update_tokens u \<equiv> (case su_prompt_token_ids u of None \<Rightarrow> [] | Some toks \<Rightarrow> toks)"

lemma session_fields:
  assumes "update_request_as_session env now x u s = Inr s'" "0 \<le> num_computed_tokens (ws_store s x)"
  shows "all_token_ids (ws_store s' x) = take (nat (num_computed_tokens (ws_store s x))) (all_token_ids (ws_store s x)) @ update_tokens u"
    "\<exists>ids. prompt_token_ids (ws_store s x) = Some ids \<and> prompt_token_ids (ws_store s' x) =
       Some (ids @ py_slice (all_token_ids (ws_store s x)) (num_prompt_tokens (ws_store s x)) (num_computed_tokens (ws_store s x)) @ update_tokens u) \<and>
       num_prompt_tokens (ws_store s' x) = py_len (the (prompt_token_ids (ws_store s' x)))"
    "output_token_ids (ws_store s' x) = []" "max_tokens (ws_store s' x) = max_tokens (ws_store s x)"
    "\<exists>hs. block_hashes (ws_store s' x) = block_hashes (ws_store s x) @ hs" "status (ws_store s' x) = WAITING"
    "arrival_time (ws_store s' x) = su_arrival_time u" "priority (ws_store s' x) = priority (ws_store s x)"
    "y \<noteq> x \<Longrightarrow> ws_store s' y = ws_store s y" "waiting s' = waiting s" "skipped_waiting s' = skipped_waiting s"
proof -
  obtain r where r: "session_with_update env u (ws_store s x) = Inr r"
    "\<exists>n. s' = s\<lparr>ws_store := (ws_store s)(x := if ws_log_stats s then record_event QUEUED now (r\<lparr>status := WAITING\<rparr>) else r\<lparr>status := WAITING\<rparr>),
       num_waiting_for_streaming_input := n\<rparr>"
    using assms(1) by (auto simp: update_request_as_session_def rbind_eq_Inr Let_def)
  obtain ids r2 r3 where u: "prompt_token_ids (ws_store s x) = Some ids" "update_block_hashes env r2 = Inr r3"
    "r2 = (ws_store s x)\<lparr>all_token_ids := take (nat (num_computed_tokens (ws_store s x))) (all_token_ids (ws_store s x)) @ update_tokens u,
        output_token_ids := [], mm_features := mm_features r2,
        prompt_token_ids := Some (ids @ py_slice (all_token_ids (ws_store s x)) (num_prompt_tokens (ws_store s x)) (num_computed_tokens (ws_store s x)) @ update_tokens u)\<rparr>"
    "r = r3\<lparr>num_prompt_tokens := py_len (the (prompt_token_ids r2)), arrival_time := su_arrival_time u, sampling_params_of := su_sampling_params u\<rparr>"
    using r(1) assms(2) by (auto simp: session_with_update_def rbind_eq_Inr Let_def py_upto_nonneg split: option.splits)
  obtain c hs where k: "r3 = r2\<lparr>prompt_embeds_per_block_hashes := c, block_hashes := block_hashes r2 @ hs\<rparr>"
    by (rule update_block_hashes_keeps [OF u(2)])
  have e: "ws_store s' x = (if ws_log_stats s then record_event QUEUED now (r\<lparr>status := WAITING\<rparr>) else r\<lparr>status := WAITING\<rparr>)"
    using r(2) by auto
  note sel = arg_cong [OF u(3), of all_token_ids] arg_cong [OF u(3), of prompt_token_ids] arg_cong [OF u(3), of output_token_ids]
    arg_cong [OF u(3), of max_tokens] arg_cong [OF u(3), of block_hashes] arg_cong [OF u(3), of priority]
  show "all_token_ids (ws_store s' x) = take (nat (num_computed_tokens (ws_store s x))) (all_token_ids (ws_store s x)) @ update_tokens u"
    "output_token_ids (ws_store s' x) = []" "max_tokens (ws_store s' x) = max_tokens (ws_store s x)"
    "status (ws_store s' x) = WAITING" "arrival_time (ws_store s' x) = su_arrival_time u"
    "priority (ws_store s' x) = priority (ws_store s x)"
    "\<exists>hs. block_hashes (ws_store s' x) = block_hashes (ws_store s x) @ hs"
    using sel by (simp_all add: e u(4) k record_event_def)
  show "\<exists>ids. prompt_token_ids (ws_store s x) = Some ids \<and> prompt_token_ids (ws_store s' x) =
       Some (ids @ py_slice (all_token_ids (ws_store s x)) (num_prompt_tokens (ws_store s x)) (num_computed_tokens (ws_store s x)) @ update_tokens u) \<and>
       num_prompt_tokens (ws_store s' x) = py_len (the (prompt_token_ids (ws_store s' x)))"
    using sel u(1) by (simp add: e u(4) k record_event_def)
  show "y \<noteq> x \<Longrightarrow> ws_store s' y = ws_store s y" "waiting s' = waiting s" "skipped_waiting s' = skipped_waiting s"
    using r(2) by auto
qed

text \<open>
  The order of the priority queue depends on the arrival time, which the update changes while the session is
  in the queue: the session stays in front of a request that now comes before it.
\<close>

lemma updated_session_out_of_order:
  assumes "update_request_as_session env now x u s = Inr s'" "0 \<le> num_computed_tokens (ws_store s x)"
    and "skipped_waiting s = PriorityQueue h" "peek_request (skipped_waiting s) = Inr x" "y \<in> set h" "y \<noteq> x"
    and "priority (ws_store s y) = priority (ws_store s x)" "arrival_time (ws_store s y) < su_arrival_time u"
  shows "peek_request (skipped_waiting s') = Inr x \<and> ref_lt (ws_store s') y x"
  using session_fields [OF assms(1,2)] assms(3-) by (simp add: ref_lt_def request_lt_def)


text \<open>
  C29. A streaming update can leave the hash of a block whose tokens it replaces.  When the hashes of the
  session were those of its tokens and the update puts another token at the first discarded position,
  inside a block that was already hashed, the updated session keeps the old hash of that block: two
  different token prefixes then have the same hash although the hash function is collision free, and it is
  not the hash of the session's own tokens.
\<close>

theorem streaming_update_stale_hash:
  assumes "update_request_as_session env now x u s = Inr s'" "r = ws_store s x" "r' = ws_store s' x"
    and "collision_free env" "hashes_ok env bs r" "c = num_computed_tokens r"
    and "0 \<le> c" "c < int (Suc k) * bs" "k < length (block_hashes r)" "int (Suc k) * bs \<le> num_tokens r'"
    and "all_token_ids r' ! nat c \<noteq> all_token_ids r ! nat c"
  shows "block_hashes r' ! k = block_hashes r ! k \<and>
    take (nat bs * Suc k) (all_token_ids r') \<noteq> take (nat bs * Suc k) (all_token_ids r) \<and>
    block_hashes r' ! k \<noteq> block_hash_at env bs r' k"
proof -
  have bs: "0 < bs" using assms(5) by (simp add: hashes_ok_def)
  have "\<exists>hs. block_hashes r' = block_hashes r @ hs" using session_fields(5) [OF assms(1)] assms(2,3,6,7) by simp
  then have old: "block_hashes r' ! k = block_hashes r ! k" using assms(9) by (auto simp: nth_append)
  have "int (nat bs * Suc k) = int (Suc k) * bs" using bs by (simp add: distrib_left distrib_right mult.commute)
  then have "nat c < nat bs * Suc k" using assms(7,8) by linarith
  then have differ: "take (nat bs * Suc k) (all_token_ids r') \<noteq> take (nat bs * Suc k) (all_token_ids r)"
    using assms(11) by (metis nth_take)
  have "block_hash_at env bs r k \<noteq> block_hash_at env bs r' k"
    using block_hash_at_inj [OF assms(4), of bs r k r' k] block_slices_prefix [of bs k r r'] bs differ by auto
  then show ?thesis using old differ block_hashes_nth [OF assms(5,9)] by simp
qed

lemma hashes_ok_computed: "hashes_ok env bs (r\<lparr>num_computed_tokens := c\<rparr>) = hashes_ok env bs r"
proof -
  have "block_hash_at env bs (r\<lparr>num_computed_tokens := c\<rparr>) = block_hash_at env bs r"
    by (rule ext, rule block_hash_at_cong)
      (simp_all add: block_slice_def block_extra_def extra_keys_spec_cong [of "r\<lparr>num_computed_tokens := c\<rparr>" r])
  moreover have "embeds_ok env (r\<lparr>num_computed_tokens := c\<rparr>) = embeds_ok env r"
    by (simp add: embeds_ok_def split: option.split)
  ultimately show ?thesis by (simp add: hashes_ok_def full_blocks_def num_tokens_def mm_settled_def)
qed

text \<open>A session of two blocks whose last token is not computed yet.\<close>

definition demo_update :: streaming_update where
  "demo_update = \<lparr>su_mm_features = [], su_prompt_token_ids = Some [9], su_max_tokens = 50, su_arrival_time = 7,
     su_sampling_params = None\<rparr>"

definition waiting_for :: "request \<Rightarrow> waiting_state" where
  "waiting_for r = \<lparr>ws_policy = PRIORITY, waiting = PriorityQueue [], skipped_waiting = PriorityQueue [0], ws_store = (\<lambda>_. r),
     num_waiting_for_streaming_input = 1, ws_log_stats = False\<rparr>"

lemma demo_session:
  obtains r s' where "hashes_ok demo_env 2 r" "num_computed_tokens r = 3" "all_token_ids r = [1, 2, 3, 4]" "prompt_token_ids r = Some [1, 2]"
    "output_token_ids r = [3, 4]" "num_prompt_tokens r = 2" "length (block_hashes r) = 2"
    "update_request_as_session demo_env 0 0 demo_update (waiting_for r) = Inr s'"
proof -
  have lim: "initial_limits (Some demo_sp) None = Inr (16, WAITING, None)" by (simp add: initial_limits_def demo_sp_def)
  let ?f = "request_fields (16, WAITING, None) 2 ''a'' (Some [1, 2]) (Some demo_sp) None 0 None [] None None 0 (Some 2) True"
  obtain r0 where r0: "request_init demo_env ''a'' (Some [1, 2]) (Some demo_sp) None 0 None [] None None 0 (Some 2) True = Inr r0"
    "hashes_ok demo_env 2 r0"
    using request_init_ok [OF lim, of "Some [1, 2]" None 2 2 "[]" demo_env "''a''" 0 None None 0 True]
    by (auto simp: length_from_prompt_token_ids_or_embeds_def)
  then have "update_block_hashes demo_env ?f = Inr r0"
    by (simp add: request_init_def lim length_from_prompt_token_ids_or_embeds_def)
  then obtain c0 hs0 where e0: "r0 = ?f\<lparr>prompt_embeds_per_block_hashes := c0, block_hashes := block_hashes ?f @ hs0\<rparr>"
    by (rule update_block_hashes_keeps)
  obtain r1 where r1: "append_output_token_ids demo_env [3, 4] r0 = Inr r1" "hashes_ok demo_env 2 r1"
    using append_output_token_ids_ok [OF r0(2)] by blast
  obtain c1 hs1 where e1: "r1 = r0\<lparr>output_token_ids := output_token_ids r0 @ [3, 4], all_token_ids := all_token_ids r0 @ [3, 4],
      prompt_embeds_per_block_hashes := c1, block_hashes := block_hashes r0 @ hs1\<rparr>"
    using r1(1) unfolding append_output_token_ids_def by (rule update_block_hashes_keeps) auto
  define r where "r = r1\<lparr>num_computed_tokens := 3\<rparr>"
  have ok: "hashes_ok demo_env 2 r" using r1(2) by (simp add: r_def hashes_ok_computed)
  have f: "num_computed_tokens r = 3" "all_token_ids r = [1, 2, 3, 4]" "prompt_token_ids r = Some [1, 2]"
    "output_token_ids r = [3, 4]" "num_prompt_tokens r = 2" "block_hasher r = Some 2"
    by (simp_all add: r_def e1 e0 request_fields_def)
  have len: "length (block_hashes r) = 2" using ok f(2) by (simp add: hashes_ok_def full_blocks_def num_tokens_def)
  have "\<exists>s'. update_request_as_session demo_env 0 0 demo_update (waiting_for r) = Inr s'"
    using f len by (simp add: update_request_as_session_def session_with_update_def demo_update_def waiting_for_def
        update_block_hashes_def request_block_hasher_def num_tokens_def idx_simps py_len_def Let_def)
  then show thesis using that [OF ok f(1-5) len] by blast
qed


theorem streaming_update_stale_hash_witness:
  "\<exists>s s'. update_request_as_session demo_env 0 0 demo_update s = Inr s' \<and> hashes_ok demo_env 2 (ws_store s 0) \<and>
     all_token_ids (ws_store s 0) = [1, 2, 3, 4] \<and> all_token_ids (ws_store s' 0) = [1, 2, 3, 9] \<and>
     block_hashes (ws_store s' 0) ! 1 = block_hashes (ws_store s 0) ! 1"
proof -
  obtain r s' where r: "hashes_ok demo_env 2 r" "num_computed_tokens r = 3" "all_token_ids r = [1, 2, 3, 4]"
    "length (block_hashes r) = 2" "update_request_as_session demo_env 0 0 demo_update (waiting_for r) = Inr s'"
    by (rule demo_session)
  have st: "ws_store (waiting_for r) 0 = r" by (simp add: waiting_for_def)
  have toks: "all_token_ids (ws_store s' 0) = [1, 2, 3, 9]"
    using session_fields(1) [OF r(5)] r(2,3) st by (simp add: demo_update_def)
  have "block_hashes (ws_store s' 0) ! 1 = block_hashes r ! 1"
    using streaming_update_stale_hash [OF r(5) refl refl demo_env_collision_free, unfolded st, OF r(1) refl, of 1] r(2-4) toks
    by (simp add: num_tokens_def py_len_def)
  then show ?thesis using r(1,3,5) st toks by (intro exI [of _ "waiting_for r"] exI [of _ s']) simp
qed

end
