(* ===== verification/Spec2Isabelle.thy ===== *)
theory Spec2Isabelle
  imports KV_Manager_Safe Sched_Utils Encoder_Cache_Props Streaming_Session Preemption
begin

text \<open>
  \<^bold>\<open>Verification of the KV cache management and request scheduling of the nelssa fork of vLLM\<close>

  \<^bold>\<open>The program.\<close>  vLLM serves language models; the keys and values of attention (the KV cache) live in
  blocks of fixed size.  The scheduler (\<^verbatim>\<open>src/vllm/v1/core/sched/\<close>) asks the KV cache manager for slots for
  the tokens of each request.  The manager (\<^verbatim>\<open>kv_cache_manager.py\<close> in \<^verbatim>\<open>src/vllm/v1/core/\<close>) passes
  every call to a coordinator (\<^verbatim>\<open>kv_cache_coordinator.py\<close>), which calls one single-type manager per group of
  layers (\<^verbatim>\<open>single_type_kv_cache_manager.py\<close>); these keep one block table per request and share one block
  pool (\<^verbatim>\<open>block_pool.py\<close>) with reference counts, a free queue in eviction order and a prefix cache from block
  hashes to blocks.  Requests (\<^verbatim>\<open>src/vllm/v1/request.py\<close>) carry the chained hashes of their full blocks.  The
  NELSSA extension keeps only head and tail of long prompts on the GPU, releases the blocks in the middle and
  protects such requests from preemption.  A second cache holds the outputs of multi-modal encoders.

  \<^bold>\<open>Conventions\<close> (\<open>Py_Prelude\<close>).  An operation that may raise returns \<open>'a res\<close>; every raise and failed
  assertion of the code is a branch.  Objects that are shared and mutated (blocks, queued requests) are
  references into a store; other state is passed along in records.  A dict is an association list in insertion
  order.  An overridden method \<open>f\<close> of a manager class has its base version in \<open>base_f\<close>.  Parameters stand for
  code outside the sources: the hash functions (\<open>hash_env\<close>), the sizes of torch types (\<open>element_size\<close>), the
  encoder-cache connector (\<open>remote\<close>), time stamps, and the iteration order of Python sets.

  \<^bold>\<open>Theories, in the order of the code they model\<close>

  \<^item> \<open>Block_Hash\<close>: cache keys, a hash with its group id in four bytes (\<^verbatim>\<open>kv_cache_utils.py\<close>).  Packing and
    unpacking are inverse on the ids that fit.
  \<^item> \<open>Free_Block_Queue\<close>: \<^verbatim>\<open>FreeKVCacheBlockQueue\<close> (\<^verbatim>\<open>kv_cache_utils.py\<close>), a doubly linked list through the
    block objects.  Every run equals the run on a plain list; locale \<open>free_queue_ops\<close> is its contract.
  \<^item> \<open>Block_Hash_Map\<close>, \<open>Block_Pool\<close>, \<open>Block_Pool_Ops\<close>, \<open>Block_Pool_Props\<close>: \<^verbatim>\<open>block_pool.py\<close>.  The prefix
    cache meets the contract \<open>block_cache\<close>; every reachable pool has exactly the unreferenced blocks in its free
    queue and a cache that agrees with the blocks; allocation, lookup, registration and reset do what they
    promise.
  \<^item> \<open>Request\<close>, \<open>Request_Hashing\<close>: \<^verbatim>\<open>request.py\<close> and the block hasher of \<^verbatim>\<open>kv_cache_utils.py\<close>.  Incremental
    hashing equals hashing from scratch, equal hashes mean equal prefixes, and two ways in which keys collide.
  \<^item> \<open>KV_Cache_Spec\<close>: \<^verbatim>\<open>kv_cache_interface.py\<close>, the layer formats, page sizes, memory bounds and merging.
  \<^item> \<open>Single_Type_Manager\<close>, \<open>Cache_Hit\<close>: all manager classes of \<^verbatim>\<open>single_type_kv_cache_manager.py\<close>.
    \<open>Manager_Invariant\<close>, \<open>Manager_Ops\<close>, \<open>Manager_Variants\<close> show that every operation keeps the accounting
    invariant; \<open>Manager_Steps\<close> lifts it to several managers on one pool by the locale \<open>pool_client\<close>;
    \<open>Manager_Refinement\<close> and \<open>Manager_Props\<close> relate a manager to a list allocator and bound the blocks of
    window and chunk attention; \<open>Admission_Props\<close> treats admission estimates, NELSSA and sinks;
    \<open>Cache_Hit_Props\<close> and \<open>Hit_Sound\<close> say what a prefix hit is.
  \<^item> \<open>KV_Coordinator\<close>: \<^verbatim>\<open>kv_cache_coordinator.py\<close>.  \<open>Hybrid_Hit\<close> and \<open>Hybrid_Props\<close>: the search for a common
    hit of several groups terminates and its groups agree.  \<open>Coordinator_Props\<close>, \<open>Coordinator_Steps\<close>: its
    loops as sequences of manager steps.
  \<^item> \<open>KV_Manager\<close>: \<^verbatim>\<open>kv_cache_manager.py\<close>.  \<open>KV_Manager_Props\<close>, \<open>KV_Manager_Reach\<close>, \<open>KV_Manager_Unitary\<close>,
    \<open>KV_Manager_Safe\<close>: the accounting holds in every state its calls reach, freeing everything makes the
    prefix cache resettable, and for one full-attention group scheduling a new request never raises.
  \<^item> \<open>Encoder_Cache\<close>, \<open>Encoder_Cache_Props\<close>: \<^verbatim>\<open>encoder_cache_manager.py\<close> and the methods of
    \<^verbatim>\<open>sched/scheduler.py\<close> that plan and free encoder inputs.  The slots are accounted for and planned inputs fit.
  \<^item> \<open>Request_Queue\<close>, \<open>Request_Queue_Props\<close>: \<^verbatim>\<open>sched/request_queue.py\<close> with Python's \<^verbatim>\<open>heapq\<close>; the locale
    \<open>heap_order\<close> holds the heap lemmas.  The priority queue is the sorted list of its requests.
  \<^item> \<open>Streaming_Session\<close>, \<open>Preemption\<close>: the parts of \<^verbatim>\<open>sched/scheduler.py\<close> that update a streaming session,
    choose a waiting queue and preempt a running request.
  \<^item> \<open>Sched_Utils\<close>: \<^verbatim>\<open>sched/utils.py\<close>, stop conditions and repetition detection.

  \<^bold>\<open>Scope of the reachability results.\<close>  \<open>km_reach\<close> leaves out attention sinks, Mamba in \<^verbatim>\<open>align\<close> mode and
  external tokens, and takes requests whose hashes are those of their tokens (\<open>hashes_ok\<close>); the theorems on
  sinks, external tokens and streaming updates show what goes wrong outside.  \<open>hybrid_config\<close> allows one
  full-attention spec, sliding windows and Mamba without an EAGLE drop.  \<open>queue_reach\<close> assumes that queued
  requests keep their priority, arrival time and id.

  \<^bold>\<open>Termination.\<close>  There is no fuel.  Two loops are \<^verbatim>\<open>partial_function\<close>s: the walk through the free list and
  the hybrid search; for both it is proved that they return on every well-formed state.  The hasher's loop is a
  total function with the value \<open>Diverges\<close> for a block size that is not positive.  Python's integers are \<open>int\<close>;
  only the bytes of cache keys are words.

  \<^bold>\<open>Not modelled.\<close>  The remaining body of \<^verbatim>\<open>schedule\<close> and \<^verbatim>\<open>update_from_output\<close> and the async scheduler, the
  construction of the KV cache configuration from layers and memory sizes, KV connectors and offloading,
  workers, model runner, kernels, k-means clustering and the GPU library (floating point and device code),
  engine processes and entry points (I/O).  Statistics are modelled where an operation depends on them.
\<close>

end
